(* ===== verification/DSE_Prelude.thy ===== *)
theory DSE_Prelude
  imports Main "HOL-Library.Word" "HOL-Library.AList" "HOL-Library.Multiset"
begin

text \<open>
  What the component theories share: the machine types of the C++ sources, strings as byte
  sequences, the two number formats the code prints (\<open>operator<<\<close> in decimal and in
  hexadecimal with \<open>setw\<close>/\<open>setfill\<close>), the containers \<open>std::unordered_map\<close> is modelled by, and
  the interface of a byte codec with the lemmas every on-disk field uses.

  An \<open>unordered_map\<close> is an association list with distinct keys, listed in the container's current
  iteration order. Assigning to a key that is present keeps the order; erasing a key keeps the
  order of the others; inserting a new key may put it anywhere and may rehash, so the order of the
  whole container afterwards is that of an arbitrary rank function on keys, supplied by the
  environment. Every order is the order of some rank function, so nothing is assumed of it.
\<close>

unbundle bit_operations_syntax

section \<open>Machine types\<close>

type_synonym u8 = "8 word"
type_synonym u16 = "16 word"
type_synonym u32 = "32 word"
type_synonym u64 = "64 word"
type_synonym bytes = "8 word list"

text \<open>A \<open>std::string\<close> is a sequence of 8-bit \<open>char\<close>; \<open>insert\<close> and the range constructor between
  \<open>std::string\<close> and \<open>std::vector<uint8_t>\<close> convert element by element.\<close>

definition bytes_of_string :: "string \<Rightarrow> bytes" where
  "bytes_of_string s = map (\<lambda>c. word_of_nat (of_char c)) s"

definition string_of_bytes :: "bytes \<Rightarrow> string" where
  "string_of_bytes bs = map (\<lambda>b. char_of (unat b)) bs"

text \<open>The bytes of a machine word, most significant first: the code's
  \<open>static_cast<uint8_t>((v >> (i * 8)) & 0xff)\<close> for \<open>i\<close> from \<open>n - 1\<close> down to 0.\<close>

definition be_bytes :: "nat \<Rightarrow> 'a::len word \<Rightarrow> bytes" where
  "be_bytes n v = map (\<lambda>i. ucast (drop_bit (i * 8) v AND 0xff)) (rev [0..<n])"

section \<open>Printing numbers\<close>

definition hex_digit :: "nat \<Rightarrow> char" where
  "hex_digit d = ''0123456789abcdef'' ! d"

fun hex_string :: "nat \<Rightarrow> string" where
  "hex_string n = (if n < 16 then [hex_digit n] else hex_string (n div 16) @ [hex_digit (n mod 16)])"

fun dec_string :: "nat \<Rightarrow> string" where
  "dec_string n = (if n < 10 then [hex_digit n] else dec_string (n div 10) @ [hex_digit (n mod 10)])"

declare hex_string.simps [simp del] dec_string.simps [simp del]

text \<open>\<open>std::setw(w)\<close> with \<open>std::setfill('0')\<close>: padding on the left, never truncation.\<close>

definition setw0 :: "nat \<Rightarrow> string \<Rightarrow> string" where
  "setw0 w s = replicate (w - length s) (CHR ''0'') @ s"

section \<open>Unordered maps\<close>

type_synonym ('k, 'v) umap = "('k \<times> 'v) list"

definition um_find :: "('k, 'v) umap \<Rightarrow> 'k \<Rightarrow> 'v option" where
  "um_find m k = map_of m k"

definition um_assign :: "('k \<Rightarrow> nat) \<Rightarrow> 'k \<Rightarrow> 'v \<Rightarrow> ('k, 'v) umap \<Rightarrow> ('k, 'v) umap" where
  "um_assign rank k v m =
     (if um_find m k = None then sort_key (\<lambda>e. rank (fst e)) (m @ [(k, v)])
      else AList.update k v m)"

definition um_erase :: "'k \<Rightarrow> ('k, 'v) umap \<Rightarrow> ('k, 'v) umap" where
  "um_erase k m = AList.delete k m"

definition um_inv :: "('k, 'v) umap \<Rightarrow> bool" where
  "um_inv m \<longleftrightarrow> distinct (map fst m)"

section \<open>Sequencing byte readers\<close>

text \<open>A reader takes the buffer and a position and returns the value read with the new position;
  \<open>None\<close> is the exception \<open>buffer underflow\<close>. Reading one field and then another:\<close>

type_synonym 'a reader = "bytes \<Rightarrow> nat \<Rightarrow> ('a \<times> nat) option"

definition seq_rd :: "'a reader \<Rightarrow> 'b reader \<Rightarrow> ('a \<times> 'b) reader" where
  "seq_rd ra rb buf pos =
     (case ra buf pos of None \<Rightarrow> None
      | Some (x, p) \<Rightarrow> (case rb buf p of None \<Rightarrow> None | Some (y, q) \<Rightarrow> Some ((x, y), q)))"

definition seq_enc :: "('a \<Rightarrow> bytes) \<Rightarrow> ('b \<Rightarrow> bytes) \<Rightarrow> 'a \<times> 'b \<Rightarrow> bytes" where
  "seq_enc ea eb xy = ea (fst xy) @ eb (snd xy)"

definition seq_valid :: "('a \<Rightarrow> bool) \<Rightarrow> ('b \<Rightarrow> bool) \<Rightarrow> 'a \<times> 'b \<Rightarrow> bool" where
  "seq_valid va vb xy \<longleftrightarrow> va (fst xy) \<and> vb (snd xy)"

section \<open>Running a sequence of operations\<close>

text \<open>Every component that is protected by one lock runs its operations one after the other; a
  history of it is a list of operations, each with its arguments and what its environment did.\<close>

fun run_ops :: "('op \<Rightarrow> 's \<Rightarrow> 'r \<times> 's) \<Rightarrow> 'op list \<Rightarrow> 's \<Rightarrow> 'r list \<times> 's" where
  "run_ops step [] s = ([], s)"
| "run_ops step (op # ops) s =
     (let (r, s1) = step op s; (rs, s2) = run_ops step ops s1 in (r # rs, s2))"

text \<open>What is assumed of the environment of each operation, at the state in which it runs.\<close>

fun run_pre :: "('op \<Rightarrow> 's \<Rightarrow> 'r \<times> 's) \<Rightarrow> ('op \<Rightarrow> 's \<Rightarrow> bool) \<Rightarrow> 'op list \<Rightarrow> 's \<Rightarrow> bool" where
  "run_pre step pre [] s \<longleftrightarrow> True"
| "run_pre step pre (op # ops) s \<longleftrightarrow> pre op s \<and> run_pre step pre ops (snd (step op s))"

lemma run_pre_const: "run_pre step (\<lambda>op _. P op) ops s \<longleftrightarrow> list_all P ops"
  by (induction ops arbitrary: s) simp_all

section \<open>Collections of facts\<close>

named_theorems um_simps \<open>what lookup returns after each operation on an unordered map\<close>
named_theorems codec_simps \<open>rewriting of the byte-level readers on encoded input\<close>

section \<open>Strings and bytes\<close>

lemma length_bytes_of_string [simp]: "length (bytes_of_string s) = length s"
  by (simp add: bytes_of_string_def)

lemma length_string_of_bytes [simp]: "length (string_of_bytes bs) = length bs"
  by (simp add: string_of_bytes_def)

lemma char_of_byte_of_char: "char_of (unat (word_of_nat (of_char c) :: u8)) = c"
  by (simp add: unat_of_nat)

lemma byte_of_char_of_byte: "word_of_nat (unat b mod 256) = (b :: u8)"
proof -
  have "unat b < 2 ^ 8" using unsigned_less [of b] by simp
  then show ?thesis by simp
qed

lemma string_of_bytes_of_string [simp]: "string_of_bytes (bytes_of_string s) = s"
  by (simp add: string_of_bytes_def bytes_of_string_def o_def char_of_byte_of_char)

lemma bytes_of_string_of_bytes [simp]: "bytes_of_string (string_of_bytes bs) = bs"
  by (simp add: string_of_bytes_def bytes_of_string_def o_def byte_of_char_of_byte)

section \<open>Big-endian words\<close>

lemma ff_mask: "(0xff :: 'a::len word) = mask 8"
  by (simp add: mask_eq_exp_minus_1)
lemma ucast_and_ff: "(ucast (x AND 0xff) :: u8) = ucast x"
  unfolding ff_mask by (rule bit_word_eqI) (auto simp add: bit_simps dest: bit_imp_le_length)

lemma length_be_bytes [simp]: "length (be_bytes n v) = n"
  by (simp add: be_bytes_def)

lemma nth_be_bytes: "j < n \<Longrightarrow> be_bytes n v ! j = ucast (drop_bit ((n - 1 - j) * 8) v)"
  by (simp add: be_bytes_def rev_nth ucast_and_ff)

lemma bit_word_rcat:
  "bit (word_rcat (bs :: bytes) :: 'a::len word) i \<longleftrightarrow>
     i < LENGTH('a) \<and> i div 8 < length bs \<and> bit (bs ! (length bs - 1 - i div 8)) (i mod 8)"
  using bit_horner_sum_uint_exp_iff [of "rev bs" i]
  by (auto simp: word_rcat_def bit_simps rev_nth)

lemma word_rcat_be_bytes:
  assumes "LENGTH('a) = 8 * n"
  shows "word_rcat (be_bytes n v) = (v :: 'a::len word)"
proof (rule bit_word_eqI)
  fix i assume "i < LENGTH('a)"
  then have "i div 8 < n" using assms by simp
  with \<open>i < LENGTH('a)\<close> show "bit (word_rcat (be_bytes n v) :: 'a word) i = bit v i"
    by (simp add: bit_word_rcat nth_be_bytes bit_simps)
qed

lemma be_bytes_word_rcat:
  assumes "LENGTH('a) = 8 * n" "length bs = n"
  shows "be_bytes n (word_rcat bs :: 'a::len word) = bs"
proof (rule nth_equalityI)
  fix j assume "j < length (be_bytes n (word_rcat bs :: 'a word))"
  then have j: "j < n" by simp
  show "be_bytes n (word_rcat bs :: 'a word) ! j = bs ! j"
  proof (rule bit_word_eqI)
    fix m assume "m < LENGTH(8)"
    then have m: "m < 8" by simp
    have "(n - 1 - j) * 8 + m < 8 * n" using j m by auto
    moreover have "((n - 1 - j) * 8 + m) div 8 = n - 1 - j" using m by simp
    moreover have "((n - 1 - j) * 8 + m) mod 8 = m" using m by simp
    ultimately show "bit (be_bytes n (word_rcat bs :: 'a word) ! j) m = bit (bs ! j) m"
      using j m assms by (simp add: nth_be_bytes bit_simps bit_word_rcat)
  qed
qed (simp add: assms)

lemma word_rcat_Nil: "word_rcat ([] :: bytes) = (0 :: 'a::len word)"
  by (rule bit_word_eqI) (simp add: bit_word_rcat)

lemma word_rcat_snoc: "word_rcat (bs @ [b :: u8]) = (push_bit 8 (word_rcat bs) OR ucast b :: 'a::len word)"
proof (rule bit_word_eqI)
  fix i assume i: "i < LENGTH('a)"
  show "bit (word_rcat (bs @ [b]) :: 'a word) i = bit (push_bit 8 (word_rcat bs) OR ucast b :: 'a word) i"
  proof (cases "i < 8")
    case True
    with i show ?thesis by (auto simp: bit_word_rcat bit_simps nth_append)
  next
    case False
    then obtain j where j: "i = j + 8" by (metis le_add_diff_inverse2 not_less)
    have d: "(j + 8) div 8 = Suc (j div 8)" by simp
    have b: "\<not> bit b (j + 8)" using bit_imp_le_length [of b "j + 8"] by auto
    show ?thesis using i b unfolding j by (auto simp: bit_word_rcat bit_simps nth_append d)
  qed
qed

lemma join4: "push_bit 24 (ucast (a::u8)) OR push_bit 16 (ucast (b::u8)) OR push_bit 8 (ucast (c::u8)) OR ucast (d::u8)
    = (word_rcat [a, b, c, d] :: 'a::len word)"
  using word_rcat_snoc [of "[a,b,c]" d, where 'a = 'a] word_rcat_snoc [of "[a,b]" c, where 'a = 'a]
     word_rcat_snoc [of "[a]" b, where 'a = 'a] word_rcat_snoc [of "[]" a, where 'a = 'a] word_rcat_Nil [where 'a = 'a]
  by (simp only: append.simps push_bit_or push_bit_push_bit or.assoc push_bit_of_0 or.left_neutral) simp

lemma foldl_join: "foldl (\<lambda>v b. push_bit 8 v OR ucast b) (word_rcat as) bs = (word_rcat (as @ bs) :: 'a::len word)" for bs :: bytes
proof (induction bs arbitrary: as)
  case (Cons b bs)
  from Cons[of "as @ [b]"] show ?case by (simp add: word_rcat_snoc)
qed simp

section \<open>Digits\<close>

lemma length_hex_string_le: "n < 16 ^ w \<Longrightarrow> 0 < w \<Longrightarrow> length (hex_string n) \<le> w"
proof (induction n arbitrary: w rule: hex_string.induct)
  case (1 n)
  show ?case
  proof (cases "n < 16")
    case True
    with "1.prems" show ?thesis by (simp add: hex_string.simps [of n])
  next
    case False
    with "1.prems" obtain v where w: "w = Suc v" "0 < v"
      by (cases w; cases "w - 1") auto
    have "n div 16 < 16 ^ v"
      using "1.prems"(1) w(1) by (simp add: div_less_iff_less_mult mult.commute)
    then have "length (hex_string (n div 16)) \<le> v"
      using False w(2) by (intro "1.IH") auto
    with False w(1) show ?thesis by (simp add: hex_string.simps [of n])
  qed
qed

lemma length_setw0: "length (setw0 w s) = max w (length s)"
  by (simp add: setw0_def)

lemma length_setw0_hex: "n < 16 ^ w \<Longrightarrow> 0 < w \<Longrightarrow> length (setw0 w (hex_string n)) = w"
  using length_hex_string_le [of n w] by (simp add: length_setw0)

lemma hex_digit_lt: "d < 16 \<Longrightarrow> hex_digit d \<in> set ''0123456789abcdef''"
  unfolding hex_digit_def by (rule nth_mem) simp

lemma set_hex_string: "set (hex_string n) \<subseteq> set ''0123456789abcdef''"
proof (induction n rule: hex_string.induct)
  case (1 n)
  show ?case
  proof (cases "n < 16")
    case True
    with hex_digit_lt [of n] show ?thesis by (simp add: hex_string.simps [of n])
  next
    case False
    with "1.IH" hex_digit_lt [of "n mod 16"] show ?thesis
      by (simp add: hex_string.simps [of n])
  qed
qed

lemma set_setw0_hex: "set (setw0 w (hex_string n)) \<subseteq> set ''0123456789abcdef''"
  using set_hex_string [of n] by (auto simp: setw0_def split: if_splits)

section \<open>Laws of unordered maps\<close>

lemma um_find_Nil [simp]: "um_find [] k = None"
  by (simp add: um_find_def)

lemma um_inv_Nil [simp]: "um_inv []"
  by (simp add: um_inv_def)

lemma um_find_Some_mem: "um_find m k = Some v \<Longrightarrow> (k, v) \<in> set m"
  by (simp add: um_find_def map_of_SomeD)

lemma um_find_mem: "um_inv m \<Longrightarrow> (k, v) \<in> set m \<longleftrightarrow> um_find m k = Some v"
  by (auto simp: um_find_def um_inv_def map_of_is_SomeI dest: map_of_SomeD)

lemma distinct_fst_sort_key: "distinct (map fst (sort_key f xs)) = distinct (map fst xs)"
proof -
  have "mset (map fst (sort_key f xs)) = mset (map fst xs)" by simp
  then show ?thesis by (rule mset_eq_imp_distinct_iff)
qed

lemma um_inv_assign: "um_inv m \<Longrightarrow> um_inv (um_assign rank k v m)"
  by (auto simp: um_assign_def um_inv_def um_find_def distinct_fst_sort_key distinct_update
      map_of_eq_None_iff)

lemma um_inv_erase: "um_inv m \<Longrightarrow> um_inv (um_erase k m)"
  by (simp add: um_inv_def um_erase_def distinct_delete)

lemma set_um_assign_new: "um_find m k = None \<Longrightarrow> set (um_assign rank k v m) = insert (k, v) (set m)"
  by (auto simp: um_assign_def)

lemma mset_um_assign_new:
  "um_find m k = None \<Longrightarrow> mset (um_assign rank k v m) = add_mset (k, v) (mset m)"
  by (simp add: um_assign_def)

lemma um_find_assign [um_simps]:
  assumes m: "um_inv m"
  shows "um_find (um_assign rank k v m) = (um_find m)(k \<mapsto> v)"
proof (cases "um_find m k")
  case None
  have inv: "um_inv (um_assign rank k v m)" using m by (rule um_inv_assign)
  have "um_find (um_assign rank k v m) j = ((um_find m)(k \<mapsto> v)) j" for j
  proof -
    have "um_find (um_assign rank k v m) j = Some x \<longleftrightarrow> ((um_find m)(k \<mapsto> v)) j = Some x" for x
      using None um_find_mem [OF inv, of j x] um_find_mem [OF m, of j x]
      by (auto simp: set_um_assign_new)
    then show ?thesis by (metis not_None_eq)
  qed
  then show ?thesis by blast
next
  case (Some u)
  then show ?thesis by (simp add: um_assign_def um_find_def fun_eq_iff update_conv)
qed

lemma um_find_assign_same: "um_find (um_assign rank k v m) k \<noteq> None"
proof (cases "um_find m k")
  case None
  have "k \<in> fst ` set (sort_key (\<lambda>e. rank (fst e)) (m @ [(k, v)]))" by simp
  with None show ?thesis
    by (simp only: um_assign_def simp_thms if_True) (simp only: um_find_def map_of_eq_None_iff not_not)
next
  case (Some old)
  then show ?thesis by (simp add: um_assign_def) (simp add: um_find_def update_conv)
qed

lemma um_find_erase [um_simps]: "um_find (um_erase k m) = (um_find m)(k := None)"
  unfolding um_find_def um_erase_def by (simp add: fun_eq_iff delete_conv)

text \<open>Sums over the values, as the running totals of the code keep them.\<close>

lemma sum_um_assign:
  fixes m :: "('k, 'v::ab_group_add) umap"
  assumes "um_inv m"
  shows "sum_list (map snd (um_assign rank k v m)) =
    (case um_find m k of None \<Rightarrow> sum_list (map snd m) | Some old \<Rightarrow> sum_list (map snd m) - old) + v"
proof (cases "um_find m k")
  case None
  have "mset (map snd (um_assign rank k v m)) = mset (map snd (m @ [(k, v)]))"
    using None by (simp add: um_assign_def)
  then have "sum_list (map snd (um_assign rank k v m)) = sum_list (map snd (m @ [(k, v)]))"
    by (metis sum_mset_sum_list)
  with None show ?thesis by simp
next
  case (Some old)
  have "sum_list (map snd (AList.update k v m)) = sum_list (map snd m) - old + v"
    using Some unfolding um_find_def by (induction m) (auto simp: algebra_simps split: if_splits)
  with Some show ?thesis by (simp add: um_assign_def)
qed

lemma sum_um_erase:
  fixes m :: "('k, 'v::ab_group_add) umap"
  assumes "um_inv m" "um_find m k = Some old"
  shows "sum_list (map snd (um_erase k m)) = sum_list (map snd m) - old"
  using assms unfolding um_inv_def um_find_def um_erase_def
proof (induction m)
  case (Cons e m)
  show ?case
  proof (cases "fst e = k")
    case True
    with Cons.prems(1) have "AList.delete k m = m" by (auto intro: delete_idem)
    with True Cons.prems(2) show ?thesis by (cases e) simp
  next
    case False
    with Cons show ?thesis by (cases e) (simp add: algebra_simps)
  qed
qed simp

section \<open>The interface of a byte codec\<close>

text \<open>
  The contract between the writers and the readers of a field: reading at the start of an
  encoding gives the value back and advances past it, and whatever a reader accepts is an
  encoding of what it returns. From it alone: encodings are injective and prefix-free, and a
  reader rejects an encoding that was cut short.
\<close>

locale byte_codec =
  fixes valid :: "'a \<Rightarrow> bool"
    and enc :: "'a \<Rightarrow> bytes"
    and rd :: "bytes \<Rightarrow> nat \<Rightarrow> ('a \<times> nat) option"
  assumes rd_enc: "valid x \<Longrightarrow> rd (pre @ enc x @ post) (length pre) = Some (x, length pre + length (enc x))"
    and rd_sound: "rd buf pos = Some (x, pos') \<Longrightarrow>
      valid x \<and> (\<exists>pre post. buf = pre @ enc x @ post \<and> length pre = pos \<and> pos' = pos + length (enc x))"
begin

lemma rd_enc_at: "valid x \<Longrightarrow> buf = pre @ enc x @ post \<Longrightarrow> length pre = pos \<Longrightarrow>
    rd buf pos = Some (x, pos + length (enc x))"
  using rd_enc by blast

lemma rd_enc_end: "valid x \<Longrightarrow> rd (pre @ enc x) (length pre) = Some (x, length pre + length (enc x))"
  using rd_enc [of x pre "[]"] by simp

lemma rdE:
  assumes "rd buf pos = Some (x, pos')"
  obtains pre post where "valid x" "buf = pre @ enc x @ post" "length pre = pos"
    "pos' = pos + length (enc x)"
  using rd_sound [OF assms] by blast

lemma prefix_free:
  assumes "valid x" "valid y" "enc x @ p = enc y @ q"
  shows "x = y \<and> p = q"
proof -
  have "rd (enc x @ p) 0 = Some (x, length (enc x))"
    using rd_enc [OF assms(1), of "[]" p] by simp
  moreover have "rd (enc y @ q) 0 = Some (y, length (enc y))"
    using rd_enc [OF assms(2), of "[]" q] by simp
  ultimately have "x = y" using assms(3) by simp
  with assms(3) show ?thesis by simp
qed

lemma rd_truncated:
  assumes x: "valid x" and n: "n < length (enc x)"
  shows "rd (pre @ take n (enc x)) (length pre) = None"
proof (rule ccontr)
  assume "rd (pre @ take n (enc x)) (length pre) \<noteq> None"
  then obtain y pos' where "rd (pre @ take n (enc x)) (length pre) = Some (y, pos')" by auto
  then obtain pre' post where y: "valid y" and eq: "pre @ take n (enc x) = pre' @ enc y @ post"
    and len: "length pre' = length pre"
    by (rule rdE)
  from eq len have t: "take n (enc x) = enc y @ post" by simp
  have "enc x @ [] = enc y @ (post @ drop n (enc x))"
    using append_take_drop_id [of n "enc x"] unfolding t by simp
  from prefix_free [OF x y this] have "[] = post @ drop n (enc x)" by blast
  with n show False by simp
qed

end

text \<open>Two fields in a row are again a codec.\<close>

locale codec_pair =
  A: byte_codec va ea ra + B: byte_codec vb eb rb
  for va :: "'a \<Rightarrow> bool" and ea ra and vb :: "'b \<Rightarrow> bool" and eb rb

sublocale codec_pair \<subseteq> pair: byte_codec "seq_valid va vb" "seq_enc ea eb" "seq_rd ra rb"
proof
  fix xy :: "'a \<times> 'b" and pre post :: bytes
  assume v: "seq_valid va vb xy"
  then have x: "va (fst xy)" and y: "vb (snd xy)" by (simp_all add: seq_valid_def)
  have "ra (pre @ ea (fst xy) @ (eb (snd xy) @ post)) (length pre)
      = Some (fst xy, length pre + length (ea (fst xy)))"
    using x by (rule A.rd_enc)
  moreover have "rb ((pre @ ea (fst xy)) @ eb (snd xy) @ post) (length (pre @ ea (fst xy)))
      = Some (snd xy, length (pre @ ea (fst xy)) + length (eb (snd xy)))"
    using y by (rule B.rd_enc)
  ultimately show "seq_rd ra rb (pre @ seq_enc ea eb xy @ post) (length pre)
      = Some (xy, length pre + length (seq_enc ea eb xy))"
    by (simp add: seq_rd_def seq_enc_def)
next
  fix buf :: bytes and pos pos' :: nat and xy :: "'a \<times> 'b"
  assume "seq_rd ra rb buf pos = Some (xy, pos')"
  then obtain p where a: "ra buf pos = Some (fst xy, p)" and b: "rb buf p = Some (snd xy, pos')"
    by (auto simp: seq_rd_def split: option.splits prod.splits)
  from a obtain pre post where x: "va (fst xy)" "buf = pre @ ea (fst xy) @ post" "length pre = pos"
      "p = pos + length (ea (fst xy))"
    by (rule A.rdE)
  from b obtain pre2 post2 where y: "vb (snd xy)" "buf = pre2 @ eb (snd xy) @ post2"
      "length pre2 = p" "pos' = p + length (eb (snd xy))"
    by (rule B.rdE)
  have "pre2 @ eb (snd xy) @ post2 = (pre @ ea (fst xy)) @ post" using x(2) y(2) by simp
  moreover have "length pre2 = length (pre @ ea (fst xy))" using x y by simp
  ultimately have "post = eb (snd xy) @ post2" 
    using append_eq_append_conv [of pre2 "pre @ ea (fst xy)" "eb (snd xy) @ post2" post] by blast
  with x y have "buf = pre @ seq_enc ea eb xy @ post2 \<and> length pre = pos
      \<and> pos' = pos + length (seq_enc ea eb xy)"
    by (simp add: seq_enc_def)
  then show "seq_valid va vb xy \<and> (\<exists>pre post. buf = pre @ seq_enc ea eb xy @ post \<and> length pre = pos
      \<and> pos' = pos + length (seq_enc ea eb xy))"
    using x(1) y(1) by (auto simp: seq_valid_def)
qed

section \<open>Sums of 64-bit values\<close>

lemma unat_u64_less: "unat (a :: u64) < 2 ^ 64"
  using unsigned_less [of a, where 'a = nat] by simp

lemma unat_add_u64:
  fixes a b :: u64
  shows "unat (a + b) = (if unat a + unat b < 2 ^ 64 then unat a + unat b else unat a + unat b - 2 ^ 64)"
proof (cases "unat a + unat b < 2 ^ 64")
  case True
  then show ?thesis by (simp add: unat_word_ariths)
next
  case False
  have "unat a + unat b - 2 ^ 64 < 2 ^ 64" using unat_u64_less [of a] unat_u64_less [of b] by simp
  with False show ?thesis by (simp add: unat_word_ariths le_mod_geq)
qed

section \<open>The interface of a simulation\<close>

text \<open>
  A concrete component implements an abstract one: under its invariant, and where the environment of
  the operation is as \<open>pre\<close> says, each operation returns what the abstract operation returns and
  leaves a state whose abstraction is the abstract result. Whole histories then agree.
\<close>

locale simulation =
  fixes step :: "'op \<Rightarrow> 's \<Rightarrow> 'r \<times> 's"
    and astep :: "'op \<Rightarrow> 'a \<Rightarrow> 'r \<times> 'a"
    and abs :: "'s \<Rightarrow> 'a"
    and inv :: "'s \<Rightarrow> bool"
    and pre :: "'op \<Rightarrow> 's \<Rightarrow> bool"
  assumes sim: "inv s \<Longrightarrow> pre op s \<Longrightarrow> step op s = (r, s') \<Longrightarrow> astep op (abs s) = (r, abs s')"
    and inv_step: "inv s \<Longrightarrow> pre op s \<Longrightarrow> step op s = (r, s') \<Longrightarrow> inv s'"
begin

lemma run_sim:
  assumes "inv s" "run_pre step pre ops s" "run_ops step ops s = (rs, s')"
  shows "inv s' \<and> run_ops astep ops (abs s) = (rs, abs s')"
  using assms
proof (induction ops arbitrary: s rs)
  case Nil
  then show ?case by simp
next
  case (Cons op ops)
  obtain r s1 where one: "step op s = (r, s1)" by force
  obtain rs2 s2 where rest: "run_ops step ops s1 = (rs2, s2)" by force
  have eq: "rs = r # rs2" "s' = s2" using Cons.prems(3) one rest by simp_all
  have "inv s1" "astep op (abs s) = (r, abs s1)"
    using Cons.prems(1,2) one by (auto intro: inv_step sim)
  with Cons.IH [of s1 rs2] Cons.prems(2) one rest eq show ?case by simp
qed

end

section \<open>The interface of a forward simulation\<close>

text \<open>
  Where a component may do one of several things, its steps are a relation, labelled with what an
  observer sees. A relation between concrete and abstract states that every labelled step keeps
  carries whole traces over.
\<close>

inductive steps :: "('s \<Rightarrow> 'e \<Rightarrow> 's \<Rightarrow> bool) \<Rightarrow> 's \<Rightarrow> 'e list \<Rightarrow> 's \<Rightarrow> bool" for step where
  steps_Nil: "steps step s [] s"
| steps_Cons: "step s e s1 \<Longrightarrow> steps step s1 es s2 \<Longrightarrow> steps step s (e # es) s2"

inductive_simps steps_Nil_iff [simp]: "steps step s [] s'"
inductive_simps steps_Cons_iff: "steps step s (e # es) s'"

lemma steps_append: "steps step s (es @ es') s' \<longleftrightarrow> (\<exists>s1. steps step s es s1 \<and> steps step s1 es' s')"
  by (induction es arbitrary: s) (auto simp: steps_Cons_iff)

lemma steps_single [simp]: "steps step s [e] s' \<longleftrightarrow> step s e s'"
  by (simp add: steps_Cons_iff)

locale forward_simulation =
  fixes step :: "'s \<Rightarrow> 'e \<Rightarrow> 's \<Rightarrow> bool"
    and astep :: "'a \<Rightarrow> 'e \<Rightarrow> 'a \<Rightarrow> bool"
    and related :: "'s \<Rightarrow> 'a \<Rightarrow> bool"
  assumes sim_step: "related s a \<Longrightarrow> step s e s' \<Longrightarrow> \<exists>a'. astep a e a' \<and> related s' a'"
begin

lemma steps_sim: "steps step s es s' \<Longrightarrow> related s a \<Longrightarrow> \<exists>a'. steps astep a es a' \<and> related s' a'"
proof (induction arbitrary: a rule: steps.induct)
  case (steps_Cons s e s1 es s2)
  obtain a1 where "astep a e a1" "related s1 a1" using sim_step [OF steps_Cons.prems steps_Cons.hyps(1)] by blast
  moreover from steps_Cons.IH [OF this(2)] obtain a2 where "steps astep a1 es a2" "related s2 a2" by blast
  ultimately show ?case by (blast intro: steps.steps_Cons)
qed (auto intro: steps.steps_Nil)

end

end
