(* ===== verification/DSE_Types.thy ===== *)
theory DSE_Types
  imports DSE_Prelude
begin

text \<open>
  The data of \<open>include/common/types.hpp\<close>: the node registry's entries, replica locations, chunk
  and object descriptors, the load-balancing and acknowledgement policies and the cluster
  configuration with its defaults. A struct is a record with the struct's fields in its order, under
  a prefix per struct (several structs share field names); the in-class initialisers are the
  \<open>_default\<close> values.
\<close>

type_synonym TimestampMs = u64

record NodeInfo =
  ni_id :: string
  ni_address :: string
  ni_online :: bool
  ni_free_bytes :: u64
  ni_total_bytes :: u64
  ni_chunk_count :: u64
  ni_last_heartbeat :: TimestampMs

record ReplicaInfo =
  ri_node_id :: string
  ri_address :: string
  ri_is_primary :: bool
  ri_version :: u32

record ChunkInfo =
  ci_chunk_id :: string
  ci_object_id :: string
  ci_chunk_index :: u32
  ci_size :: u64
  ci_checksum :: string
  ci_version :: u32
  ci_replicas :: "ReplicaInfo list"

record ObjectInfo =
  oi_object_id :: string
  oi_filename :: string
  oi_size :: u64
  oi_replication_factor :: u32
  oi_version :: u32
  oi_checksum :: string
  oi_owner :: string
  oi_created_at :: TimestampMs
  oi_updated_at :: TimestampMs
  oi_chunks :: "ChunkInfo list"

datatype LoadBalanceStrategy = RoundRobin | LeastUsed | Random

datatype WriteAckPolicy = Majority | All

record ClusterConfig =
  cc_replication_factor :: u32
  cc_chunk_size_mb :: u32
  cc_heartbeat_interval_sec :: u32
  cc_heartbeat_timeout_sec :: u32
  cc_load_balance :: LoadBalanceStrategy
  cc_write_ack :: WriteAckPolicy
  cc_metadata_address :: string
  cc_coordinator_address :: string

definition NodeInfo_default :: NodeInfo where
  "NodeInfo_default = \<lparr>ni_id = [], ni_address = [], ni_online = False, ni_free_bytes = 0,
     ni_total_bytes = 0, ni_chunk_count = 0, ni_last_heartbeat = 0\<rparr>"

definition ReplicaInfo_default :: ReplicaInfo where
  "ReplicaInfo_default = \<lparr>ri_node_id = [], ri_address = [], ri_is_primary = False, ri_version = 0\<rparr>"

definition ChunkInfo_default :: ChunkInfo where
  "ChunkInfo_default = \<lparr>ci_chunk_id = [], ci_object_id = [], ci_chunk_index = 0, ci_size = 0,
     ci_checksum = [], ci_version = 0, ci_replicas = []\<rparr>"

definition ObjectInfo_default :: ObjectInfo where
  "ObjectInfo_default = \<lparr>oi_object_id = [], oi_filename = [], oi_size = 0, oi_replication_factor = 3,
     oi_version = 0, oi_checksum = [], oi_owner = [], oi_created_at = 0, oi_updated_at = 0,
     oi_chunks = []\<rparr>"

definition ClusterConfig_default :: ClusterConfig where
  "ClusterConfig_default = \<lparr>cc_replication_factor = 3, cc_chunk_size_mb = 4,
     cc_heartbeat_interval_sec = 5, cc_heartbeat_timeout_sec = 15, cc_load_balance = LeastUsed,
     cc_write_ack = Majority, cc_metadata_address = ''localhost:50051'',
     cc_coordinator_address = ''localhost:50052''\<rparr>"

lemmas default_defs = NodeInfo_default_def ReplicaInfo_default_def ChunkInfo_default_def
  ObjectInfo_default_def ClusterConfig_default_def

end
