(* ===== verification/Checksum.thy ===== *)
theory Checksum
  imports DSE_Prelude
begin

text \<open>
  \<open>src/common/checksum.cpp\<close>: the repository's own SHA-256 (\<open>sha256_impl\<close>), the class \<open>Checksum\<close>
  built on it and \<open>generate_uuid\<close>. The code's loops are kept: the padding loop that pushes zero
  bytes, the block loop over \<open>offset\<close>, the in-place message schedule and the 64 rounds over eight
  variables. The lemmas relate them to the definition of FIPS 180-4 (\<open>spec_\<close>): the number of
  padding zeros in closed form, the message schedule by its recurrence and the rounds by recursion,
  and the rotation by the library's \<open>word_rotr\<close>. The random words \<open>generate_uuid\<close> draws are its
  arguments.
\<close>

section \<open>SHA-256 as the code computes it\<close>

definition k :: "u32 list" where
  "k =
    [0x428a2f98, 0x71374491, 0xb5c0fbcf, 0xe9b5dba5, 0x3956c25b, 0x59f111f1, 0x923f82a4, 0xab1c5ed5] @
    [0xd807aa98, 0x12835b01, 0x243185be, 0x550c7dc3, 0x72be5d74, 0x80deb1fe, 0x9bdc06a7, 0xc19bf174] @
    [0xe49b69c1, 0xefbe4786, 0x0fc19dc6, 0x240ca1cc, 0x2de92c6f, 0x4a7484aa, 0x5cb0a9dc, 0x76f988da] @
    [0x983e5152, 0xa831c66d, 0xb00327c8, 0xbf597fc7, 0xc6e00bf3, 0xd5a79147, 0x06ca6351, 0x14292967] @
    [0x27b70a85, 0x2e1b2138, 0x4d2c6dfc, 0x53380d13, 0x650a7354, 0x766a0abb, 0x81c2c92e, 0x92722c85] @
    [0xa2bfe8a1, 0xa81a664b, 0xc24b8b70, 0xc76c51a3, 0xd192e819, 0xd6990624, 0xf40e3585, 0x106aa070] @
    [0x19a4c116, 0x1e376c08, 0x2748774c, 0x34b0bcb5, 0x391c0cb3, 0x4ed8aa4a, 0x5b9cca4f, 0x682e6ff3] @
    [0x748f82ee, 0x78a5636f, 0x84c87814, 0x8cc70208, 0x90befffa, 0xa4506ceb, 0xbef9a3f7, 0xc67178f2]"

definition rotr :: "u32 \<Rightarrow> nat \<Rightarrow> u32" where
  "rotr x n = drop_bit n x OR push_bit (32 - n) x"

text \<open>The loop \<open>while ((msg.size() % 64) != 56) msg.push_back(0)\<close>; what shrinks is the distance to
  the next position congruent to 56.\<close>

function pad_zeros :: "bytes \<Rightarrow> bytes" where
  "pad_zeros msg = (if length msg mod 64 \<noteq> 56 then pad_zeros (msg @ [0]) else msg)"
  by pat_completeness auto
termination
proof (relation "measure (\<lambda>msg. if length msg mod 64 \<le> 56 then 56 - length msg mod 64
    else 120 - length msg mod 64)")
  fix msg :: bytes
  assume "length msg mod 64 \<noteq> 56"
  then show "(msg @ [0], msg) \<in> measure (\<lambda>msg. if length msg mod 64 \<le> 56
      then 56 - length msg mod 64 else 120 - length msg mod 64)"
    using mod_less_divisor [of 64 "length msg"] by (auto simp: mod_Suc)
qed simp

declare pad_zeros.simps [simp del]

definition pad_message :: "bytes \<Rightarrow> bytes" where
  "pad_message data =
     (let bit_len = word_of_nat (length data * 8) :: u64
      in pad_zeros (data @ [0x80])
         @ be_bytes 8 bit_len)"

definition word_at :: "bytes \<Rightarrow> nat \<Rightarrow> u32" where
  "word_at msg p =
     push_bit 24 (ucast (msg ! p)) OR push_bit 16 (ucast (msg ! (p + 1)))
     OR push_bit 8 (ucast (msg ! (p + 2))) OR ucast (msg ! (p + 3))"

definition schedule_step :: "u32 list \<Rightarrow> nat \<Rightarrow> u32 list" where
  "schedule_step w i =
     (let s0 = rotr (w ! (i - 15)) 7 XOR rotr (w ! (i - 15)) 18 XOR drop_bit 3 (w ! (i - 15));
          s1 = rotr (w ! (i - 2)) 17 XOR rotr (w ! (i - 2)) 19 XOR drop_bit 10 (w ! (i - 2))
      in w @ [w ! (i - 16) + s0 + w ! (i - 7) + s1])"

definition schedule :: "bytes \<Rightarrow> nat \<Rightarrow> u32 list" where
  "schedule msg offset =
     foldl schedule_step (map (\<lambda>i. word_at msg (offset + i * 4)) [0..<16]) [16..<64]"

type_synonym hash_state = "u32 \<times> u32 \<times> u32 \<times> u32 \<times> u32 \<times> u32 \<times> u32 \<times> u32"

fun sha_round :: "u32 list \<Rightarrow> hash_state \<Rightarrow> nat \<Rightarrow> hash_state" where
  "sha_round w (a, b, c, d, e, f, g, hh) i =
     (let S1 = rotr e 6 XOR rotr e 11 XOR rotr e 25;
          ch = (e AND f) XOR (NOT e AND g);
          temp1 = hh + S1 + ch + k ! i + w ! i;
          S0 = rotr a 2 XOR rotr a 13 XOR rotr a 22;
          maj = (a AND b) XOR (a AND c) XOR (b AND c);
          temp2 = S0 + maj
      in (temp1 + temp2, a, b, c, d + temp1, e, f, g))"

fun add_state :: "hash_state \<Rightarrow> hash_state \<Rightarrow> hash_state" where
  "add_state (h0, h1, h2, h3, h4, h5, h6, h7) (a, b, c, d, e, f, g, hh) =
     (h0 + a, h1 + b, h2 + c, h3 + d, h4 + e, h5 + f, h6 + g, h7 + hh)"

definition compress_block :: "bytes \<Rightarrow> nat \<Rightarrow> hash_state \<Rightarrow> hash_state" where
  "compress_block msg offset h =
     (let w = schedule msg offset in add_state h (foldl (sha_round w) h [0..<64]))"

function block_loop :: "bytes \<Rightarrow> nat \<Rightarrow> hash_state \<Rightarrow> hash_state" where
  "block_loop msg offset h =
     (if offset < length msg then block_loop msg (offset + 64) (compress_block msg offset h) else h)"
  by pat_completeness auto
termination
  by (relation "measure (\<lambda>(msg, offset, h). length msg - offset)") auto

declare block_loop.simps [simp del]

definition initial_state :: hash_state where
  "initial_state = (0x6a09e667, 0xbb67ae85, 0x3c6ef372, 0xa54ff53a,
                    0x510e527f, 0x9b05688c, 0x1f83d9ab, 0x5be0cd19)"

fun state_words :: "hash_state \<Rightarrow> u32 list" where
  "state_words (h0, h1, h2, h3, h4, h5, h6, h7) = [h0, h1, h2, h3, h4, h5, h6, h7]"

definition hex_output :: "hash_state \<Rightarrow> string" where
  "hex_output h = concat (map (\<lambda>v. setw0 8 (hex_string (unat v))) (state_words h))"

definition sha256_impl :: "bytes \<Rightarrow> string" where
  "sha256_impl data = hex_output (block_loop (pad_message data) 0 initial_state)"

section \<open>The class Checksum and generate\_uuid\<close>

definition sha256 :: "bytes \<Rightarrow> string" where
  "sha256 data = sha256_impl data"

text \<open>\<open>sha256_file\<close>: the argument is the content of the file, \<open>None\<close> when it cannot be opened.\<close>

definition sha256_file :: "bytes option \<Rightarrow> string" where
  "sha256_file file = (case file of None \<Rightarrow> [] | Some data \<Rightarrow> sha256 data)"

definition verify :: "bytes \<Rightarrow> string \<Rightarrow> bool" where
  "verify data expected \<longleftrightarrow> sha256 data = expected"

definition generate_uuid :: "u64 \<Rightarrow> u64 \<Rightarrow> string" where
  "generate_uuid a b =
     setw0 8 (hex_string (unat (ucast (drop_bit 32 a AND 0xffffffff) :: u32))) @ ''-'' @
     setw0 4 (hex_string (unat (ucast (drop_bit 16 a AND 0xffff) :: u16))) @ ''-'' @
     setw0 4 (hex_string (unat ((ucast (a AND 0xffff) :: u16) AND 0x0fff OR 0x4000))) @ ''-'' @
     setw0 4 (hex_string (unat ((ucast (drop_bit 48 b AND 0xffff) :: u16) AND 0x3fff OR 0x8000)))
       @ ''-'' @
     setw0 12 (hex_string (unat (b AND 0xffffffffffff)))"

section \<open>SHA-256 as FIPS 180-4 defines it\<close>

definition spec_padding :: "bytes \<Rightarrow> bytes" where
  "spec_padding data =
     data @ [0x80] @ replicate ((119 - length data mod 64) mod 64) 0
       @ be_bytes 8 (word_of_nat (8 * length data) :: u64)"

definition spec_word :: "bytes \<Rightarrow> nat \<Rightarrow> nat \<Rightarrow> u32" where
  "spec_word msg i t = word_rcat (take 4 (drop (64 * i + 4 * t) msg))"

definition spec_sigma0 :: "u32 \<Rightarrow> u32" where
  "spec_sigma0 x = word_rotr 7 x XOR word_rotr 18 x XOR drop_bit 3 x"

definition spec_sigma1 :: "u32 \<Rightarrow> u32" where
  "spec_sigma1 x = word_rotr 17 x XOR word_rotr 19 x XOR drop_bit 10 x"

definition spec_Sigma0 :: "u32 \<Rightarrow> u32" where
  "spec_Sigma0 x = word_rotr 2 x XOR word_rotr 13 x XOR word_rotr 22 x"

definition spec_Sigma1 :: "u32 \<Rightarrow> u32" where
  "spec_Sigma1 x = word_rotr 6 x XOR word_rotr 11 x XOR word_rotr 25 x"

fun spec_W :: "(nat \<Rightarrow> u32) \<Rightarrow> nat \<Rightarrow> u32" where
  "spec_W M t =
     (if t < 16 then M t
      else spec_sigma1 (spec_W M (t - 2)) + spec_W M (t - 7)
           + spec_sigma0 (spec_W M (t - 15)) + spec_W M (t - 16))"

declare spec_W.simps [simp del]

fun spec_round :: "u32 \<Rightarrow> hash_state \<Rightarrow> hash_state" where
  "spec_round KW (a, b, c, d, e, f, g, h) =
     (let T1 = h + spec_Sigma1 e + ((e AND f) XOR (NOT e AND g)) + KW;
          T2 = spec_Sigma0 a + ((a AND b) XOR (a AND c) XOR (b AND c))
      in (T1 + T2, a, b, c, d + T1, e, f, g))"

text \<open>The standard's constants: the first 32 bits of the fractional parts of the roots of the first
  primes, cube roots for the round constants and square roots for the initial hash value.\<close>

definition first_primes :: "nat list" where
  "first_primes =
     [2, 3, 5, 7, 11, 13, 17, 19, 23, 29, 31, 37, 41, 43, 47, 53] @
     [59, 61, 67, 71, 73, 79, 83, 89, 97, 101, 103, 107, 109, 113, 127, 131] @
     [137, 139, 149, 151, 157, 163, 167, 173, 179, 181, 191, 193, 197, 199, 211, 223] @
     [227, 229, 233, 239, 241, 251, 257, 263, 269, 271, 277, 281, 283, 293, 307, 311]"

definition frac_root :: "nat \<Rightarrow> nat \<Rightarrow> u32" where
  "frac_root n p = word_of_nat (GREATEST c. c ^ n \<le> p * 2 ^ (32 * n))"

definition spec_initial :: hash_state where
  "spec_initial = (let h = (\<lambda>i. frac_root 2 (first_primes ! i)) in (h 0, h 1, h 2, h 3, h 4, h 5, h 6, h 7))"

fun spec_rounds :: "(nat \<Rightarrow> u32) \<Rightarrow> hash_state \<Rightarrow> nat \<Rightarrow> hash_state" where
  "spec_rounds W H 0 = H"
| "spec_rounds W H (Suc t) = spec_round (frac_root 3 (first_primes ! t) + W t) (spec_rounds W H t)"

fun spec_hash :: "bytes \<Rightarrow> nat \<Rightarrow> hash_state" where
  "spec_hash msg 0 = spec_initial"
| "spec_hash msg (Suc i) =
     (let H = spec_hash msg i in add_state H (spec_rounds (spec_W (spec_word msg i)) H 64))"

definition spec_sha256 :: "bytes \<Rightarrow> hash_state" where
  "spec_sha256 data = (let msg = spec_padding data in spec_hash msg (length msg div 64))"

section \<open>The code against the standard\<close>

lemma frac_root_eq:
  assumes "c ^ n \<le> p * 2 ^ (32 * n)" "p * 2 ^ (32 * n) < Suc c ^ n"
  shows "frac_root n p = word_of_nat c"
proof -
  have "(GREATEST c. c ^ n \<le> p * 2 ^ (32 * n)) = c"
  proof (rule Greatest_equality)
    fix y assume "y ^ n \<le> p * 2 ^ (32 * n)"
    with assms(2) have "y ^ n < Suc c ^ n" by simp
    then have "y < Suc c" by (rule power_less_imp_less_base) simp
    then show "y \<le> c" by simp
  qed (rule assms(1))
  then show ?thesis by (simp add: frac_root_def)
qed

lemma frac_roots:
  assumes "list_all2 (\<lambda>p c. c ^ n \<le> p * 2 ^ (32 * n) \<and> p * 2 ^ (32 * n) < Suc c ^ n) ps cs"
  shows "map (frac_root n) ps = map word_of_nat cs"
  using assms by (induction rule: list_all2_induct) (simp_all add: frac_root_eq)

definition cube_roots :: "nat list" where
  "cube_roots =
     [5411319704, 6194414737, 7344290767, 8215976869, 9551921755, 10098905585, 11043570340, 11460697813] @
     [12214315672, 13195500289, 13492127166, 14311783875, 14809980276, 15046980094, 15499789991, 16133124468] @
     [16720292289, 16907126662, 17444216262, 17784676812, 17950125167, 18429019306, 18734950876, 19175934170] @
     [19734090066, 20001703533, 20132865992, 20390182855, 20516441075, 20764397895, 21588763473, 21813078375] @
     [22141143685, 22248366392, 22769593852, 22871018771, 23170020180, 23461497531, 23651862830, 23931792517] @
     [24205322401, 24295138891, 24734567280, 24820601251, 24990902297, 25075189284, 25569408389, 26045227120] @
     [26200031510, 26276752392, 26428864332, 26653801653, 26727943347, 27092625994, 27306805839, 27517677555] @
     [27725365998, 27793908591, 27997534228, 28131656200, 28198240250, 28526537963, 28973835255, 29099129074]"

lemma round_constants: "map (frac_root 3) first_primes = k"
proof -
  have "list_all2 (\<lambda>p c. c ^ 3 \<le> p * 2 ^ (32 * 3) \<and> p * 2 ^ (32 * 3) < Suc c ^ 3) first_primes cube_roots"
    by (simp add: first_primes_def cube_roots_def power3_eq_cube)
  then have "map (frac_root 3) first_primes = map word_of_nat cube_roots" by (rule frac_roots)
  also have "\<dots> = k" by (simp add: cube_roots_def k_def)
  finally show ?thesis .
qed

lemma length_first_primes: "length first_primes = 64"
  by (simp add: first_primes_def)

lemma round_constant: "t < 64 \<Longrightarrow> k ! t = frac_root 3 (first_primes ! t)"
  using round_constants nth_map [of t first_primes "frac_root 3"] by (simp add: length_first_primes)

lemma initial_constants: "spec_initial = initial_state"
proof -
  have "list_all2 (\<lambda>p c. c ^ 2 \<le> p * 2 ^ (32 * 2) \<and> p * 2 ^ (32 * 2) < Suc c ^ 2) (take 8 first_primes)
     [6074000999, 7439101573, 9603838834, 11363415354, 14244795007, 15485724812, 17708603819, 18721328409]"
    by (simp add: first_primes_def power2_eq_square)
  from frac_roots [OF this] show ?thesis
    by (simp add: spec_initial_def initial_state_def first_primes_def Let_def)
qed

lemma rotr_word_rotr:
  assumes n: "0 < n" "n < 32"
  shows "rotr x n = word_rotr n x"
proof (rule bit_word_eqI)
  fix i assume "i < LENGTH(32)"
  then have i: "i < 32" by simp
  show "bit (rotr x n) i = bit (word_rotr n x) i"
  proof (cases "n + i < 32")
    case True
    then show ?thesis using n i by (auto simp: rotr_def bit_simps add.commute)
  next
    case False
    then have "(i + n) mod 32 = i + n - 32" using n i by (simp add: mod_if)
    moreover have "\<not> bit x (n + i)" using False bit_imp_le_length [of x "n + i"] by auto
    ultimately show ?thesis using False n i by (auto simp: rotr_def bit_simps)
  qed
qed

lemma pad_zeros_eq:
  "pad_zeros msg = msg @ replicate ((120 - length msg mod 64) mod 64) 0"
proof (induction msg rule: pad_zeros.induct)
  case (1 msg)
  show ?case
  proof (cases "length msg mod 64 = 56")
    case True
    then show ?thesis by (simp add: pad_zeros.simps [of msg])
  next
    case False
    define r where "r = length msg mod 64"
    have r: "r < 64" "r \<noteq> 56" using False by (simp_all add: r_def)
    have "(120 - r) mod 64 = Suc ((120 - (if Suc r = 64 then 0 else Suc r)) mod 64)"
    proof (cases "r < 56")
      case True
      then have e: "120 - r = 64 + (56 - r)" "120 - Suc r = 64 + (55 - r)" by simp_all
      have "(120 - r) mod 64 = 56 - r" unfolding e(1) by (simp only: mod_add_self1) simp
      moreover have "(120 - Suc r) mod 64 = 55 - r" unfolding e(2) by (simp only: mod_add_self1) simp
      ultimately show ?thesis using True by (simp add: Suc_diff_le)
    next
      case ge: False
      with r show ?thesis by auto
    qed
    then have "(120 - r) mod 64 = Suc ((120 - Suc (length msg) mod 64) mod 64)"
      by (simp add: mod_Suc r_def)
    then have z: "replicate ((120 - r) mod 64) 0
        = (0 :: u8) # replicate ((120 - Suc (length msg) mod 64) mod 64) 0"
      by simp
    from "1.IH" [OF False] False show ?thesis
      by (simp add: pad_zeros.simps [of msg] z [unfolded r_def])
  qed
qed

lemma pad_message_spec: "pad_message data = spec_padding data"
proof -
  have "(120 - Suc (length data) mod 64) mod 64 = (119 - length data mod 64) mod 64"
  proof (cases "Suc (length data mod 64) = 64")
    case True
    then have "length data mod 64 = 63" by simp
    with True show ?thesis by (simp add: mod_Suc)
  next
    case False
    then show ?thesis by (simp add: mod_Suc)
  qed
  then show ?thesis
    by (simp add: pad_message_def spec_padding_def Let_def pad_zeros_eq mult.commute)
qed

lemma length_spec_padding: "length (spec_padding data) mod 64 = 0"
proof -
  define q r where "q = length data div 64" and "r = length data mod 64"
  have r: "r < 64" and len: "length data = 64 * q + r" by (simp_all add: q_def r_def)
  have "(119 - r) mod 64 = (if r < 56 then 55 - r else 119 - r)"
  proof (cases "r < 56")
    case True
    then have e: "119 - r = 64 + (55 - r)" by simp
    show ?thesis unfolding e by (simp only: mod_add_self1) (simp add: True)
  next
    case False
    with r show ?thesis by simp
  qed
  then have "length (spec_padding data) = 64 * (q + (if r < 56 then 1 else 2))"
    using r by (simp add: spec_padding_def flip: r_def) (simp add: len)
  then show ?thesis by simp
qed

lemma word_at_spec:
  assumes "p + 3 < length msg"
  shows "word_at msg p = word_rcat (take 4 (drop p msg))"
proof -
  have "take 4 (drop p msg) = [msg ! p, msg ! (p + 1), msg ! (p + 2), msg ! (p + 3)]"
    using assms by (intro nth_equalityI) (auto simp: less_Suc_eq numeral_eq_Suc)
  then show ?thesis by (simp only: word_at_def join4)
qed

lemma schedule_step_spec:
  assumes "16 \<le> n"
  shows "schedule_step (map (spec_W M) [0..<n]) n = map (spec_W M) [0..<Suc n]"
proof -
  have "spec_W M n = spec_W M (n - 16) + spec_sigma0 (spec_W M (n - 15)) + spec_W M (n - 7)
      + spec_sigma1 (spec_W M (n - 2))"
    using assms by (subst spec_W.simps) (simp add: ac_simps)
  then show ?thesis
    using assms
    by (simp add: schedule_step_def Let_def rotr_word_rotr spec_sigma0_def spec_sigma1_def)
qed

lemma schedule_loop_spec:
  assumes "16 \<le> n"
  shows "foldl schedule_step (map (spec_W M) [0..<16]) [16..<n] = map (spec_W M) [0..<n]"
  using assms
proof (induction n rule: dec_induct)
  case base
  show ?case by simp
next
  case (step n)
  have "[16..<Suc n] = [16..<n] @ [n]" using step.hyps by (simp only: upt_Suc_append)
  then show ?case
    using step.IH schedule_step_spec [OF step.hyps(1), of M] by (simp only: foldl_append foldl.simps)
qed

lemma schedule_spec:
  assumes "64 * i + 64 \<le> length msg"
  shows "schedule msg (64 * i) = map (spec_W (spec_word msg i)) [0..<64]"
proof -
  have "word_at msg (64 * i + t * 4) = spec_W (spec_word msg i) t" if "t < 16" for t
    using assms that by (simp add: word_at_spec spec_word_def spec_W.simps mult.commute)
  then have "map (\<lambda>t. word_at msg (64 * i + t * 4)) [0..<16] = map (spec_W (spec_word msg i)) [0..<16]"
    by (intro map_cong refl) (simp only: set_upt atLeastLessThan_iff)
  then show ?thesis
    using schedule_loop_spec [of 64 "spec_word msg i"] by (simp only: schedule_def)
qed

lemma sha_round_spec: "sha_round w h t = spec_round (k ! t + w ! t) h"
  by (cases h rule: state_words.cases)
    (simp add: Let_def rotr_word_rotr spec_Sigma0_def spec_Sigma1_def add.assoc)

lemma rounds_spec:
  assumes "\<And>t. t < n \<Longrightarrow> w ! t = W t" "n \<le> 64"
  shows "foldl (sha_round w) h [0..<n] = spec_rounds W h n"
  using assms by (induction n) (simp_all add: sha_round_spec round_constant)

lemma compress_block_spec:
  assumes "64 * i + 64 \<le> length msg"
  shows "compress_block msg (64 * i) h = add_state h (spec_rounds (spec_W (spec_word msg i)) h 64)"
  unfolding compress_block_def Let_def
  by (subst rounds_spec [where W = "spec_W (spec_word msg i)"]) (simp_all add: schedule_spec assms)

lemma block_loop_spec:
  assumes "length msg = 64 * N" "i \<le> N"
  shows "block_loop msg (64 * i) (spec_hash msg i) = spec_hash msg N"
  using assms(2)
proof (induction "N - i" arbitrary: i)
  case 0
  with assms(1) show ?case by (simp add: block_loop.simps)
next
  case (Suc m)
  then have i: "i < N" by simp
  then have "block_loop msg (64 * i) (spec_hash msg i)
      = block_loop msg (64 * Suc i) (compress_block msg (64 * i) (spec_hash msg i))"
    using assms(1) by (subst block_loop.simps) (simp add: add.commute)
  also have "compress_block msg (64 * i) (spec_hash msg i) = spec_hash msg (Suc i)"
    using i assms(1) by (simp add: compress_block_spec Let_def)
  also have "block_loop msg (64 * Suc i) (spec_hash msg (Suc i)) = spec_hash msg N"
    using Suc i by (intro Suc.hyps) auto
  finally show ?case .
qed

section \<open>Shape of the digest and of a UUID\<close>

lemma length_hex_output: "length (hex_output h) = 64"
proof -
  have "length (setw0 8 (hex_string (unat v))) = 8" for v :: u32
    using unsigned_less [of v] by (intro length_setw0_hex) simp_all
  then show ?thesis by (cases h rule: state_words.cases) (simp add: hex_output_def)
qed

lemma set_hex_output: "set (hex_output h) \<subseteq> set ''0123456789abcdef''"
  using set_setw0_hex unfolding hex_output_def by fastforce

lemma length_sha256 [simp]: "length (sha256 data) = 64"
  by (simp add: sha256_def sha256_impl_def length_hex_output)

lemma sha256_not_empty [simp]: "sha256 data \<noteq> []"
  using length_sha256 [of data] by fastforce

lemma verify_iff [simp]: "verify data (sha256 data)"
  by (simp add: verify_def)

lemma length_hex_u16: "length (setw0 4 (hex_string (unat (v :: u16)))) = 4"
  using unsigned_less [of v] by (intro length_setw0_hex) simp_all

lemma length_hex_u32: "length (setw0 8 (hex_string (unat (v :: u32)))) = 8"
  using unsigned_less [of v] by (intro length_setw0_hex) simp_all

lemma length_hex_u48: "length (setw0 12 (hex_string (unat (b AND 0xffffffffffff :: u64)))) = 12"
proof (rule length_setw0_hex)
  have "b AND 0xffffffffffff = take_bit 48 b"
    by (simp add: take_bit_eq_mask mask_eq_exp_minus_1)
  then have "unat (b AND 0xffffffffffff) < 2 ^ 48"
    using take_bit_nat_less_exp [of 48 "unat b"] by (simp add: unsigned_take_bit_eq)
  then show "unat (b AND 0xffffffffffff) < 16 ^ 12" by simp
qed simp

lemma hex_string_4digits:
  assumes "4096 \<le> n" "n < 65536"
  shows "hex_string n = [hex_digit (n div 4096), hex_digit (n div 256 mod 16),
    hex_digit (n div 16 mod 16), hex_digit (n mod 16)]"
proof -
  have "hex_string (n div 4096) = [hex_digit (n div 4096)]"
    using assms by (subst hex_string.simps) auto
  then have "hex_string (n div 256) = [hex_digit (n div 4096), hex_digit (n div 256 mod 16)]"
    using assms by (subst hex_string.simps) (auto simp flip: div_mult2_eq)
  then have "hex_string (n div 16)
      = [hex_digit (n div 4096), hex_digit (n div 256 mod 16), hex_digit (n div 16 mod 16)]"
    using assms by (subst hex_string.simps) (auto simp flip: div_mult2_eq)
  then show ?thesis using assms by (subst hex_string.simps) auto
qed

lemma hd_hex_u16:
  assumes "drop_bit 12 (v :: u16) = d" "d \<noteq> 0"
  shows "setw0 4 (hex_string (unat v)) ! 0 = hex_digit (unat d)"
proof -
  have "unat d = drop_bit 12 (unat v)"
    unfolding assms(1) [symmetric] by (rule unat_drop_bit_eq)
  then have "unat d = unat v div 4096" by (simp add: drop_bit_eq_div)
  moreover have "unat v < 65536" using unsigned_less [of v] by simp
  moreover have "unat d \<noteq> 0" using assms(2) by (simp add: unat_eq_0)
  ultimately show ?thesis
    by (auto simp: hex_string_4digits setw0_def div_eq_0_iff)
qed

lemma and_3_cases: "w AND 3 \<in> {0, 1, 2, 3 :: u16}"
proof -
  have "unat (w AND 3) \<le> unat (3 :: u16)"
    using word_and_le1 [of w 3] by (simp only: word_le_nat_alt)
  then have "unat (w AND 3) \<in> {0, 1, 2, 3}" by auto
  then show ?thesis by (auto simp: word_unat_eq_iff)
qed

lemma dashed_fields:
  assumes "length p = 8" "length q = 4" "length r = 4" "length s = 4" "length t = 12"
    and "x = p @ ''-'' @ q @ ''-'' @ r @ ''-'' @ s @ ''-'' @ t"
  shows "length x = 36" "x ! 8 = CHR ''-''" "x ! 13 = CHR ''-''" "x ! 18 = CHR ''-''"
    "x ! 23 = CHR ''-''" "x ! 14 = r ! 0" "x ! 19 = s ! 0"
  using assms by (simp_all add: nth_append)

lemma length_generate_uuid: "length (generate_uuid a b) = 36"
  by (rule dashed_fields(1) [OF length_hex_u32 length_hex_u16 length_hex_u16 length_hex_u16
      length_hex_u48 generate_uuid_def])

section \<open>Properties\<close>

text \<open>C12. The repository's SHA-256 computes, on every input, the digest FIPS 180-4 defines: the
  padding loop, the in-place schedule, the eight-variable round loop and the offset loop agree with
  the standard's closed-form padding, recurrence, rounds and block iteration, and the tables of
  constants are the roots of primes the standard defines them by.\<close>

theorem sha256_is_fips180_4: "sha256 data = hex_output (spec_sha256 data)"
proof -
  let ?msg = "spec_padding data"
  have "length ?msg = 64 * (length ?msg div 64)"
    using length_spec_padding [of data] by auto
  then have "block_loop ?msg 0 initial_state = spec_hash ?msg (length ?msg div 64)"
    using block_loop_spec [of ?msg "length ?msg div 64" 0] by (simp add: initial_constants)
  then show ?thesis
    by (simp add: sha256_def sha256_impl_def spec_sha256_def Let_def pad_message_spec)
qed

text \<open>A generated UUID has 36 characters, dashes at positions 8, 13, 18 and 23, the version digit
  4 and a variant digit of 8, 9, a or b, whatever the two random words are.\<close>

theorem generate_uuid_format:
  "length (generate_uuid a b) = 36
   \<and> generate_uuid a b ! 8 = CHR ''-'' \<and> generate_uuid a b ! 13 = CHR ''-''
   \<and> generate_uuid a b ! 18 = CHR ''-'' \<and> generate_uuid a b ! 23 = CHR ''-''
   \<and> generate_uuid a b ! 14 = CHR ''4'' \<and> generate_uuid a b ! 19 \<in> set ''89ab''"
proof -
  define v where "v = (ucast (a AND 0xffff) :: u16) AND 0x0fff OR 0x4000"
  define z where "z = (ucast (drop_bit 48 b AND 0xffff) :: u16)"
  define y where "y = z AND 0x3fff OR 0x8000"
  have "drop_bit 12 v = 4" by (simp add: v_def)
  then have v: "setw0 4 (hex_string (unat v)) ! 0 = CHR ''4''"
    by (subst hd_hex_u16 [where d = 4]) (simp_all add: hex_digit_def)
  have "drop_bit 12 y = (drop_bit 12 z AND 3) OR 8" by (simp add: y_def)
  moreover have "drop_bit 12 z AND 3 \<in> {0, 1, 2, 3}" by (rule and_3_cases)
  ultimately have "drop_bit 12 y \<in> {8, 9, 10, 11}" by auto
  then have y: "setw0 4 (hex_string (unat y)) ! 0 \<in> set ''89ab''"
    by (auto simp: hex_digit_def hd_hex_u16)
  note d = dashed_fields [OF length_hex_u32 length_hex_u16 length_hex_u16 length_hex_u16
      length_hex_u48 generate_uuid_def, of a b]
  show ?thesis
    using d v y unfolding v_def y_def z_def by simp
qed

end
