(* ===== verification/Metadata_Store.thy ===== *)
theory Metadata_Store
  imports DSE_Types Checksum "HOL-Library.Monad_Syntax" "HOL-Library.List_Lexorder"
    "HOL-Library.Char_ord"
begin

text \<open>
  \<open>src/metadata/metadata_store.cpp\<close>: the namespace (objects by id, file names to ids), the registry of
  storage nodes, the leader and the JSON snapshot. Every operation runs under the store's
  readers-writer lock, so a history is a sequence of operations.

  The environment of a call supplies the random words of each generated id, the time, the iteration
  order after an insertion (also the order \<open>std::shuffle\<close> and \<open>std::sort\<close> give to equal elements), and
  what the file system does with the snapshot. The planning loop is a partial function: a call that
  does not return is \<open>None\<close>.
\<close>

section \<open>Definitions\<close>

record metadata_store =
  ms_persist_path :: string
  ms_objects_by_id :: "(string, ObjectInfo) umap"
  ms_filename_to_id :: "string \<Rightarrow> string option"
  ms_nodes :: "(string, NodeInfo) umap"
  ms_leader_id :: string
  ms_generation :: u64
  ms_round_robin_index :: u64
  ms_snapshot :: "string option"
  ms_snapshot_tmp :: "string option"

record call_env =
  ev_draws :: "nat \<Rightarrow> u64 \<times> u64"
  ev_now :: u64
  ev_rank :: "string \<Rightarrow> nat"
  ev_open_ok :: bool
  ev_flushed :: nat
  ev_rename_ok :: bool

text \<open>The \<open>i\<close>-th id drawn in a call.\<close>

definition env_uuid :: "call_env \<Rightarrow> nat \<Rightarrow> string" where
  "env_uuid ev i = (case ev_draws ev i of (a, b) \<Rightarrow> generate_uuid a b)"

definition plan_chunk :: "string \<Rightarrow> string \<Rightarrow> u32 \<Rightarrow> u64 \<Rightarrow> ChunkInfo" where
  "plan_chunk chunk_id object_id index sz = ChunkInfo_default\<lparr>ci_chunk_id := chunk_id,
     ci_object_id := object_id, ci_chunk_index := index, ci_size := sz, ci_version := 1\<rparr>"

text \<open>The loop \<open>while (remaining > 0)\<close>; \<open>i\<close> counts the ids drawn, the loop's own \<open>index\<close> is a 32-bit
  counter.\<close>

partial_function (option) plan_loop ::
  "(nat \<Rightarrow> string) \<Rightarrow> string \<Rightarrow> u32 \<Rightarrow> nat \<Rightarrow> u32 \<Rightarrow> u64 \<Rightarrow> ChunkInfo list option" where
  "plan_loop uuid object_id chunk_size_bytes i index remaining =
     (if remaining = 0 then Some []
      else let sz = min remaining (ucast chunk_size_bytes) in
        do {
          cs \<leftarrow> plan_loop uuid object_id chunk_size_bytes (i + 1) (index + 1) (remaining - sz);
          Some (plan_chunk (uuid i) object_id index sz # cs)
        })"

definition plan_chunks :: "(nat \<Rightarrow> string) \<Rightarrow> string \<Rightarrow> u64 \<Rightarrow> u32 \<Rightarrow> ChunkInfo list option" where
  "plan_chunks uuid object_id sz chunk_size_bytes =
     (if sz = 0 then Some [plan_chunk (uuid 0) object_id 0 0]
      else plan_loop uuid object_id chunk_size_bytes 0 0 sz)"

text \<open>\<open>persist\<close> and the text it writes.\<close>

definition nl :: string where
  "nl = [CHR 0x0A]"

definition quoted :: "string \<Rightarrow> string" where
  "quoted s = [CHR 0x22] @ s @ [CHR 0x22]"

definition json_field :: "string \<Rightarrow> string \<Rightarrow> string" where
  "json_field name val = quoted name @ '':'' @ val"

definition json_u64 :: "'a::len word \<Rightarrow> string" where
  "json_u64 w = dec_string (unat w)"

definition json_object :: "ObjectInfo \<Rightarrow> string" where
  "json_object obj = ''    {'' @ json_field ''object_id'' (quoted (oi_object_id obj))
     @ '','' @ json_field ''filename'' (quoted (oi_filename obj))
     @ '','' @ json_field ''size'' (json_u64 (oi_size obj))
     @ '','' @ json_field ''replication_factor'' (json_u64 (oi_replication_factor obj))
     @ '','' @ json_field ''version'' (json_u64 (oi_version obj))
     @ '','' @ json_field ''owner'' (quoted (oi_owner obj))
     @ '','' @ json_field ''created_at'' (json_u64 (oi_created_at obj))
     @ '','' @ json_field ''updated_at'' (json_u64 (oi_updated_at obj))
     @ '','' @ json_field ''chunk_count'' (dec_string (length (oi_chunks obj))) @ ''}''"

definition json_node :: "NodeInfo \<Rightarrow> string" where
  "json_node n = ''    {'' @ json_field ''id'' (quoted (ni_id n))
     @ '','' @ json_field ''address'' (quoted (ni_address n))
     @ '','' @ json_field ''online'' (if ni_online n then ''true'' else ''false'')
     @ '','' @ json_field ''free_bytes'' (json_u64 (ni_free_bytes n))
     @ '','' @ json_field ''total_bytes'' (json_u64 (ni_total_bytes n))
     @ '','' @ json_field ''chunk_count'' (json_u64 (ni_chunk_count n)) @ ''}''"

fun separated :: "string \<Rightarrow> string list \<Rightarrow> string" where
  "separated sep [] = []"
| "separated sep [x] = x"
| "separated sep (x # xs) = x @ sep @ separated sep xs"

definition snapshot_text :: "metadata_store \<Rightarrow> string" where
  "snapshot_text s = ''{'' @ nl
     @ ''  '' @ quoted ''leader_id'' @ '': '' @ quoted (ms_leader_id s) @ '','' @ nl
     @ ''  '' @ quoted ''generation'' @ '': '' @ json_u64 (ms_generation s) @ '','' @ nl
     @ ''  '' @ quoted ''objects'' @ '': ['' @ nl
     @ separated ('','' @ nl) (map (\<lambda>(_, obj). json_object obj) (ms_objects_by_id s))
     @ nl @ ''  ],'' @ nl @ ''  '' @ quoted ''nodes'' @ '': ['' @ nl
     @ separated ('','' @ nl) (map (\<lambda>(_, n). json_node n) (ms_nodes s))
     @ nl @ ''  ]'' @ nl @ ''}'' @ nl"

definition persist :: "call_env \<Rightarrow> metadata_store \<Rightarrow> bool \<times> metadata_store" where
  "persist ev s =
     (if \<not> ev_open_ok ev then (False, s)
      else let written = take (ev_flushed ev) (snapshot_text s) in
      if ev_rename_ok ev
      then (True, s\<lparr>ms_snapshot := Some written, ms_snapshot_tmp := None\<rparr>)
      else (False, s\<lparr>ms_snapshot_tmp := Some written\<rparr>))"

definition load :: "bool \<Rightarrow> metadata_store \<Rightarrow> bool \<times> metadata_store" where
  "load readable s = (readable \<and> ms_snapshot s \<noteq> None, s)"

definition MetadataStore :: "string \<Rightarrow> bool \<Rightarrow> string option \<Rightarrow> metadata_store" where
  "MetadataStore path readable snapshot =
     snd (load readable \<lparr>ms_persist_path = path, ms_objects_by_id = [], ms_filename_to_id = Map.empty,
       ms_nodes = [], ms_leader_id = [], ms_generation = 0, ms_round_robin_index = 0,
       ms_snapshot = snapshot, ms_snapshot_tmp = None\<rparr>)"

text \<open>The namespace. Ids are drawn in the order the code draws them: the object's, then its chunks'.\<close>

definition create_object ::
  "call_env \<Rightarrow> string \<Rightarrow> u64 \<Rightarrow> u32 \<Rightarrow> string \<Rightarrow> u32 \<Rightarrow> metadata_store
   \<Rightarrow> (ObjectInfo option \<times> metadata_store) option" where
  "create_object ev filename sz replication_factor owner chunk_size_bytes s =
     (if ms_filename_to_id s filename \<noteq> None then Some (None, s)
      else let object_id = env_uuid ev 0 in
        do {
          chunks \<leftarrow> plan_chunks (\<lambda>i. env_uuid ev (i + 1)) object_id sz chunk_size_bytes;
          let obj = ObjectInfo_default\<lparr>oi_object_id := object_id, oi_filename := filename,
                oi_size := sz, oi_replication_factor := replication_factor, oi_version := 1,
                oi_owner := owner, oi_created_at := ev_now ev, oi_updated_at := ev_now ev,
                oi_chunks := chunks\<rparr>;
              s1 = s\<lparr>ms_objects_by_id := um_assign (ev_rank ev) object_id obj (ms_objects_by_id s),
                     ms_filename_to_id := (ms_filename_to_id s)(filename \<mapsto> object_id)\<rparr>
          in Some (Some obj, snd (persist ev s1))
        })"

definition delete_object :: "call_env \<Rightarrow> string \<Rightarrow> metadata_store \<Rightarrow> bool \<times> metadata_store" where
  "delete_object ev object_id s =
     (case um_find (ms_objects_by_id s) object_id of
        None \<Rightarrow> (False, s)
      | Some obj \<Rightarrow>
          let s1 = s\<lparr>ms_filename_to_id := (ms_filename_to_id s)(oi_filename obj := None),
                     ms_objects_by_id := um_erase object_id (ms_objects_by_id s)\<rparr>
          in (True, snd (persist ev s1)))"

definition delete_object_by_filename :: "call_env \<Rightarrow> string \<Rightarrow> metadata_store \<Rightarrow> bool \<times> metadata_store" where
  "delete_object_by_filename ev filename s =
     (case ms_filename_to_id s filename of
        None \<Rightarrow> (False, s)
      | Some object_id \<Rightarrow> delete_object ev object_id s)"

definition locate_by_id :: "string \<Rightarrow> metadata_store \<Rightarrow> ObjectInfo option" where
  "locate_by_id object_id s = um_find (ms_objects_by_id s) object_id"

definition locate_by_filename :: "string \<Rightarrow> metadata_store \<Rightarrow> ObjectInfo option" where
  "locate_by_filename filename s =
     (case ms_filename_to_id s filename of
        None \<Rightarrow> None
      | Some object_id \<Rightarrow> um_find (ms_objects_by_id s) object_id)"

text \<open>\<open>find(prefix) == 0\<close>: the first occurrence is at the front. The sort compares file names as
  sequences of unsigned characters.\<close>

definition list_objects :: "string \<Rightarrow> u32 \<Rightarrow> u32 \<Rightarrow> metadata_store \<Rightarrow> ObjectInfo list" where
  "list_objects prefix limit offset s =
     (let result = sort_key oi_filename
            (filter (\<lambda>obj. prefix = [] \<or> take (length prefix) (oi_filename obj) = prefix)
               (map snd (ms_objects_by_id s)))
      in if unat offset \<ge> length result then []
         else let e = min (length result) (unat offset + unat limit)
              in take (e - unat offset) (drop (unat offset) result))"

fun replace_chunk :: "ChunkInfo \<Rightarrow> ChunkInfo list \<Rightarrow> ChunkInfo list option" where
  "replace_chunk chunk [] = None"
| "replace_chunk chunk (c # cs) =
     (if ci_chunk_id c = ci_chunk_id chunk then Some (chunk # cs)
      else map_option (\<lambda>cs. c # cs) (replace_chunk chunk cs))"

definition update_chunk :: "call_env \<Rightarrow> string \<Rightarrow> ChunkInfo \<Rightarrow> metadata_store \<Rightarrow> bool \<times> metadata_store" where
  "update_chunk ev object_id chunk s =
     (case um_find (ms_objects_by_id s) object_id of
        None \<Rightarrow> (False, s)
      | Some obj \<Rightarrow>
          (case replace_chunk chunk (oi_chunks obj) of
             None \<Rightarrow> (False, s)
           | Some chunks \<Rightarrow>
               let obj1 = obj\<lparr>oi_chunks := chunks, oi_updated_at := ev_now ev\<rparr>;
                   s1 = s\<lparr>ms_objects_by_id :=
                            um_assign (ev_rank ev) object_id obj1 (ms_objects_by_id s)\<rparr>
               in (True, snd (persist ev s1))))"

text \<open>The node registry.\<close>

definition register_node :: "call_env \<Rightarrow> NodeInfo \<Rightarrow> metadata_store \<Rightarrow> bool \<times> metadata_store" where
  "register_node ev node s =
     (let n = node\<lparr>ni_online := True, ni_last_heartbeat := ev_now ev\<rparr>;
          s1 = s\<lparr>ms_nodes := um_assign (ev_rank ev) (ni_id node) n (ms_nodes s)\<rparr>
      in (True, snd (persist ev s1)))"

definition update_node_heartbeat ::
  "call_env \<Rightarrow> string \<Rightarrow> u64 \<Rightarrow> u64 \<Rightarrow> metadata_store \<Rightarrow> bool \<times> metadata_store" where
  "update_node_heartbeat ev node_id free_bytes chunk_count s =
     (case um_find (ms_nodes s) node_id of
        None \<Rightarrow> (False, s)
      | Some n \<Rightarrow>
          let n1 = n\<lparr>ni_online := True, ni_free_bytes := free_bytes, ni_chunk_count := chunk_count,
                     ni_last_heartbeat := ev_now ev\<rparr>
          in (True, s\<lparr>ms_nodes := um_assign (ev_rank ev) node_id n1 (ms_nodes s)\<rparr>))"

definition mark_node_offline :: "call_env \<Rightarrow> string \<Rightarrow> metadata_store \<Rightarrow> bool \<times> metadata_store" where
  "mark_node_offline ev node_id s =
     (case um_find (ms_nodes s) node_id of
        None \<Rightarrow> (False, s)
      | Some n \<Rightarrow>
          let s1 = s\<lparr>ms_nodes := um_assign (ev_rank ev) node_id (n\<lparr>ni_online := False\<rparr>) (ms_nodes s)\<rparr>
          in (True, snd (persist ev s1)))"

definition get_nodes :: "metadata_store \<Rightarrow> NodeInfo list" where
  "get_nodes s = map snd (ms_nodes s)"

definition get_node :: "string \<Rightarrow> metadata_store \<Rightarrow> NodeInfo option" where
  "get_node node_id s = um_find (ms_nodes s) node_id"

definition replica_live :: "metadata_store \<Rightarrow> ReplicaInfo \<Rightarrow> bool" where
  "replica_live s r = (case um_find (ms_nodes s) (ri_node_id r) of None \<Rightarrow> False | Some n \<Rightarrow> ni_online n)"

definition live_replicas :: "metadata_store \<Rightarrow> ChunkInfo \<Rightarrow> nat" where
  "live_replicas s chunk = length (filter (replica_live s) (ci_replicas chunk))"

definition get_under_replicated_chunks :: "u32 \<Rightarrow> metadata_store \<Rightarrow> ChunkInfo list" where
  "get_under_replicated_chunks replication_factor s =
     concat (map (\<lambda>(_, obj). filter (\<lambda>chunk. live_replicas s chunk < unat replication_factor) (oi_chunks obj))
       (ms_objects_by_id s))"

fun round_robin :: "nat \<Rightarrow> NodeInfo list \<Rightarrow> u64 \<Rightarrow> NodeInfo list \<times> u64" where
  "round_robin 0 online idx = ([], idx)"
| "round_robin (Suc n) online idx =
     (let sel = online ! (unat idx mod length online);
          (rest, idx') = round_robin n online (idx + 1) in (sel # rest, idx'))"

definition select_nodes ::
  "call_env \<Rightarrow> u32 \<Rightarrow> LoadBalanceStrategy \<Rightarrow> metadata_store \<Rightarrow> NodeInfo list \<times> metadata_store" where
  "select_nodes ev cnt strategy s =
     (let online = filter ni_online (map snd (ms_nodes s));
          by_rank = sort_key (\<lambda>n. ev_rank ev (ni_id n)) online
      in if online = [] then ([], s)
         else case strategy of
           RoundRobin \<Rightarrow> (let (sel, idx) = round_robin (unat cnt) online (ms_round_robin_index s)
                          in (sel, s\<lparr>ms_round_robin_index := idx\<rparr>))
         | LeastUsed \<Rightarrow> (take (unat cnt) (sort_key ni_chunk_count by_rank), s)
         | Random \<Rightarrow> (take (unat cnt) by_rank, s))"

definition set_leader :: "call_env \<Rightarrow> string \<Rightarrow> u64 \<Rightarrow> metadata_store \<Rightarrow> metadata_store" where
  "set_leader ev leader_id generation s =
     snd (persist ev (s\<lparr>ms_leader_id := leader_id, ms_generation := generation\<rparr>))"

definition leader_id :: "metadata_store \<Rightarrow> string" where
  "leader_id s = ms_leader_id s"

definition generation :: "metadata_store \<Rightarrow> u64" where
  "generation s = ms_generation s"

section \<open>Planning chunks\<close>

text \<open>The plan in closed form: chunk \<open>j\<close> covers the bytes from \<open>j * chunk_size\<close> on.\<close>

definition chunk_total :: "nat \<Rightarrow> nat \<Rightarrow> nat" where
  "chunk_total n chunk_size = (n + chunk_size - 1) div chunk_size"

definition planned_size :: "nat \<Rightarrow> nat \<Rightarrow> nat \<Rightarrow> nat" where
  "planned_size n chunk_size j = min chunk_size (n - j * chunk_size)"

definition spec_plan :: "(nat \<Rightarrow> string) \<Rightarrow> string \<Rightarrow> u64 \<Rightarrow> u32 \<Rightarrow> ChunkInfo list" where
  "spec_plan uuid object_id sz chunk_size_bytes =
     map (\<lambda>j. plan_chunk (uuid j) object_id (word_of_nat j)
            (word_of_nat (planned_size (unat sz) (unat chunk_size_bytes) j)))
       [0..<max 1 (chunk_total (unat sz) (unat chunk_size_bytes))]"

lemma chunk_total_step:
  assumes "0 < cs" "0 < n"
  shows "chunk_total n cs = Suc (chunk_total (n - min n cs) cs)"
proof -
  have "n + cs - 1 = (n - 1) + cs" using assms by simp
  then have "chunk_total n cs = Suc ((n - 1) div cs)"
    using assms unfolding chunk_total_def by (simp only: div_add_self2)
  also have "(n - 1) div cs = (n - min n cs + cs - 1) div cs"
    using assms by (cases "n \<le> cs") (auto simp: min_def)
  finally show ?thesis by (simp add: chunk_total_def)
qed

lemma planned_size_step:
  "planned_size n cs (Suc j) = planned_size (n - min n cs) cs j"
  by (simp add: planned_size_def min_def algebra_simps)

lemma sum_planned_size:
  assumes "0 < cs"
  shows "sum_list (map (planned_size n cs) [0..<chunk_total n cs]) = n"
proof (induction n rule: less_induct)
  case (less n)
  show ?case
  proof (cases "n = 0")
    case True
    then show ?thesis using assms by (simp add: chunk_total_def)
  next
    case False
    then have tot: "chunk_total n cs = Suc (chunk_total (n - min n cs) cs)"
      using assms by (simp add: chunk_total_step)
    have "sum_list (map (planned_size n cs) [0..<chunk_total n cs])
        = planned_size n cs 0 + sum_list (map (planned_size (n - min n cs) cs) [0..<chunk_total (n - min n cs) cs])"
      unfolding tot map_upt_Suc by (simp add: planned_size_step)
    also have "\<dots> = planned_size n cs 0 + (n - min n cs)" using less [of "n - min n cs"] False assms by simp
    also have "\<dots> = n" by (simp add: planned_size_def)
    finally show ?thesis .
  qed
qed

lemma word_nat_id: "word_of_nat (unat w) = (w :: 'a::len word)"
  by simp

lemma plan_loop_closed_form:
  assumes "chunk_size_bytes \<noteq> 0"
  shows "plan_loop uuid object_id chunk_size_bytes i index remaining =
    Some (map (\<lambda>j. plan_chunk (uuid (i + j)) object_id (index + word_of_nat j)
        (word_of_nat (planned_size (unat remaining) (unat chunk_size_bytes) j)))
      [0..<chunk_total (unat remaining) (unat chunk_size_bytes)])"
proof (induction "unat remaining" arbitrary: remaining i index rule: less_induct)
  case less
  let ?cs = "unat chunk_size_bytes"
  have cs: "0 < ?cs" using assms by (simp add: unat_gt_0)
  have ucs: "unat (ucast chunk_size_bytes :: u64) = ?cs"
    by (simp add: unsigned_ucast_eq) (rule take_bit_nat_eq_self, use unsigned_less [of chunk_size_bytes, where 'a = nat] in simp)
  show ?case
  proof (cases "remaining = 0")
    case True
    then show ?thesis using cs by (subst plan_loop.simps) (simp add: chunk_total_def)
  next
    case False
    let ?size = "min remaining (ucast chunk_size_bytes :: u64)"
    have size: "unat ?size = min (unat remaining) ?cs" by (simp add: min_def word_le_nat_alt ucs)
    have rem: "unat (remaining - ?size) = unat remaining - min (unat remaining) ?cs"
      using size by (simp add: unat_sub word_le_nat_alt)
    have "0 < unat remaining" using False by (simp add: unat_gt_0)
    then have "unat (remaining - ?size) < unat remaining" using rem cs by simp
    from less [OF this, of "i + 1" "index + 1"] False
    have "plan_loop uuid object_id chunk_size_bytes i index remaining =
        Some (plan_chunk (uuid i) object_id index ?size #
          map (\<lambda>j. plan_chunk (uuid (i + Suc j)) object_id (index + word_of_nat (Suc j))
              (word_of_nat (planned_size (unat remaining) ?cs (Suc j))))
            [0..<chunk_total (unat remaining - min (unat remaining) ?cs) ?cs])"
      by (subst plan_loop.simps) (simp add: Let_def rem planned_size_step add.assoc)
    moreover have "word_of_nat (planned_size (unat remaining) ?cs 0) = ?size"
      using size by (metis planned_size_def mult_0 diff_zero min.commute word_nat_id)
    ultimately show ?thesis
      unfolding chunk_total_step [OF cs \<open>0 < unat remaining\<close>] map_upt_Suc by simp
  qed
qed

lemma plan_chunks_spec_plan:
  assumes "sz = 0 \<or> chunk_size_bytes \<noteq> 0"
  shows "plan_chunks uuid object_id sz chunk_size_bytes = Some (spec_plan uuid object_id sz chunk_size_bytes)"
proof (cases "sz = 0")
  case True
  then have "chunk_total (unat sz) (unat chunk_size_bytes) = 0"
    by (cases "unat chunk_size_bytes") (simp_all add: chunk_total_def)
  with True show ?thesis by (simp add: plan_chunks_def spec_plan_def planned_size_def)
next
  case False
  with assms have "0 < unat chunk_size_bytes" "0 < unat sz" by (simp_all add: unat_gt_0)
  from chunk_total_step [OF this] False assms show ?thesis
    by (simp add: plan_chunks_def spec_plan_def plan_loop_closed_form)
qed

lemma sum_spec_plan:
  assumes "sz = 0 \<or> chunk_size \<noteq> 0"
  shows "sum_list (map (\<lambda>c. unat (ci_size c)) (spec_plan uuid object_id sz chunk_size)) = unat sz"
proof -
  let ?cs = "unat chunk_size" and ?n = "unat sz"
  have small: "unat (word_of_nat (planned_size ?n ?cs j) :: u64) = planned_size ?n ?cs j" for j
    using unat_u64_less [of sz] by (simp add: unsigned_of_nat take_bit_nat_eq_self planned_size_def)
  have "sum_list (map (planned_size ?n ?cs) [0..<max 1 (chunk_total ?n ?cs)]) = ?n"
  proof (cases "sz = 0")
    case True
    then have "chunk_total ?n ?cs = 0" by (cases ?cs) (simp_all add: chunk_total_def)
    with True show ?thesis by (simp add: planned_size_def)
  next
    case False
    with assms have "0 < ?cs" "0 < ?n" by (simp_all add: unat_gt_0)
    with chunk_total_step [OF this] sum_planned_size [of ?cs ?n] show ?thesis by simp
  qed
  then show ?thesis
    using small by (simp add: spec_plan_def plan_chunk_def comp_def)
qed

lemma plan_loop_no_progress:
  assumes "plan_loop uuid object_id cs i index remaining = Some r"
  shows "cs = 0 \<longrightarrow> remaining = 0"
  using assms by (rule plan_loop.raw_induct [where P = "\<lambda>_ _ cs _ _ remaining _. cs = 0 \<longrightarrow> remaining = 0", rotated])
    (auto simp: Let_def split: if_splits bind_splits)

lemma plan_chunks_zero: "plan_chunks uuid object_id sz 0 = None \<longleftrightarrow> sz \<noteq> 0"
proof (cases "plan_loop uuid object_id 0 0 0 sz")
  case (Some r)
  with plan_loop_no_progress [OF Some] show ?thesis by (simp add: plan_chunks_def)
qed (auto simp: plan_chunks_def)

section \<open>The namespace and the registry as maps\<close>

text \<open>The specification: objects by file name, nodes by id, and the leader with its generation.\<close>

record ms_spec =
  sp_names :: "string \<Rightarrow> ObjectInfo option"
  sp_nodes :: "string \<Rightarrow> NodeInfo option"
  sp_leader :: "string \<times> u64"

datatype ms_op =
    MsCreate call_env string u64 u32 string u32
  | MsDelete call_env string
  | MsDeleteByName call_env string
  | MsUpdateChunk call_env string ChunkInfo
  | MsRegister call_env NodeInfo
  | MsHeartbeat call_env string u64 u64
  | MsMarkOffline call_env string
  | MsSetLeader call_env string u64

datatype ms_result = MsHangs | MsObject "ObjectInfo option" | MsBool bool | MsVoid

fun ms_step :: "ms_op \<Rightarrow> metadata_store \<Rightarrow> ms_result \<times> metadata_store" where
  "ms_step (MsCreate ev filename sz rf owner chunk_size) s =
     (case create_object ev filename sz rf owner chunk_size s of
        None \<Rightarrow> (MsHangs, s) | Some (r, s') \<Rightarrow> (MsObject r, s'))"
| "ms_step (MsDelete ev object_id) s = map_prod MsBool id (delete_object ev object_id s)"
| "ms_step (MsDeleteByName ev filename) s = map_prod MsBool id (delete_object_by_filename ev filename s)"
| "ms_step (MsUpdateChunk ev object_id chunk) s = map_prod MsBool id (update_chunk ev object_id chunk s)"
| "ms_step (MsRegister ev node) s = map_prod MsBool id (register_node ev node s)"
| "ms_step (MsHeartbeat ev node_id free cnt) s = map_prod MsBool id (update_node_heartbeat ev node_id free cnt s)"
| "ms_step (MsMarkOffline ev node_id) s = map_prod MsBool id (mark_node_offline ev node_id s)"
| "ms_step (MsSetLeader ev leader gen) s = (MsVoid, set_leader ev leader gen s)"

definition new_object :: "call_env \<Rightarrow> string \<Rightarrow> u64 \<Rightarrow> u32 \<Rightarrow> string \<Rightarrow> u32 \<Rightarrow> ObjectInfo" where
  "new_object ev filename sz rf owner chunk_size =
     \<lparr>oi_object_id = env_uuid ev 0, oi_filename = filename, oi_size = sz, oi_replication_factor = rf,
      oi_version = 1, oi_checksum = [], oi_owner = owner, oi_created_at = ev_now ev,
      oi_updated_at = ev_now ev,
      oi_chunks = spec_plan (\<lambda>i. env_uuid ev (i + 1)) (env_uuid ev 0) sz chunk_size\<rparr>"

text \<open>Applying a function to the object with a given id, wherever it is in the namespace.\<close>

definition on_object ::
  "string \<Rightarrow> (ObjectInfo \<Rightarrow> ObjectInfo option) \<Rightarrow> (string \<Rightarrow> ObjectInfo option) \<Rightarrow> string \<Rightarrow> ObjectInfo option" where
  "on_object object_id f names filename =
     Option.bind (names filename) (\<lambda>obj. if oi_object_id obj = object_id then f obj else Some obj)"

definition has_object :: "string \<Rightarrow> (ObjectInfo \<Rightarrow> bool) \<Rightarrow> (string \<Rightarrow> ObjectInfo option) \<Rightarrow> bool" where
  "has_object object_id P names \<longleftrightarrow> (\<exists>obj \<in> ran names. oi_object_id obj = object_id \<and> P obj)"

fun spec_step :: "ms_op \<Rightarrow> ms_spec \<Rightarrow> ms_result \<times> ms_spec" where
  "spec_step (MsCreate ev filename sz rf owner chunk_size) m =
     (if sp_names m filename \<noteq> None then (MsObject None, m)
      else let obj = new_object ev filename sz rf owner chunk_size
           in (MsObject (Some obj), m\<lparr>sp_names := (sp_names m)(filename \<mapsto> obj)\<rparr>))"
| "spec_step (MsDelete ev object_id) m =
     (MsBool (has_object object_id (\<lambda>_. True) (sp_names m)),
      m\<lparr>sp_names := on_object object_id (\<lambda>_. None) (sp_names m)\<rparr>)"
| "spec_step (MsDeleteByName ev filename) m =
     (MsBool (sp_names m filename \<noteq> None), m\<lparr>sp_names := (sp_names m)(filename := None)\<rparr>)"
| "spec_step (MsUpdateChunk ev object_id chunk) m =
     (MsBool (has_object object_id (\<lambda>obj. ci_chunk_id chunk \<in> ci_chunk_id ` set (oi_chunks obj)) (sp_names m)),
      m\<lparr>sp_names := on_object object_id
          (\<lambda>obj. case replace_chunk chunk (oi_chunks obj) of
             None \<Rightarrow> Some obj
           | Some chunks \<Rightarrow> Some (obj\<lparr>oi_chunks := chunks, oi_updated_at := ev_now ev\<rparr>)) (sp_names m)\<rparr>)"
| "spec_step (MsRegister ev node) m =
     (MsBool True, m\<lparr>sp_nodes := (sp_nodes m)(ni_id node \<mapsto>
        node\<lparr>ni_online := True, ni_last_heartbeat := ev_now ev\<rparr>)\<rparr>)"
| "spec_step (MsHeartbeat ev node_id free cnt) m =
     (MsBool (sp_nodes m node_id \<noteq> None), m\<lparr>sp_nodes := (sp_nodes m)(node_id := map_option
        (\<lambda>n. n\<lparr>ni_online := True, ni_free_bytes := free, ni_chunk_count := cnt,
              ni_last_heartbeat := ev_now ev\<rparr>) (sp_nodes m node_id))\<rparr>)"
| "spec_step (MsMarkOffline ev node_id) m =
     (MsBool (sp_nodes m node_id \<noteq> None), m\<lparr>sp_nodes := (sp_nodes m)(node_id := map_option
        (\<lambda>n. n\<lparr>ni_online := False\<rparr>) (sp_nodes m node_id))\<rparr>)"
| "spec_step (MsSetLeader ev leader gen) m = (MsVoid, m\<lparr>sp_leader := (leader, gen)\<rparr>)"

definition ms_view :: "metadata_store \<Rightarrow> ms_spec" where
  "ms_view s = \<lparr>sp_names = \<lambda>f. locate_by_filename f s, sp_nodes = um_find (ms_nodes s),
     sp_leader = (ms_leader_id s, ms_generation s)\<rparr>"

text \<open>The invariant: the two indexes of the namespace describe the same objects, one per file name and
  one per id.\<close>

definition namespace_inv :: "(string, ObjectInfo) umap \<Rightarrow> (string \<Rightarrow> string option) \<Rightarrow> bool" where
  "namespace_inv objs names \<longleftrightarrow> um_inv objs
     \<and> (\<forall>i obj. um_find objs i = Some obj \<longrightarrow> oi_object_id obj = i \<and> names (oi_filename obj) = Some i)
     \<and> (\<forall>f i. names f = Some i \<longrightarrow> (\<exists>obj. um_find objs i = Some obj \<and> oi_filename obj = f))"

definition ms_inv :: "metadata_store \<Rightarrow> bool" where
  "ms_inv s \<longleftrightarrow> namespace_inv (ms_objects_by_id s) (ms_filename_to_id s)
     \<and> um_inv (ms_nodes s) \<and> (\<forall>i n. um_find (ms_nodes s) i = Some n \<longrightarrow> ni_id n = i)"

text \<open>What is assumed of a call: the planning loop is given a chunk size, and the object id it draws is
  not in use.\<close>

fun ms_pre :: "ms_op \<Rightarrow> metadata_store \<Rightarrow> bool" where
  "ms_pre (MsCreate ev filename sz rf owner chunk_size) s \<longleftrightarrow>
     (sz = 0 \<or> chunk_size \<noteq> 0) \<and> um_find (ms_objects_by_id s) (env_uuid ev 0) = None"
| "ms_pre _ s \<longleftrightarrow> True"

lemma persist_frame [simp]:
  "ms_objects_by_id (snd (persist ev s)) = ms_objects_by_id s"
  "ms_filename_to_id (snd (persist ev s)) = ms_filename_to_id s"
  "ms_nodes (snd (persist ev s)) = ms_nodes s"
  "ms_leader_id (snd (persist ev s)) = ms_leader_id s"
  "ms_generation (snd (persist ev s)) = ms_generation s"
  "ms_round_robin_index (snd (persist ev s)) = ms_round_robin_index s"
  by (simp_all add: persist_def Let_def)

lemma locate_frame [simp]:
  "locate_by_filename f (snd (persist ev s)) = locate_by_filename f s"
  "locate_by_filename f (s\<lparr>ms_nodes := ns\<rparr>) = locate_by_filename f s"
  "locate_by_filename f (s\<lparr>ms_leader_id := l\<rparr>) = locate_by_filename f s"
  "locate_by_filename f (s\<lparr>ms_generation := g\<rparr>) = locate_by_filename f s"
  by (simp_all add: locate_by_filename_def split: option.split)

lemma ms_view_persist [simp]: "ms_view (snd (persist ev s)) = ms_view s"
  by (simp add: ms_view_def)

lemma ms_inv_persist [simp]: "ms_inv (snd (persist ev s)) = ms_inv s"
  by (simp add: ms_inv_def)

text \<open>The namespace as a map, and how each change of the two indexes shows in it.\<close>

definition names_of :: "(string, ObjectInfo) umap \<Rightarrow> (string \<Rightarrow> string option) \<Rightarrow> string \<Rightarrow> ObjectInfo option" where
  "names_of objs names f = Option.bind (names f) (um_find objs)"

lemma locate_names_of: "locate_by_filename f s = names_of (ms_objects_by_id s) (ms_filename_to_id s) f"
  by (simp add: locate_by_filename_def names_of_def split: option.splits)

lemma ms_view_names: "sp_names (ms_view s) = names_of (ms_objects_by_id s) (ms_filename_to_id s)"
  by (simp add: ms_view_def locate_names_of fun_eq_iff)

lemma namespace_invD:
  assumes "namespace_inv objs names" "um_find objs i = Some obj"
  shows "oi_object_id obj = i" "names (oi_filename obj) = Some i" "um_inv objs"
  using assms by (auto simp: namespace_inv_def)

lemma namespace_nameD:
  assumes "namespace_inv objs names" "names f = Some i"
  obtains obj where "um_find objs i = Some obj" "oi_filename obj = f"
  using assms unfolding namespace_inv_def by blast

lemma names_of_None: "namespace_inv objs names \<Longrightarrow> names_of objs names f = None \<longleftrightarrow> names f = None"
  by (fastforce simp: names_of_def namespace_inv_def split: bind_splits)

lemma names_of_iff:
  assumes "namespace_inv objs names"
  shows "names_of objs names f = Some obj \<longleftrightarrow>
    um_find objs (oi_object_id obj) = Some obj \<and> oi_filename obj = f"
proof
  assume "names_of objs names f = Some obj"
  then obtain i where i: "names f = Some i" "um_find objs i = Some obj"
    by (auto simp: names_of_def bind_eq_Some_conv)
  from i(1) assms have "\<exists>obj'. um_find objs i = Some obj' \<and> oi_filename obj' = f"
    unfolding namespace_inv_def by blast
  with i namespace_invD(1) [OF assms i(2)]
  show "um_find objs (oi_object_id obj) = Some obj \<and> oi_filename obj = f" by auto
next
  assume "um_find objs (oi_object_id obj) = Some obj \<and> oi_filename obj = f"
  with namespace_invD(2) [OF assms] show "names_of objs names f = Some obj"
    by (auto simp: names_of_def)
qed

lemma names_of_inj:
  assumes "namespace_inv objs names" "names_of objs names f = Some obj" "names_of objs names g = Some obj'"
    and "oi_object_id obj = oi_object_id obj'"
  shows "f = g \<and> obj = obj'"
  using assms by (simp add: names_of_iff)

lemma on_object_names:
  assumes inv: "namespace_inv objs names"
  shows "on_object i g (names_of objs names) =
    (case um_find objs i of None \<Rightarrow> names_of objs names
     | Some obj \<Rightarrow> (names_of objs names)(oi_filename obj := g obj))"
proof
  fix f
  show "on_object i g (names_of objs names) f = (case um_find objs i of None \<Rightarrow> names_of objs names
     | Some obj \<Rightarrow> (names_of objs names)(oi_filename obj := g obj)) f"
  proof (cases "names_of objs names f")
    case None
    have "oi_filename obj \<noteq> f" if "um_find objs i = Some obj" for obj
      using None that namespace_invD(2) [OF inv that] names_of_None [OF inv] by auto
    with None show ?thesis by (cases "um_find objs i") (auto simp: on_object_def)
  next
    case (Some o')
    then have o': "um_find objs (oi_object_id o') = Some o'" "oi_filename o' = f"
      by (simp_all add: names_of_iff [OF inv])
    show ?thesis
    proof (cases "oi_object_id o' = i")
      case True
      with Some o' show ?thesis by (simp add: on_object_def)
    next
      case False
      have "oi_filename obj \<noteq> f" if "um_find objs i = Some obj" for obj
        using that False o' namespace_invD(2) [OF inv that] namespace_invD(2) [OF inv o'(1)] by auto
      with Some False show ?thesis by (cases "um_find objs i") (auto simp: on_object_def)
    qed
  qed
qed

lemma has_object_names:
  assumes inv: "namespace_inv objs names"
  shows "has_object i P (names_of objs names) = (case um_find objs i of None \<Rightarrow> False | Some obj \<Rightarrow> P obj)"
proof (cases "um_find objs i")
  case None
  then show ?thesis by (auto simp: has_object_def ran_def names_of_iff [OF inv])
next
  case (Some obj)
  have obj: "names_of objs names (oi_filename obj) = Some obj" "oi_object_id obj = i"
    using Some namespace_invD(1) [OF inv Some] by (simp_all add: names_of_iff [OF inv])
  then show ?thesis
    using Some by (auto simp: has_object_def ran_def names_of_iff [OF inv])
qed

lemma namespace_invI:
  assumes "um_inv objs"
    and "\<And>i obj. um_find objs i = Some obj \<Longrightarrow> oi_object_id obj = i \<and> names (oi_filename obj) = Some i"
    and "\<And>f i. names f = Some i \<Longrightarrow> \<exists>obj. um_find objs i = Some obj \<and> oi_filename obj = f"
  shows "namespace_inv objs names"
  using assms by (simp add: namespace_inv_def)

lemma namespace_create:
  assumes inv: "namespace_inv objs names" and new: "names f = None" "um_find objs i = None"
    and obj: "oi_object_id obj = i" "oi_filename obj = f"
  shows "namespace_inv (um_assign rank i obj objs) (names(f \<mapsto> i))
    \<and> names_of (um_assign rank i obj objs) (names(f \<mapsto> i)) = (names_of objs names)(f \<mapsto> obj)"
proof -
  have um: "um_inv objs" using inv by (simp add: namespace_inv_def)
  note find = um_find_assign [OF um]
  have other: "j \<noteq> i" if "names g = Some j" for g j
    by (rule namespace_nameD [OF inv that]) (use new(2) in auto)
  have name: "oi_filename o' \<noteq> f" if "um_find objs j = Some o'" for j o'
    using namespace_invD(2) [OF inv that] new(1) by auto
  have "namespace_inv (um_assign rank i obj objs) (names(f \<mapsto> i))"
  proof (rule namespace_invI)
    fix j o' assume "um_find (um_assign rank i obj objs) j = Some o'"
    with obj name namespace_invD [OF inv, of j o'] show
      "oi_object_id o' = j \<and> (names(f \<mapsto> i)) (oi_filename o') = Some j"
      by (cases "j = i") (auto simp: find)
  next
    fix g j assume "(names(f \<mapsto> i)) g = Some j"
    with obj other show "\<exists>o'. um_find (um_assign rank i obj objs) j = Some o' \<and> oi_filename o' = g"
      by (cases "g = f") (auto simp: find elim: namespace_nameD [OF inv])
  qed (rule um_inv_assign [OF um])
  moreover have "names_of (um_assign rank i obj objs) (names(f \<mapsto> i)) g = ((names_of objs names)(f \<mapsto> obj)) g" for g
    using other by (cases "names g"; cases "g = f") (auto simp: names_of_def find)
  ultimately show ?thesis by blast
qed

lemma namespace_delete:
  assumes inv: "namespace_inv objs names" and obj: "um_find objs i = Some obj"
  shows "namespace_inv (um_erase i objs) (names(oi_filename obj := None))
    \<and> names_of (um_erase i objs) (names(oi_filename obj := None)) = (names_of objs names)(oi_filename obj := None)"
proof -
  have name: "names (oi_filename obj) = Some i" "um_inv objs"
    using namespace_invD [OF inv obj] by simp_all
  have other: "j \<noteq> i" if "names g = Some j" "g \<noteq> oi_filename obj" for g j
    by (rule namespace_nameD [OF inv that(1)]) (use that(2) obj in auto)
  have fn: "oi_filename o' \<noteq> oi_filename obj" if "um_find objs j = Some o'" "j \<noteq> i" for j o'
    using namespace_invD(2) [OF inv that(1)] name(1) that(2) by auto
  have "namespace_inv (um_erase i objs) (names(oi_filename obj := None))"
  proof (rule namespace_invI)
    fix j o' assume "um_find (um_erase i objs) j = Some o'"
    with fn namespace_invD [OF inv, of j o'] show
      "oi_object_id o' = j \<and> (names(oi_filename obj := None)) (oi_filename o') = Some j"
      by (cases "j = i") (auto simp: um_find_erase)
  next
    fix g j assume "(names(oi_filename obj := None)) g = Some j"
    with other show "\<exists>o'. um_find (um_erase i objs) j = Some o' \<and> oi_filename o' = g"
      by (cases "g = oi_filename obj") (auto simp: um_find_erase elim: namespace_nameD [OF inv])
  qed (rule um_inv_erase [OF name(2)])
  moreover have "names_of (um_erase i objs) (names(oi_filename obj := None)) g
      = ((names_of objs names)(oi_filename obj := None)) g" for g
    using other by (cases "names g"; cases "g = oi_filename obj") (auto simp: names_of_def um_find_erase)
  ultimately show ?thesis by blast
qed

lemma namespace_update:
  assumes inv: "namespace_inv objs names" and obj: "um_find objs i = Some obj"
    and obj': "oi_object_id obj' = oi_object_id obj" "oi_filename obj' = oi_filename obj"
  shows "namespace_inv (um_assign rank i obj' objs) names
    \<and> names_of (um_assign rank i obj' objs) names = (names_of objs names)(oi_filename obj \<mapsto> obj')"
proof -
  have name: "names (oi_filename obj) = Some i" "um_inv objs" "oi_object_id obj = i"
    using namespace_invD [OF inv obj] by simp_all
  note find = um_find_assign [OF name(2)]
  have other: "j \<noteq> i" if "names g = Some j" "g \<noteq> oi_filename obj" for g j
    by (rule namespace_nameD [OF inv that(1)]) (use that(2) obj in auto)
  have "namespace_inv (um_assign rank i obj' objs) names"
  proof (rule namespace_invI)
    fix j o' assume "um_find (um_assign rank i obj' objs) j = Some o'"
    with obj' name namespace_invD [OF inv, of j o'] show
      "oi_object_id o' = j \<and> names (oi_filename o') = Some j"
      by (cases "j = i") (auto simp: find)
  next
    fix g j assume "names g = Some j"
    with other name obj' show "\<exists>o'. um_find (um_assign rank i obj' objs) j = Some o' \<and> oi_filename o' = g"
      by (cases "g = oi_filename obj") (auto simp: find elim: namespace_nameD [OF inv])
  qed (rule um_inv_assign [OF name(2)])
  moreover have "names_of (um_assign rank i obj' objs) names g
      = ((names_of objs names)(oi_filename obj \<mapsto> obj')) g" for g
    using other name by (cases "names g"; cases "g = oi_filename obj") (auto simp: names_of_def find)
  ultimately show ?thesis by blast
qed

section \<open>Every operation implements its specification\<close>

lemma ms_inv_namespace: "ms_inv s \<Longrightarrow> namespace_inv (ms_objects_by_id s) (ms_filename_to_id s)"
  by (simp add: ms_inv_def)

lemma view_names:
  assumes "ms_inv s"
  shows "has_object i P (sp_names (ms_view s))
      = (case um_find (ms_objects_by_id s) i of None \<Rightarrow> False | Some obj \<Rightarrow> P obj)"
    "on_object i g (sp_names (ms_view s)) = (case um_find (ms_objects_by_id s) i of
       None \<Rightarrow> sp_names (ms_view s) | Some obj \<Rightarrow> (sp_names (ms_view s))(oi_filename obj := g obj))"
    "sp_names (ms_view s) f = None \<longleftrightarrow> ms_filename_to_id s f = None"
    "sp_names (ms_view s) f = Some obj \<longleftrightarrow>
       um_find (ms_objects_by_id s) (oi_object_id obj) = Some obj \<and> oi_filename obj = f"
  using ms_inv_namespace [OF assms]
  by (simp_all only: ms_view_names has_object_names on_object_names names_of_None names_of_iff)

text \<open>A step that changes the namespace only.\<close>

lemma namespace_step:
  assumes "ms_inv s" "namespace_inv objs names" "names_of objs names = m"
  shows "ms_inv (s\<lparr>ms_objects_by_id := objs, ms_filename_to_id := names\<rparr>)
    \<and> ms_view (s\<lparr>ms_objects_by_id := objs, ms_filename_to_id := names\<rparr>) = (ms_view s)\<lparr>sp_names := m\<rparr>"
  using assms by (simp add: ms_inv_def ms_view_def locate_names_of)

text \<open>A step that changes the registry only.\<close>

lemma registry_step:
  assumes "ms_inv s" "ni_id n = i"
  shows "ms_inv (s\<lparr>ms_nodes := um_assign rank i n (ms_nodes s)\<rparr>)
    \<and> ms_view (s\<lparr>ms_nodes := um_assign rank i n (ms_nodes s)\<rparr>)
        = (ms_view s)\<lparr>sp_nodes := (sp_nodes (ms_view s))(i \<mapsto> n)\<rparr>"
  using assms by (simp add: ms_inv_def ms_view_def um_simps um_inv_assign)

lemma create_object_simp:
  assumes "ms_filename_to_id s filename = None" "sz = 0 \<or> chunk_size \<noteq> 0"
  shows "create_object ev filename sz rf owner chunk_size s =
    Some (Some (new_object ev filename sz rf owner chunk_size), snd (persist ev (s\<lparr>
      ms_objects_by_id := um_assign (ev_rank ev) (env_uuid ev 0)
        (new_object ev filename sz rf owner chunk_size) (ms_objects_by_id s),
      ms_filename_to_id := (ms_filename_to_id s)(filename \<mapsto> env_uuid ev 0)\<rparr>)))"
  using assms
  by (simp add: create_object_def Let_def plan_chunks_spec_plan new_object_def ObjectInfo_default_def)

lemma create_object_None:
  "create_object ev filename sz rf owner chunk_size s = None \<longleftrightarrow>
     ms_filename_to_id s filename = None \<and> sz \<noteq> 0 \<and> chunk_size = 0"
proof (cases "sz = 0 \<or> chunk_size \<noteq> 0")
  case True
  then show ?thesis by (auto simp: create_object_def Let_def plan_chunks_spec_plan)
next
  case False
  then show ?thesis
    using plan_chunks_zero [of _ _ sz] by (simp add: create_object_def Let_def)
qed

lemma create_object_SomeD:
  assumes "create_object ev filename sz rf owner chunk_size s = Some (Some obj, s')"
  shows "ms_filename_to_id s filename = None" "sz = 0 \<or> chunk_size \<noteq> 0"
    "obj = new_object ev filename sz rf owner chunk_size"
proof -
  show new: "ms_filename_to_id s filename = None"
    using assms by (auto simp: create_object_def split: if_splits)
  show cs: "sz = 0 \<or> chunk_size \<noteq> 0"
    using assms create_object_None [of ev filename sz rf owner chunk_size s] new by auto
  show "obj = new_object ev filename sz rf owner chunk_size"
    using assms create_object_simp [OF new cs] by simp
qed

lemma create_step:
  assumes inv: "ms_inv s" and pre: "ms_pre (MsCreate ev f sz rf owner cs) s"
    and step: "ms_step (MsCreate ev f sz rf owner cs) s = (r, s')"
  shows "spec_step (MsCreate ev f sz rf owner cs) (ms_view s) = (r, ms_view s') \<and> ms_inv s'"
proof (cases "ms_filename_to_id s f")
  case None
  let ?o = "new_object ev f sz rf owner cs"
  let ?objs = "um_assign (ev_rank ev) (env_uuid ev 0) ?o (ms_objects_by_id s)"
  let ?names = "(ms_filename_to_id s)(f \<mapsto> env_uuid ev 0)"
  have "namespace_inv ?objs ?names \<and> names_of ?objs ?names = (sp_names (ms_view s))(f \<mapsto> ?o)"
    unfolding ms_view_names
    using ms_inv_namespace [OF inv] None pre by (intro namespace_create) (simp_all add: new_object_def)
  with namespace_step [OF inv, of ?objs ?names] step None pre view_names(3) [OF inv] show ?thesis
    by (auto simp: create_object_simp)
next
  case (Some i)
  with step inv view_names(3) [OF inv, of f] show ?thesis by (auto simp: create_object_def)
qed

lemma delete_object_step:
  assumes inv: "ms_inv s" and del: "delete_object ev i s = (b, s')"
  shows "spec_step (MsDelete ev i) (ms_view s) = (MsBool b, ms_view s') \<and> ms_inv s'"
proof (cases "um_find (ms_objects_by_id s) i")
  case None
  with assms show ?thesis by (auto simp: delete_object_def view_names)
next
  case (Some obj)
  let ?objs = "um_erase i (ms_objects_by_id s)" and ?names = "(ms_filename_to_id s)(oi_filename obj := None)"
  have s': "s' = snd (persist ev (s\<lparr>ms_filename_to_id := ?names, ms_objects_by_id := ?objs\<rparr>))" "b"
    using del Some by (simp_all add: delete_object_def Let_def)
  have "s\<lparr>ms_filename_to_id := ?names, ms_objects_by_id := ?objs\<rparr>
      = s\<lparr>ms_objects_by_id := ?objs, ms_filename_to_id := ?names\<rparr>" by simp
  with namespace_step [OF inv, of ?objs ?names] s' Some
    namespace_delete [OF ms_inv_namespace [OF inv] Some] show ?thesis
    by (simp add: view_names [OF inv]) (simp add: ms_view_names)
qed

lemma delete_by_name_step:
  assumes inv: "ms_inv s" and del: "delete_object_by_filename ev f s = (b, s')"
  shows "spec_step (MsDeleteByName ev f) (ms_view s) = (MsBool b, ms_view s') \<and> ms_inv s'"
proof (cases "ms_filename_to_id s f")
  case None
  then have "sp_names (ms_view s) f = None" using view_names(3) [OF inv] by simp
  with assms None show ?thesis by (auto simp: delete_object_by_filename_def fun_upd_idem)
next
  case (Some i)
  obtain obj where obj: "um_find (ms_objects_by_id s) i = Some obj" "oi_filename obj = f"
    using namespace_nameD [OF ms_inv_namespace [OF inv] Some] .
  have "delete_object ev i s = (b, s')" using del Some by (simp add: delete_object_by_filename_def)
  from delete_object_step [OF inv this] obj Some view_names(3) [OF inv, of f] show ?thesis
    by (simp add: view_names(1,2) [OF inv])
qed

lemma replace_chunk_None:
  "replace_chunk chunk cs = None \<longleftrightarrow> ci_chunk_id chunk \<notin> ci_chunk_id ` set cs"
  by (induction cs) auto

lemma update_chunk_step:
  assumes inv: "ms_inv s" and upd: "update_chunk ev i chunk s = (b, s')"
  shows "spec_step (MsUpdateChunk ev i chunk) (ms_view s) = (MsBool b, ms_view s') \<and> ms_inv s'"
proof (cases "um_find (ms_objects_by_id s) i")
  case None
  with assms show ?thesis by (auto simp: update_chunk_def view_names)
next
  case obj: (Some obj)
  show ?thesis
  proof (cases "replace_chunk chunk (oi_chunks obj)")
    case None
    have "sp_names (ms_view s) (oi_filename obj) = Some obj"
      using namespace_invD(1) [OF ms_inv_namespace [OF inv] obj] obj view_names(4) [OF inv] by simp
    then have "(ms_view s)\<lparr>sp_names := (sp_names (ms_view s))(oi_filename obj \<mapsto> obj)\<rparr> = ms_view s"
      by (simp add: fun_upd_idem)
    moreover have "ci_chunk_id chunk \<notin> ci_chunk_id ` set (oi_chunks obj)"
      using None by (simp add: replace_chunk_None)
    ultimately show ?thesis
      using upd obj None inv by (auto simp: update_chunk_def view_names(1,2))
  next
    case (Some chunks)
    let ?o = "obj\<lparr>oi_chunks := chunks, oi_updated_at := ev_now ev\<rparr>"
    let ?objs = "um_assign (ev_rank ev) i ?o (ms_objects_by_id s)"
    have "s\<lparr>ms_objects_by_id := ?objs\<rparr>
        = s\<lparr>ms_objects_by_id := ?objs, ms_filename_to_id := ms_filename_to_id s\<rparr>" by simp
    moreover have "ci_chunk_id chunk \<in> ci_chunk_id ` set (oi_chunks obj)"
      using Some replace_chunk_None [of chunk "oi_chunks obj"] by auto
    moreover have "b" "s' = snd (persist ev (s\<lparr>ms_objects_by_id := ?objs\<rparr>))"
      using upd obj Some by (simp_all add: update_chunk_def Let_def)
    ultimately show ?thesis
      using namespace_step [OF inv, of ?objs "ms_filename_to_id s"] obj Some
        namespace_update [OF ms_inv_namespace [OF inv] obj, of ?o "ev_rank ev"]
      by (simp add: view_names(1,2) [OF inv]) (simp add: ms_view_names)
  qed
qed

lemma registry_steps:
  assumes inv: "ms_inv s"
  shows "register_node ev node s = (b, s') \<Longrightarrow>
      spec_step (MsRegister ev node) (ms_view s) = (MsBool b, ms_view s') \<and> ms_inv s'"
    "update_node_heartbeat ev i free cnt s = (b, s') \<Longrightarrow>
      spec_step (MsHeartbeat ev i free cnt) (ms_view s) = (MsBool b, ms_view s') \<and> ms_inv s'"
    "mark_node_offline ev i s = (b, s') \<Longrightarrow>
      spec_step (MsMarkOffline ev i) (ms_view s) = (MsBool b, ms_view s') \<and> ms_inv s'"
proof -
  have ids: "ni_id n = j" if "um_find (ms_nodes s) j = Some n" for j n
    using inv that by (simp add: ms_inv_def)
  have nodes: "sp_nodes (ms_view t) = um_find (ms_nodes t)" for t by (simp add: ms_view_def)
  have same: "(ms_view s)\<lparr>sp_nodes := (um_find (ms_nodes s))(j := None)\<rparr> = ms_view s"
    if "um_find (ms_nodes s) j = None" for j
    using that by (simp add: nodes [symmetric] fun_upd_idem)
  note step = registry_step [OF inv]
  show "register_node ev node s = (b, s') \<Longrightarrow>
      spec_step (MsRegister ev node) (ms_view s) = (MsBool b, ms_view s') \<and> ms_inv s'"
    using step [of "node\<lparr>ni_online := True, ni_last_heartbeat := ev_now ev\<rparr>" "ni_id node"]
    by (auto simp: register_node_def Let_def)
  show "update_node_heartbeat ev i free cnt s = (b, s') \<Longrightarrow>
      spec_step (MsHeartbeat ev i free cnt) (ms_view s) = (MsBool b, ms_view s') \<and> ms_inv s'"
    using inv ids [of i] step [where i = i] same [of i]
    by (cases "um_find (ms_nodes s) i") (auto simp: update_node_heartbeat_def Let_def nodes)
  show "mark_node_offline ev i s = (b, s') \<Longrightarrow>
      spec_step (MsMarkOffline ev i) (ms_view s) = (MsBool b, ms_view s') \<and> ms_inv s'"
    using inv ids [of i] step [where i = i] same [of i]
    by (cases "um_find (ms_nodes s) i") (auto simp: mark_node_offline_def Let_def nodes)
qed

lemma ms_step_correct:
  assumes inv: "ms_inv s" and pre: "ms_pre op s" and step: "ms_step op s = (r, s')"
  shows "spec_step op (ms_view s) = (r, ms_view s') \<and> ms_inv s'"
proof (cases op)
  case MsCreate
  with create_step [OF inv] pre step show ?thesis by blast
next
  case (MsDelete ev i)
  with delete_object_step [OF inv, of ev i] step show ?thesis by (cases "delete_object ev i s") auto
next
  case (MsDeleteByName ev f)
  with delete_by_name_step [OF inv, of ev f] step show ?thesis
    by (cases "delete_object_by_filename ev f s") auto
next
  case (MsUpdateChunk ev i chunk)
  with update_chunk_step [OF inv, of ev i chunk] step show ?thesis
    by (cases "update_chunk ev i chunk s") auto
next
  case (MsRegister ev node)
  with registry_steps(1) [OF inv, of ev node] step show ?thesis by (cases "register_node ev node s") auto
next
  case (MsHeartbeat ev i free cnt)
  with registry_steps(2) [OF inv, of ev i free cnt] step show ?thesis
    by (cases "update_node_heartbeat ev i free cnt s") auto
next
  case (MsMarkOffline ev i)
  with registry_steps(3) [OF inv, of ev i] step show ?thesis by (cases "mark_node_offline ev i s") auto
next
  case (MsSetLeader ev l g)
  with inv step show ?thesis by (auto simp: set_leader_def ms_inv_def ms_view_def)
qed

lemma created:
  assumes inv: "ms_inv s" and fresh: "um_find (ms_objects_by_id s) (env_uuid ev 0) = None"
    and c: "create_object ev filename sz rf owner chunk_size s = Some (Some obj, s')"
  shows "ms_inv s'" "locate_by_id (env_uuid ev 0) s' = Some obj"
    "(\<lambda>f. locate_by_filename f s') = (\<lambda>f. locate_by_filename f s)(filename \<mapsto> obj)"
    "ms_filename_to_id s' filename = Some (env_uuid ev 0)" "ms_nodes s' = ms_nodes s"
proof -
  note new = create_object_SomeD [OF c]
  note simp = create_object_simp [OF new(1,2), of ev rf owner]
  have step: "ms_step (MsCreate ev filename sz rf owner chunk_size) s = (MsObject (Some obj), s')"
    using c by simp
  have "spec_step (MsCreate ev filename sz rf owner chunk_size) (ms_view s) = (MsObject (Some obj), ms_view s')
      \<and> ms_inv s'"
    using fresh new(2) by (intro create_step [OF inv _ step]) simp
  then show "ms_inv s'"
    and "(\<lambda>f. locate_by_filename f s') = (\<lambda>f. locate_by_filename f s)(filename \<mapsto> obj)"
    using view_names(3) [OF inv, of filename] new by (auto simp: ms_view_def Let_def)
  show "locate_by_id (env_uuid ev 0) s' = Some obj" "ms_filename_to_id s' filename = Some (env_uuid ev 0)"
    "ms_nodes s' = ms_nodes s"
    using c simp inv by (auto simp: locate_by_id_def um_simps ms_inv_def namespace_inv_def)
qed

lemma create_object_taken:
  "ms_filename_to_id s filename \<noteq> None \<Longrightarrow> create_object ev filename sz rf owner chunk_size s = Some (None, s)"
  by (simp add: create_object_def)

lemma locate_iff:
  "ms_inv s \<Longrightarrow> locate_by_filename f s = Some obj \<longleftrightarrow>
     um_find (ms_objects_by_id s) (oi_object_id obj) = Some obj \<and> oi_filename obj = f"
  unfolding locate_names_of by (rule names_of_iff [OF ms_inv_namespace])

lemma replace_chunk_middle:
  assumes "ci_chunk_id chunk = ci_chunk_id c" "ci_chunk_id c \<notin> ci_chunk_id ` set done"
  shows "replace_chunk chunk (done @ c # rest) = Some (done @ chunk # rest)"
  using assms by (induction "done") auto

lemma updated:
  assumes inv: "ms_inv s" and obj: "locate_by_filename f s = Some obj"
    and r: "replace_chunk chunk (oi_chunks obj) = Some chunks"
    and u: "update_chunk ev (oi_object_id obj) chunk s = (b, s')"
  shows "b" "ms_inv s'"
    "locate_by_filename f s' = Some (obj\<lparr>oi_chunks := chunks, oi_updated_at := ev_now ev\<rparr>)"
proof -
  have o: "um_find (ms_objects_by_id s) (oi_object_id obj) = Some obj" "oi_filename obj = f"
    using obj by (simp_all add: locate_iff [OF inv])
  show "b" using u o r by (simp add: update_chunk_def Let_def)
  note step = update_chunk_step [OF inv u]
  then show "ms_inv s'" by simp
  from step have "sp_names (ms_view s') f = Some (obj\<lparr>oi_chunks := chunks, oi_updated_at := ev_now ev\<rparr>)"
    using o r by (auto simp: view_names(2) [OF inv] dest!: arg_cong [of _ "ms_view s'" sp_names] dest: sym)
  then show "locate_by_filename f s' = Some (obj\<lparr>oi_chunks := chunks, oi_updated_at := ev_now ev\<rparr>)"
    by (simp add: ms_view_def)
qed

lemma update_chunk_nodes: "update_chunk ev i chunk s = (b, s') \<Longrightarrow> ms_nodes s' = ms_nodes s"
  by (auto simp: update_chunk_def Let_def split: option.splits)

lemma select_nodes_frame:
  assumes "select_nodes ev cnt strategy s = (sel, s')"
  shows "ms_inv s' = ms_inv s" "locate_by_filename f s' = locate_by_filename f s" "ms_nodes s' = ms_nodes s"
    "ms_objects_by_id s' = ms_objects_by_id s"
  using assms by (auto simp: select_nodes_def Let_def ms_inv_def locate_names_of
      split: if_splits LoadBalanceStrategy.splits prod.splits)

lemma length_env_uuid [simp]: "length (env_uuid ev i) = 36"
  by (simp add: env_uuid_def length_generate_uuid split: prod.split)

lemma env_uuid_neq_Nil [simp]: "env_uuid ev i \<noteq> []"
  by (simp add: env_uuid_def generate_uuid_def split: prod.split)

interpretation metadata_sim: simulation ms_step spec_step ms_view ms_inv ms_pre
  using ms_step_correct by unfold_locales blast+

lemma ms_inv_initial: "ms_inv (MetadataStore path readable snapshot)"
  by (simp add: MetadataStore_def load_def ms_inv_def namespace_inv_def)

section \<open>Listing and selection\<close>

lemma distinct_filenames:
  assumes "ms_inv s"
  shows "distinct (map oi_filename (map snd (ms_objects_by_id s)))"
proof -
  note ns = ms_inv_namespace [OF assms]
  have um: "um_inv (ms_objects_by_id s)" using ns by (simp add: namespace_inv_def)
  have "i = j" if "(i, a) \<in> set (ms_objects_by_id s)" "(j, b) \<in> set (ms_objects_by_id s)"
      "oi_filename a = oi_filename b" for i j a b
    using that namespace_invD(2) [OF ns] um_find_mem [OF um] by (metis option.inject)
  then have "inj_on (\<lambda>e. oi_filename (snd e)) (set (ms_objects_by_id s))"
    using um um_find_mem [OF um] by (auto simp: inj_on_def) (metis option.inject)
  moreover have "distinct (ms_objects_by_id s)" using um by (simp add: um_inv_def distinct_map)
  ultimately show ?thesis by (simp add: distinct_map comp_def)
qed

text \<open>The names of a whole listing, and the page of it a request gets.\<close>

definition matching :: "string \<Rightarrow> metadata_store \<Rightarrow> ObjectInfo list" where
  "matching prefix s = sort_key oi_filename
     (filter (\<lambda>obj. prefix = [] \<or> take (length prefix) (oi_filename obj) = prefix)
       (map snd (ms_objects_by_id s)))"

lemma list_objects_page: "list_objects prefix limit offset s = take (unat limit) (drop (unat offset) (matching prefix s))"
  by (auto simp: list_objects_def Let_def matching_def [symmetric] min_def)

lemma set_matching:
  assumes "ms_inv s"
  shows "obj \<in> set (matching prefix s) \<longleftrightarrow>
    locate_by_filename (oi_filename obj) s = Some obj \<and> take (length prefix) (oi_filename obj) = prefix"
proof -
  note ns = ms_inv_namespace [OF assms]
  have um: "um_inv (ms_objects_by_id s)" using ns by (simp add: namespace_inv_def)
  have "obj \<in> set (map snd (ms_objects_by_id s)) \<longleftrightarrow>
      um_find (ms_objects_by_id s) (oi_object_id obj) = Some obj"
  proof
    assume "obj \<in> set (map snd (ms_objects_by_id s))"
    then obtain i where "um_find (ms_objects_by_id s) i = Some obj" using um_find_mem [OF um] by auto
    with namespace_invD(1) [OF ns this] show "um_find (ms_objects_by_id s) (oi_object_id obj) = Some obj" by simp
  qed (use um_find_Some_mem in force)
  then show ?thesis
    by (cases prefix) (auto simp: matching_def locate_names_of names_of_iff [OF ns])
qed

lemma distinct_map_sort_key: "distinct (map f (sort_key g xs)) = distinct (map f xs)"
  by (rule mset_eq_imp_distinct_iff) simp

lemma strict_sorted_matching:
  assumes "ms_inv s"
  shows "sorted_wrt (<) (map oi_filename (matching prefix s))"
proof -
  have "distinct (map oi_filename (matching prefix s))"
    using distinct_filenames [OF assms] unfolding matching_def distinct_map_sort_key
    by (rule distinct_map_filter)
  moreover have "sorted (map oi_filename (matching prefix s))" by (simp add: matching_def)
  ultimately show ?thesis by (simp add: strict_sorted_iff)
qed

text \<open>Selection: what every strategy guarantees.\<close>

definition online_nodes :: "metadata_store \<Rightarrow> NodeInfo list" where
  "online_nodes s = filter ni_online (map snd (ms_nodes s))"

lemma round_robin_nth:
  "length (fst (round_robin n online idx)) = n \<and> snd (round_robin n online idx) = idx + word_of_nat n
   \<and> (\<forall>j < n. fst (round_robin n online idx) ! j = online ! (unat (idx + word_of_nat j) mod length online))"
proof (induction n arbitrary: idx)
  case (Suc n)
  show ?case
    using Suc [of "idx + 1"]
    by (auto simp: Let_def nth_Cons' less_Suc_eq_0_disj algebra_simps split: prod.splits)
qed simp

lemma distinct_online:
  assumes "ms_inv s"
  shows "distinct (map ni_id (online_nodes s))"
proof -
  have um: "um_inv (ms_nodes s)" and ids: "\<And>i n. um_find (ms_nodes s) i = Some n \<Longrightarrow> ni_id n = i"
    using assms by (simp_all add: ms_inv_def)
  have "map (ni_id \<circ> snd) (ms_nodes s) = map fst (ms_nodes s)"
    using ids um_find_mem [OF um] by (auto intro!: map_cong)
  then have "distinct (map ni_id (map snd (ms_nodes s)))" using um by (simp only: um_inv_def map_map)
  then show ?thesis unfolding online_nodes_def by (rule distinct_map_filter)
qed

lemma select_nodes_online:
  assumes "ms_inv s" "select_nodes ev cnt strategy s = (sel, s')"
  shows "set sel \<subseteq> set (online_nodes s)" "strategy \<noteq> RoundRobin \<Longrightarrow> distinct (map ni_id sel)"
proof -
  let ?r = "sort_key (\<lambda>n. ev_rank ev (ni_id n)) (online_nodes s)"
  consider "sel = []" | "sel = fst (round_robin (unat cnt) (online_nodes s) (ms_round_robin_index s))" "online_nodes s \<noteq> []" "strategy = RoundRobin"
    | xs where "sel = take (unat cnt) xs" "mset xs = mset (online_nodes s)" "distinct (map ni_id xs)"
    using assms(2) distinct_online [OF assms(1)]
    by (cases strategy) (auto simp: select_nodes_def Let_def online_nodes_def [symmetric] distinct_map_sort_key
        split: if_splits prod.splits)
  then have "set sel \<subseteq> set (online_nodes s) \<and> (strategy \<noteq> RoundRobin \<longrightarrow> distinct (map ni_id sel))"
  proof cases
    case 2
    note rr = round_robin_nth [of "unat cnt" "online_nodes s" "ms_round_robin_index s", folded 2(1)]
    show ?thesis using rr 2(2,3) by (auto simp: set_conv_nth [of sel])
  next
    case (3 xs)
    then have "set xs = set (online_nodes s)" by (metis set_mset_mset)
    with 3 show ?thesis by (auto simp: take_map [symmetric] dest: in_set_takeD)
  qed simp
  then show "set sel \<subseteq> set (online_nodes s)" "strategy \<noteq> RoundRobin \<Longrightarrow> distinct (map ni_id sel)" by blast+
qed

section \<open>Properties of the metadata store\<close>

definition example_env :: call_env where
  "example_env = \<lparr>ev_draws = \<lambda>i. (word_of_nat i, 0), ev_now = 5, ev_rank = length, ev_open_ok = True,
     ev_flushed = 10000, ev_rename_ok = True\<rparr>"

definition example_node :: "string \<Rightarrow> u64 \<Rightarrow> NodeInfo" where
  "example_node nid cnt = NodeInfo_default\<lparr>ni_id := nid, ni_address := ''h'' @ nid, ni_chunk_count := cnt\<rparr>"

definition example_ops :: "ms_op list" where
  "example_ops = [MsCreate example_env ''f'' 10 3 ''me'' 4, MsRegister example_env (example_node ''n1'' 2),
     MsRegister example_env (example_node ''n2'' 1), MsHeartbeat example_env ''n1'' 100 7]"

definition example_store :: metadata_store where
  "example_store = snd (run_ops ms_step example_ops (MetadataStore ''p'' True None))"

lemma run_pre_example: "run_pre ms_step ms_pre example_ops (MetadataStore ''p'' True None)"
  by (simp del: ms_step.simps add: example_ops_def MetadataStore_def load_def)

lemma ms_inv_example: "ms_inv example_store"
  using metadata_sim.run_sim [OF ms_inv_initial run_pre_example prod.collapse [symmetric]]
  by (simp add: example_store_def)

text \<open>C14. The two indexes of the namespace, the node registry and the leader implement the maps of the
  specification: from a state satisfying the invariant, every history of creations, deletions, chunk
  updates, registrations, heartbeats and leader changes returns what the specification returns (a
  duplicate file name is refused, a deletion or an update of an unknown object reports false) and ends
  in a state that shows the specified maps; the invariant is kept. Each creation draws an object id
  that is not in use and is given a chunk size; nothing is assumed of the file system or of the
  containers' order.\<close>

theorem metadata_refines_maps:
  assumes "ms_inv s" "run_pre ms_step ms_pre ops s" "run_ops ms_step ops s = (rs, s')"
  shows "run_ops spec_step ops (ms_view s) = (rs, ms_view s') \<and> ms_inv s'"
  using metadata_sim.run_sim [OF assms] by simp

theorem metadata_refines_maps_witness:
  "run_ops spec_step example_ops (ms_view (MetadataStore ''p'' True None))
   = (fst (run_ops ms_step example_ops (MetadataStore ''p'' True None)), ms_view example_store)"
  using metadata_refines_maps [OF ms_inv_initial run_pre_example prod.collapse [symmetric]]
  by (simp only: example_store_def)

text \<open>C20. The planning loop ends whenever the chunk size is not zero, and its chunks cover the object:
  there are as many as the size needs (one for an empty object), chunk \<open>j\<close> has the \<open>j\<close>-th drawn id,
  index \<open>j\<close> (in 32 bits) and \<open>min chunk_size (size - j * chunk_size)\<close> bytes, and the sizes add up to the
  object's size.\<close>

theorem plan_chunks_covers_object:
  assumes "sz = 0 \<or> chunk_size \<noteq> 0"
  shows "\<exists>chunks. plan_chunks uuid object_id sz chunk_size = Some chunks
    \<and> length chunks = max 1 (chunk_total (unat sz) (unat chunk_size))
    \<and> (\<forall>j < length chunks. chunks ! j = \<lparr>ci_chunk_id = uuid j, ci_object_id = object_id,
          ci_chunk_index = word_of_nat j,
          ci_size = word_of_nat (min (unat chunk_size) (unat sz - j * unat chunk_size)),
          ci_checksum = [], ci_version = 1, ci_replicas = []\<rparr>)
    \<and> sum_list (map (\<lambda>c. unat (ci_size c)) chunks) = unat sz"
proof -
  from plan_chunks_spec_plan [OF assms, of uuid object_id] sum_spec_plan [OF assms, of uuid object_id]
  show ?thesis
    by (simp add: spec_plan_def plan_chunk_def ChunkInfo_default_def planned_size_def)
qed

theorem plan_chunks_covers_object_witness:
  "\<exists>chunks. plan_chunks (\<lambda>i. replicate i CHR ''x'') ''o'' 10 4 = Some chunks \<and> length chunks = 3
    \<and> sum_list (map (\<lambda>c. unat (ci_size c)) chunks) = 10"
  using plan_chunks_covers_object [of 10 4 "\<lambda>i. replicate i CHR ''x''" "''o''"]
  by (auto simp: chunk_total_def)

text \<open>Creating an object fails to return in exactly one case: a new file name, a non-empty object and
  the chunk size zero. The planning loop then subtracts nothing, for ever, while the call holds the
  write lock.\<close>

theorem create_object_never_returns:
  "create_object ev filename sz rf owner chunk_size s = None \<longleftrightarrow>
     ms_filename_to_id s filename = None \<and> sz \<noteq> 0 \<and> chunk_size = 0"
  by (rule create_object_None)

text \<open>A listing is a page of the one list of all objects whose name starts with the prefix, strictly
  ascending by name: \<open>limit\<close> entries from position \<open>offset\<close> on.\<close>

theorem list_objects_pages:
  assumes "ms_inv s"
  shows "\<exists>full. sorted_wrt (<) (map oi_filename full)
    \<and> set full = {obj. locate_by_filename (oi_filename obj) s = Some obj \<and> take (length prefix) (oi_filename obj) = prefix}
    \<and> (\<forall>limit offset. list_objects prefix limit offset s = take (unat limit) (drop (unat offset) full))"
  using strict_sorted_matching [OF assms, of prefix] set_matching [OF assms, of _ prefix]
  by (intro exI [of _ "matching prefix s"]) (auto simp: list_objects_page)

theorem list_objects_pages_witness:
  "\<exists>full. sorted_wrt (<) (map oi_filename full)
    \<and> list_objects ''f'' 2 1 example_store = take (unat (2 :: u32)) (drop (unat (1 :: u32)) full)"
  using list_objects_pages [OF ms_inv_example, of "''f''"] by blast

text \<open>The chunks reported as under-replicated are exactly the chunks of stored objects with fewer
  replicas on registered online nodes than the given factor.\<close>

theorem under_replicated_exact:
  assumes "ms_inv s"
  shows "set (get_under_replicated_chunks rf s) =
    {chunk. \<exists>filename obj. locate_by_filename filename s = Some obj \<and> chunk \<in> set (oi_chunks obj)
       \<and> length (filter (\<lambda>r. \<exists>n. get_node (ri_node_id r) s = Some n \<and> ni_online n) (ci_replicas chunk)) < unat rf}"
proof -
  have live: "live_replicas s chunk
      = length (filter (\<lambda>r. \<exists>n. get_node (ri_node_id r) s = Some n \<and> ni_online n) (ci_replicas chunk))" for chunk
    unfolding live_replicas_def replica_live_def get_node_def
    by (intro arg_cong [of _ _ length] filter_cong) (auto split: option.splits)
  have "set (map snd (ms_objects_by_id s)) = {obj. locate_by_filename (oi_filename obj) s = Some obj}"
    using set_matching [OF assms, of _ "[]"] by (auto simp: matching_def)
  moreover have "locate_by_filename f s = Some obj \<Longrightarrow> oi_filename obj = f" for f obj
    unfolding locate_names_of by (simp add: names_of_iff [OF ms_inv_namespace [OF assms]])
  ultimately have objs: "obj \<in> snd ` set (ms_objects_by_id s) \<longleftrightarrow> (\<exists>f. locate_by_filename f s = Some obj)" for obj
    by auto
  have "chunk \<in> set (get_under_replicated_chunks rf s) \<longleftrightarrow>
      (\<exists>obj \<in> snd ` set (ms_objects_by_id s). chunk \<in> set (oi_chunks obj) \<and> live_replicas s chunk < unat rf)" for chunk
    by (force simp: get_under_replicated_chunks_def)
  with objs have "chunk \<in> set (get_under_replicated_chunks rf s) \<longleftrightarrow> (\<exists>filename obj.
      locate_by_filename filename s = Some obj \<and> chunk \<in> set (oi_chunks obj) \<and> live_replicas s chunk < unat rf)" for chunk
    by (simp only:) blast
  then show ?thesis unfolding live by blast
qed

theorem under_replicated_exact_witness:
  "set (get_under_replicated_chunks 3 example_store) =
    {chunk. \<exists>filename obj. locate_by_filename filename example_store = Some obj
       \<and> chunk \<in> set (oi_chunks obj)
       \<and> length (filter (\<lambda>r. \<exists>n. get_node (ri_node_id r) example_store = Some n \<and> ni_online n)
           (ci_replicas chunk)) < unat (3 :: u32)}"
  by (rule under_replicated_exact [OF ms_inv_example])

text \<open>C32. The strategies \<open>LeastUsed\<close> and \<open>Random\<close> select distinct registered online nodes, as many as
  asked for or all there are, and leave the store as it was; \<open>LeastUsed\<close> orders them by chunk count
  and passes over no node with fewer chunks than one it selects.\<close>

theorem select_nodes_correct:
  assumes "ms_inv s" "strategy \<noteq> RoundRobin" "select_nodes ev cnt strategy s = (sel, s')"
  shows "s' = s \<and> distinct (map ni_id sel) \<and> set sel \<subseteq> set (online_nodes s)
    \<and> length sel = min (unat cnt) (length (online_nodes s))
    \<and> (strategy = LeastUsed \<longrightarrow> sorted (map ni_chunk_count sel)
        \<and> (\<forall>n \<in> set sel. \<forall>m \<in> set (online_nodes s) - set sel. ni_chunk_count n \<le> ni_chunk_count m))"
proof -
  let ?r = "sort_key (\<lambda>n. ev_rank ev (ni_id n)) (online_nodes s)"
  define xs where "xs = (if strategy = LeastUsed then sort_key ni_chunk_count ?r else ?r)"
  have sel: "sel = take (unat cnt) xs" "s' = s"
    using assms(2,3) by (auto simp: select_nodes_def Let_def xs_def online_nodes_def [symmetric]
        split: if_splits LoadBalanceStrategy.splits)
  have xs: "set xs = set (online_nodes s)" "length xs = length (online_nodes s)"
      "distinct (map ni_id xs)"
    using distinct_online [OF assms(1)] by (simp_all add: xs_def distinct_map_sort_key)
  have "ni_chunk_count n \<le> ni_chunk_count m" if "strategy = LeastUsed" "n \<in> set sel"
      "m \<in> set (online_nodes s) - set sel" for n m
  proof -
    have "m \<in> set (drop (unat cnt) xs)"
      using that(3) append_take_drop_id [of "unat cnt" xs] sel(1) xs(1)
      by (metis Diff_iff Un_iff set_append)
    moreover have "sorted (map ni_chunk_count (take (unat cnt) xs @ drop (unat cnt) xs))"
      using that(1) by (simp only: append_take_drop_id) (simp add: xs_def)
    ultimately show ?thesis using that(2) sel(1) unfolding map_append sorted_append by auto
  qed
  moreover have "sorted (map ni_chunk_count sel)" if "strategy = LeastUsed"
    using that by (simp add: sel(1) xs_def take_map [symmetric] sorted_wrt_take)
  ultimately show ?thesis
    using sel xs by (auto simp: take_map [symmetric] min.commute dest: in_set_takeD)
qed

theorem select_nodes_correct_witness:
  "distinct (map ni_id (fst (select_nodes example_env 5 LeastUsed example_store)))
    \<and> sorted (map ni_chunk_count (fst (select_nodes example_env 5 LeastUsed example_store)))"
  using select_nodes_correct [OF ms_inv_example _ prod.collapse [symmetric], of LeastUsed example_env 5] by simp

text \<open>Round robin walks the online nodes from its 64-bit counter on and always returns as many entries
  as asked for: with more entries than online nodes, some node is selected twice.\<close>

theorem round_robin_repeats_nodes:
  assumes "online_nodes s \<noteq> []" "select_nodes ev cnt RoundRobin s = (sel, s')"
  shows "length sel = unat cnt \<and> ms_round_robin_index s' = ms_round_robin_index s + word_of_nat (unat cnt)
    \<and> (\<forall>j < unat cnt. sel ! j = online_nodes s
         ! (unat (ms_round_robin_index s + word_of_nat j) mod length (online_nodes s)))
    \<and> (length (online_nodes s) < unat cnt \<longrightarrow> \<not> distinct sel)"
proof -
  have sel: "sel = fst (round_robin (unat cnt) (online_nodes s) (ms_round_robin_index s))"
      "ms_round_robin_index s' = snd (round_robin (unat cnt) (online_nodes s) (ms_round_robin_index s))"
    using assms by (auto simp: select_nodes_def Let_def online_nodes_def [symmetric] split: prod.splits)
  note rr = round_robin_nth [of "unat cnt" "online_nodes s" "ms_round_robin_index s", folded sel]
  have "set sel \<subseteq> set (online_nodes s)"
    using rr assms(1) by (auto simp: set_conv_nth [of sel])
  then have "card (set sel) \<le> length (online_nodes s)"
    by (meson card_length card_mono finite_set le_trans)
  with rr show ?thesis by (auto simp: distinct_card)
qed

theorem round_robin_repeats_nodes_witness:
  "\<not> distinct (fst (select_nodes example_env 3 RoundRobin
      ((MetadataStore ''p'' True None)\<lparr>ms_nodes := [(''n1'', (example_node ''n1'' 0)\<lparr>ni_online := True\<rparr>)]\<rparr>)))"
  using round_robin_repeats_nodes [OF _ prod.collapse [symmetric], of "(MetadataStore ''p'' True None)\<lparr>ms_nodes :=
      [(''n1'', (example_node ''n1'' 0)\<lparr>ni_online := True\<rparr>)]\<rparr>" example_env 3]
  by (simp add: online_nodes_def example_node_def)

text \<open>The snapshot does not determine the store: it records how many chunks an object has but none of
  their ids, sizes, checksums or replicas, so changing those leaves the text as it was.\<close>

theorem snapshot_omits_chunks:
  "snapshot_text (s\<lparr>ms_objects_by_id :=
     map (\<lambda>(i, obj). (i, obj\<lparr>oi_chunks := map f (oi_chunks obj)\<rparr>)) (ms_objects_by_id s)\<rparr>) = snapshot_text s"
proof -
  have "map (\<lambda>(_, obj). json_object obj)
      (map (\<lambda>(i, obj). (i, obj\<lparr>oi_chunks := map f (oi_chunks obj)\<rparr>)) (ms_objects_by_id s))
    = map (\<lambda>(_, obj). json_object obj) (ms_objects_by_id s)"
    by (simp add: json_object_def split_def)
  then show ?thesis unfolding snapshot_text_def by (simp del: map_map map_eq_conv)
qed

end
