(* ===== verification/Metadata_Service.thy ===== *)
theory Metadata_Service
  imports Metadata_Store
begin

text \<open>
  \<open>src/metadata/metadata_service_impl.cpp\<close>: the RPC handlers over the metadata store, with the
  conversions between the store's structs and the messages of \<open>proto/metadata.proto\<close>. A handler takes
  the fields of its request; every handler returns the status \<open>OK\<close>, so its result is the response
  message and the new store. \<open>cfg\<close> is \<open>Config::instance().cluster()\<close>. Sub-messages that a handler
  leaves unset are \<open>None\<close>.
\<close>

section \<open>Messages\<close>

record ReplicaLocation =
  rl_node_id :: string
  rl_address :: string
  rl_is_primary :: bool
  rl_version :: u32

record ChunkMetadata =
  cm_chunk_id :: string
  cm_object_id :: string
  cm_chunk_index :: u32
  cm_size :: u64
  cm_checksum :: string
  cm_version :: u32
  cm_replicas :: "ReplicaLocation list"

record ObjectMetadata =
  om_object_id :: string
  om_filename :: string
  om_size :: u64
  om_replication_factor :: u32
  om_version :: u32
  om_checksum :: string
  om_owner :: string
  om_created_at_ms :: u64
  om_updated_at_ms :: u64
  om_chunks :: "ChunkMetadata list"

record ClusterNodeInfo =
  cn_node_id :: string
  cn_address :: string
  cn_online :: bool
  cn_free_bytes :: u64
  cn_total_bytes :: u64
  cn_chunk_count :: u64
  cn_last_heartbeat_ms :: u64

record ObjectResponse =
  or_success :: bool
  or_message :: string
  or_object :: "ObjectMetadata option"

record StatusResponse =
  sr_success :: bool
  sr_message :: string

record ClusterState =
  cls_leader_id :: string
  cls_generation :: u64
  cls_nodes :: "ClusterNodeInfo list"
  cls_replication_factor :: u32

section \<open>Conversions\<close>

definition replica_to_proto :: "ReplicaInfo \<Rightarrow> ReplicaLocation" where
  "replica_to_proto r = \<lparr>rl_node_id = ri_node_id r, rl_address = ri_address r,
     rl_is_primary = ri_is_primary r, rl_version = ri_version r\<rparr>"

definition replica_from_proto :: "ReplicaLocation \<Rightarrow> ReplicaInfo" where
  "replica_from_proto r = \<lparr>ri_node_id = rl_node_id r, ri_address = rl_address r,
     ri_is_primary = rl_is_primary r, ri_version = rl_version r\<rparr>"

definition chunk_to_proto :: "ChunkInfo \<Rightarrow> ChunkMetadata" where
  "chunk_to_proto chunk = \<lparr>cm_chunk_id = ci_chunk_id chunk, cm_object_id = ci_object_id chunk,
     cm_chunk_index = ci_chunk_index chunk, cm_size = ci_size chunk, cm_checksum = ci_checksum chunk,
     cm_version = ci_version chunk, cm_replicas = map replica_to_proto (ci_replicas chunk)\<rparr>"

definition from_proto :: "ChunkMetadata \<Rightarrow> ChunkInfo" where
  "from_proto chunk = \<lparr>ci_chunk_id = cm_chunk_id chunk, ci_object_id = cm_object_id chunk,
     ci_chunk_index = cm_chunk_index chunk, ci_size = cm_size chunk, ci_checksum = cm_checksum chunk,
     ci_version = cm_version chunk, ci_replicas = map replica_from_proto (cm_replicas chunk)\<rparr>"

definition to_proto :: "ObjectInfo \<Rightarrow> ObjectMetadata" where
  "to_proto obj = \<lparr>om_object_id = oi_object_id obj, om_filename = oi_filename obj, om_size = oi_size obj,
     om_replication_factor = oi_replication_factor obj, om_version = oi_version obj,
     om_checksum = oi_checksum obj, om_owner = oi_owner obj, om_created_at_ms = oi_created_at obj,
     om_updated_at_ms = oi_updated_at obj, om_chunks = map chunk_to_proto (oi_chunks obj)\<rparr>"

text \<open>\<open>GetClusterState\<close> fills every field, \<open>SelectNodes\<close> all but the last.\<close>

definition node_to_proto :: "bool \<Rightarrow> NodeInfo \<Rightarrow> ClusterNodeInfo" where
  "node_to_proto with_heartbeat n = \<lparr>cn_node_id = ni_id n, cn_address = ni_address n,
     cn_online = ni_online n, cn_free_bytes = ni_free_bytes n, cn_total_bytes = ni_total_bytes n,
     cn_chunk_count = ni_chunk_count n,
     cn_last_heartbeat_ms = (if with_heartbeat then ni_last_heartbeat n else 0)\<rparr>"

section \<open>Handlers\<close>

text \<open>\<open>chunk_size_mb * 1024U * 1024U\<close> in 32 bits.\<close>

definition mb_to_bytes :: "u32 \<Rightarrow> u32" where
  "mb_to_bytes mb = mb * 1024 * 1024"

definition CreateObject ::
  "ClusterConfig \<Rightarrow> call_env \<Rightarrow> string \<Rightarrow> u64 \<Rightarrow> u32 \<Rightarrow> string \<Rightarrow> u32 \<Rightarrow> metadata_store
   \<Rightarrow> (ObjectResponse \<times> metadata_store) option" where
  "CreateObject cfg ev filename sz replication_factor owner req_chunk_size_mb s =
     (let chunk_size_mb = (if req_chunk_size_mb > 0 then req_chunk_size_mb else cc_chunk_size_mb cfg);
          rf = (if replication_factor > 0 then replication_factor else cc_replication_factor cfg)
      in case create_object ev filename sz rf owner (mb_to_bytes chunk_size_mb) s of
           None \<Rightarrow> None
         | Some (None, s') \<Rightarrow> Some (\<lparr>or_success = False,
               or_message = ''Object already exists or creation failed'', or_object = None\<rparr>, s')
         | Some (Some obj, s') \<Rightarrow> Some (\<lparr>or_success = True, or_message = [],
               or_object = Some (to_proto obj)\<rparr>, s'))"

definition DeleteObject :: "call_env \<Rightarrow> string \<Rightarrow> string \<Rightarrow> metadata_store \<Rightarrow> StatusResponse \<times> metadata_store" where
  "DeleteObject ev object_id filename s =
     (let (ok, s') = (if object_id \<noteq> [] then delete_object ev object_id s
                      else if filename \<noteq> [] then delete_object_by_filename ev filename s
                      else (False, s))
      in (\<lparr>sr_success = ok, sr_message = (if ok then ''Deleted'' else ''Not found'')\<rparr>, s'))"

definition LocateObject :: "string \<Rightarrow> string \<Rightarrow> metadata_store \<Rightarrow> ObjectResponse" where
  "LocateObject object_id filename s =
     (case (if object_id \<noteq> [] then locate_by_id object_id s
            else if filename \<noteq> [] then locate_by_filename filename s else None) of
        None \<Rightarrow> \<lparr>or_success = False, or_message = ''Object not found'', or_object = None\<rparr>
      | Some obj \<Rightarrow> \<lparr>or_success = True, or_message = [], or_object = Some (to_proto obj)\<rparr>)"

definition ListObjects :: "string \<Rightarrow> u32 \<Rightarrow> u32 \<Rightarrow> metadata_store \<Rightarrow> ObjectMetadata list \<times> u32" where
  "ListObjects prefix limit offset s =
     (let objects = list_objects prefix (if limit > 0 then limit else 1000) offset s
      in (map to_proto objects, word_of_nat (length objects)))"

definition UpdateChunk ::
  "call_env \<Rightarrow> string \<Rightarrow> ChunkMetadata \<Rightarrow> metadata_store \<Rightarrow> StatusResponse \<times> metadata_store" where
  "UpdateChunk ev object_id chunk s =
     (let (ok, s') = update_chunk ev object_id (from_proto chunk) s
      in (\<lparr>sr_success = ok, sr_message = (if ok then ''Updated'' else ''Failed'')\<rparr>, s'))"

definition RegisterNode ::
  "call_env \<Rightarrow> u64 \<Rightarrow> string \<Rightarrow> string \<Rightarrow> u64 \<Rightarrow> metadata_store \<Rightarrow> StatusResponse \<times> metadata_store" where
  "RegisterNode ev now node_id address total_bytes s =
     (let node = NodeInfo_default\<lparr>ni_id := node_id, ni_address := address, ni_total_bytes := total_bytes,
            ni_online := True, ni_last_heartbeat := now\<rparr>;
          (ok, s') = register_node ev node s
      in (\<lparr>sr_success = ok, sr_message = (if ok then ''Registered'' else ''Failed'')\<rparr>, s'))"

definition NodeHeartbeat ::
  "call_env \<Rightarrow> string \<Rightarrow> u64 \<Rightarrow> u64 \<Rightarrow> metadata_store \<Rightarrow> StatusResponse \<times> metadata_store" where
  "NodeHeartbeat ev node_id free_bytes chunk_count s =
     (let (ok, s') = update_node_heartbeat ev node_id free_bytes chunk_count s
      in (\<lparr>sr_success = ok, sr_message = (if ok then ''OK'' else ''Unknown node'')\<rparr>, s'))"

definition GetClusterState :: "ClusterConfig \<Rightarrow> metadata_store \<Rightarrow> ClusterState" where
  "GetClusterState cfg s = \<lparr>cls_leader_id = leader_id s, cls_generation = generation s,
     cls_nodes = map (node_to_proto True) (get_nodes s),
     cls_replication_factor = cc_replication_factor cfg\<rparr>"

definition requested_strategy :: "ClusterConfig \<Rightarrow> string \<Rightarrow> LoadBalanceStrategy" where
  "requested_strategy cfg strategy =
     (if strategy = ''round_robin'' then RoundRobin
      else if strategy = ''random'' then Random
      else if strategy = ''least_used'' then LeastUsed
      else cc_load_balance cfg)"

definition SelectNodes ::
  "ClusterConfig \<Rightarrow> call_env \<Rightarrow> u32 \<Rightarrow> string \<Rightarrow> metadata_store \<Rightarrow> ClusterNodeInfo list \<times> metadata_store" where
  "SelectNodes cfg ev cnt strategy s =
     (let (nodes, s') = select_nodes ev cnt (requested_strategy cfg strategy) s
      in (map (node_to_proto False) nodes, s'))"

definition MarkNodeOffline :: "call_env \<Rightarrow> string \<Rightarrow> metadata_store \<Rightarrow> StatusResponse \<times> metadata_store" where
  "MarkNodeOffline ev node_id s =
     (let (ok, s') = mark_node_offline ev node_id s
      in (\<lparr>sr_success = ok, sr_message = (if ok then ''Marked offline'' else ''Node not found'')\<rparr>, s'))"

definition GetUnderReplicatedChunks :: "ClusterConfig \<Rightarrow> metadata_store \<Rightarrow> ChunkMetadata list" where
  "GetUnderReplicatedChunks cfg s =
     map chunk_to_proto (get_under_replicated_chunks (cc_replication_factor cfg) s)"

section \<open>Lemmas\<close>

lemma replica_proto_inverse [simp]: "replica_from_proto (replica_to_proto r) = r"
  "replica_to_proto (replica_from_proto l) = l"
  by (simp_all add: replica_from_proto_def replica_to_proto_def)

lemma chunk_proto_inverse [simp]:
  "from_proto (chunk_to_proto c) = c" "chunk_to_proto (from_proto m) = m"
  by (simp_all add: from_proto_def chunk_to_proto_def comp_def)

lemma to_proto_inject: "to_proto a = to_proto b \<longleftrightarrow> a = b"
proof
  assume eq: "to_proto a = to_proto b"
  then have "map chunk_to_proto (oi_chunks a) = map chunk_to_proto (oi_chunks b)"
    by (simp add: to_proto_def)
  then have "map from_proto (map chunk_to_proto (oi_chunks a)) = map from_proto (map chunk_to_proto (oi_chunks b))"
    by (rule arg_cong)
  then have "oi_chunks a = oi_chunks b" by (simp add: comp_def)
  with eq show "a = b" by (simp add: to_proto_def)
qed simp

text \<open>A megabyte count whose byte count is zero modulo \<open>2 ^ 32\<close>.\<close>

lemma mb_to_bytes_zero: "mb_to_bytes mb = 0 \<longleftrightarrow> 4096 dvd unat mb"
proof -
  have "unat (mb_to_bytes mb) = unat mb * 1048576 mod 2 ^ 32"
    by (simp add: mb_to_bytes_def unat_word_ariths mult.commute)
  then have "mb_to_bytes mb = 0 \<longleftrightarrow> 2 ^ 32 dvd unat mb * 1048576"
    by (simp add: unat_eq_0 [symmetric] dvd_eq_mod_eq_0)
  also have "\<dots> \<longleftrightarrow> 4096 * 1048576 dvd unat mb * (1048576 :: nat)" by simp
  also have "\<dots> \<longleftrightarrow> 4096 dvd unat mb" by (rule dvd_times_right_cancel_iff) simp
  finally show ?thesis .
qed

lemma CreateObject_cases:
  assumes "CreateObject cfg ev filename sz rf owner mb s = Some (resp, s')"
  obtains "create_object ev filename sz (if rf > 0 then rf else cc_replication_factor cfg) owner
      (mb_to_bytes (if mb > 0 then mb else cc_chunk_size_mb cfg)) s = Some (None, s')" "\<not> or_success resp"
  | obj where "create_object ev filename sz (if rf > 0 then rf else cc_replication_factor cfg) owner
      (mb_to_bytes (if mb > 0 then mb else cc_chunk_size_mb cfg)) s = Some (Some obj, s')"
    "resp = \<lparr>or_success = True, or_message = [], or_object = Some (to_proto obj)\<rparr>"
  using assms unfolding CreateObject_def Let_def by (fastforce split: option.splits prod.splits)

section \<open>Properties of the service\<close>

text \<open>C33. \<open>CreateObject\<close> fails to return exactly when the file name is new, the object is not empty and the
  chunk size in megabytes (the configured one where the request has none) is a multiple of 4096,
  zero included: the byte count is then zero in 32 bits.\<close>

theorem CreateObject_never_returns:
  "CreateObject cfg ev filename sz rf owner mb s = None \<longleftrightarrow>
     ms_filename_to_id s filename = None \<and> sz \<noteq> 0
     \<and> 4096 dvd unat (if mb > 0 then mb else cc_chunk_size_mb cfg)"
proof -
  let ?mb = "if mb > 0 then mb else cc_chunk_size_mb cfg"
  let ?r = "create_object ev filename sz (if rf > 0 then rf else cc_replication_factor cfg) owner (mb_to_bytes ?mb) s"
  have "CreateObject cfg ev filename sz rf owner mb s = None \<longleftrightarrow> ?r = None"
  proof (cases ?r)
    case (Some rs)
    obtain r s' where "rs = (r, s')" by force
    with Some show ?thesis by (cases r) (simp_all add: CreateObject_def)
  qed (simp add: CreateObject_def)
  then show ?thesis by (simp only: create_object_None mb_to_bytes_zero)
qed

text \<open>C21. What is created can be located, by name and by id, exactly as the creation answered; the plan
  of its chunks covers its size; a second creation under the same name is refused and changes
  nothing. The file name is not empty and the drawn id is not in use.\<close>

theorem created_object_located:
  assumes "ms_inv s" "filename \<noteq> []" "um_find (ms_objects_by_id s) (env_uuid ev 0) = None"
    and "CreateObject cfg ev filename sz rf owner mb s = Some (resp, s')" "or_success resp"
  shows "LocateObject [] filename s' = resp \<and> LocateObject (env_uuid ev 0) [] s' = resp
    \<and> (\<exists>obj. or_object resp = Some obj \<and> sum_list (map (\<lambda>c. unat (cm_size c)) (om_chunks obj)) = unat sz)
    \<and> CreateObject cfg ev' filename sz' rf' owner' mb' s' = Some (\<lparr>or_success = False,
         or_message = ''Object already exists or creation failed'', or_object = None\<rparr>, s')"
proof -
  obtain obj where c: "create_object ev filename sz (if rf > 0 then rf else cc_replication_factor cfg) owner
      (mb_to_bytes (if mb > 0 then mb else cc_chunk_size_mb cfg)) s = Some (Some obj, s')"
    and resp: "resp = \<lparr>or_success = True, or_message = [], or_object = Some (to_proto obj)\<rparr>"
    by (rule CreateObject_cases [OF assms(4)]) (use assms(5) in auto)
  note found = created [OF assms(1,3) c]
  have "locate_by_filename filename s' = Some obj" using fun_cong [OF found(3), of filename] by simp
  then have "LocateObject [] filename s' = resp \<and> LocateObject (env_uuid ev 0) [] s' = resp"
    using found(2) assms(2) by (simp add: LocateObject_def resp)
  moreover have "sum_list (map (\<lambda>c. unat (cm_size c)) (om_chunks (to_proto obj))) = unat sz"
    using sum_spec_plan [OF create_object_SomeD(2) [OF c]] create_object_SomeD(3) [OF c]
    by (simp add: to_proto_def new_object_def chunk_to_proto_def comp_def)
  moreover have "CreateObject cfg ev' filename sz' rf' owner' mb' s' = Some (\<lparr>or_success = False,
      or_message = ''Object already exists or creation failed'', or_object = None\<rparr>, s')"
    using found(4) by (simp add: CreateObject_def create_object_taken)
  ultimately show ?thesis by (simp add: resp)
qed

theorem created_object_located_witness:
  "LocateObject [] ''a.txt'' (snd (the (CreateObject ClusterConfig_default example_env ''a.txt'' 9 2 ''me'' 1
      (MetadataStore ''p'' True None))))
   = fst (the (CreateObject ClusterConfig_default example_env ''a.txt'' 9 2 ''me'' 1 (MetadataStore ''p'' True None)))"
proof -
  let ?r = "CreateObject ClusterConfig_default example_env ''a.txt'' 9 2 ''me'' 1 (MetadataStore ''p'' True None)"
  have new: "ms_filename_to_id (MetadataStore ''p'' True None) ''a.txt'' = None"
    "um_find (ms_objects_by_id (MetadataStore ''p'' True None)) (env_uuid example_env 0) = None"
    by (simp_all add: MetadataStore_def load_def)
  have "mb_to_bytes 1 \<noteq> 0" by (simp add: mb_to_bytes_def)
  then have "\<exists>s'. ?r = Some (fst (the ?r), s') \<and> or_success (fst (the ?r))"
    by (simp add: CreateObject_def create_object_simp [OF new(1)])
  then obtain s' where "?r = Some (fst (the ?r), s')" "or_success (fst (the ?r))" by blast
  with created_object_located [OF ms_inv_initial _ new(2) this] show ?thesis
    by (metis list.distinct(1) option.sel snd_conv)
qed

end
