(* ===== verification/Chunk_Format.thy ===== *)
theory Chunk_Format
  imports Checksum "HOL-Library.Monad_Syntax"
begin

text \<open>
  \<open>src/chunk/chunk_format.cpp\<close> and its header: the on-disk encoding of a chunk. The writers append
  to the buffer they are given; the readers take the buffer and the position and return \<open>None\<close> where
  the code throws \<open>buffer underflow\<close>, which \<open>deserialize\<close> catches and turns into \<open>nullopt\<close>. Positions are
  \<open>nat\<close>: a position never exceeds the buffer's size, so \<open>pos + len\<close> with a 32-bit \<open>len\<close> cannot wrap a
  64-bit \<open>size_t\<close>. A string's length is stored in 32 bits, so strings of $2^{32}$ bytes or more are
  outside the format (\<open>valid_chunk\<close>).

  Every field is an instance of the codec interface of the prelude; the header is the sequence of
  its fields, and the round trip, uniqueness and truncation results come from the interface.
\<close>

section \<open>Definitions\<close>

definition CHUNK_MAGIC :: u32 where
  "CHUNK_MAGIC = 0x4445534B"

definition CHUNK_FORMAT_VERSION :: u32 where
  "CHUNK_FORMAT_VERSION = 1"

record ChunkHeaderData =
  ch_chunk_id :: string
  ch_object_id :: string
  ch_version :: u32
  ch_size :: u64
  ch_checksum :: string
  ch_created_at_ms :: u64

definition ChunkHeaderData_default :: ChunkHeaderData where
  "ChunkHeaderData_default = \<lparr>ch_chunk_id = [], ch_object_id = [], ch_version = 1, ch_size = 0,
     ch_checksum = [], ch_created_at_ms = 0\<rparr>"

definition append_u32 :: "bytes \<Rightarrow> u32 \<Rightarrow> bytes" where
  "append_u32 buf v = buf @
     [ucast (drop_bit 24 v AND 0xff), ucast (drop_bit 16 v AND 0xff),
      ucast (drop_bit 8 v AND 0xff), ucast (v AND 0xff)]"

definition append_u64 :: "bytes \<Rightarrow> u64 \<Rightarrow> bytes" where
  "append_u64 buf v = foldl (\<lambda>b i. b @ [ucast (drop_bit (i * 8) v AND 0xff)]) buf (rev [0..<8])"

definition append_string :: "bytes \<Rightarrow> string \<Rightarrow> bytes" where
  "append_string buf s = append_u32 buf (word_of_nat (length s)) @ bytes_of_string s"

definition read_u32 :: "bytes \<Rightarrow> nat \<Rightarrow> (u32 \<times> nat) option" where
  "read_u32 buf pos =
     (if pos + 4 > length buf then None
      else Some (push_bit 24 (ucast (buf ! pos)) OR push_bit 16 (ucast (buf ! (pos + 1)))
                 OR push_bit 8 (ucast (buf ! (pos + 2))) OR ucast (buf ! (pos + 3)), pos + 4))"

definition read_u64 :: "bytes \<Rightarrow> nat \<Rightarrow> (u64 \<times> nat) option" where
  "read_u64 buf pos =
     (if pos + 8 > length buf then None
      else Some (foldl (\<lambda>(v, p) _. (push_bit 8 v OR ucast (buf ! p), p + 1)) (0, pos) [0..<8]))"

definition read_string :: "bytes \<Rightarrow> nat \<Rightarrow> (string \<times> nat) option" where
  "read_string buf pos = do {
     (len, pos) \<leftarrow> read_u32 buf pos;
     if pos + unat len > length buf then None
     else Some (string_of_bytes (take (unat len) (drop pos buf)), pos + unat len)
   }"

definition header_size :: "ChunkHeaderData \<Rightarrow> nat" where
  "header_size header = 4 + 4 + 4 + length (ch_chunk_id header) + 4 + length (ch_object_id header)
     + 8 + 4 + length (ch_checksum header) + 8"

definition header_only_bytes :: "ChunkHeaderData \<Rightarrow> bytes" where
  "header_only_bytes header =
     (let buf = append_u32 [] CHUNK_MAGIC;
          buf = append_u32 buf (ch_version header);
          buf = append_string buf (ch_chunk_id header);
          buf = append_string buf (ch_object_id header);
          buf = append_u64 buf (ch_size header);
          buf = append_string buf (ch_checksum header)
      in append_u64 buf (ch_created_at_ms header))"

definition serialize :: "ChunkHeaderData \<Rightarrow> bytes \<Rightarrow> bytes" where
  "serialize header payload = header_only_bytes header @ payload"

definition deserialize :: "bytes \<Rightarrow> (ChunkHeaderData \<times> bytes) option" where
  "deserialize data = do {
     (magic, pos) \<leftarrow> read_u32 data 0;
     if magic \<noteq> CHUNK_MAGIC then None else do {
       (version, pos) \<leftarrow> read_u32 data pos;
       (chunk_id, pos) \<leftarrow> read_string data pos;
       (object_id, pos) \<leftarrow> read_string data pos;
       (size, pos) \<leftarrow> read_u64 data pos;
       (checksum, pos) \<leftarrow> read_string data pos;
       (created_at_ms, pos) \<leftarrow> read_u64 data pos;
       let payload = drop pos data;
       if length payload \<noteq> unat size then None
       else if \<not> verify payload checksum then None
       else Some (\<lparr>ch_chunk_id = chunk_id, ch_object_id = object_id, ch_version = version,
                   ch_size = size, ch_checksum = checksum, ch_created_at_ms = created_at_ms\<rparr>, payload)
     }
   }"

text \<open>What a well-formed chunk is: identifiers and checksum text that fit the 32-bit length fields,
  the payload size recorded in the header and the payload's own digest.\<close>

definition valid_chunk :: "ChunkHeaderData \<Rightarrow> bytes \<Rightarrow> bool" where
  "valid_chunk h p \<longleftrightarrow>
     length (ch_chunk_id h) < 2 ^ 32 \<and> length (ch_object_id h) < 2 ^ 32
     \<and> length p = unat (ch_size h) \<and> ch_checksum h = sha256 p"

section \<open>The fields are codecs\<close>

lemma append_u32_eq: "append_u32 buf v = buf @ be_bytes 4 v"
  by (simp add: append_u32_def be_bytes_def upt_conv_Cons numeral_eq_Suc)

lemma foldl_snoc_map: "foldl (\<lambda>b i. b @ [f i]) buf xs = buf @ map f xs"
  by (induction xs arbitrary: buf) simp_all

lemma append_u64_eq: "append_u64 buf v = buf @ be_bytes 8 v"
  by (simp add: append_u64_def be_bytes_def foldl_snoc_map)

lemma append_string_eq:
  "append_string buf s = buf @ be_bytes 4 (word_of_nat (length s) :: u32) @ bytes_of_string s"
  by (simp add: append_string_def append_u32_eq)

lemma read_u32_rcat:
  "read_u32 buf pos = (if pos + 4 > length buf then None
     else Some (word_rcat (take 4 (drop pos buf)), pos + 4))"
proof (cases "pos + 4 > length buf")
  case False
  then have "take 4 (drop pos buf) = [buf ! pos, buf ! (pos + 1), buf ! (pos + 2), buf ! (pos + 3)]"
    by (intro nth_equalityI) (auto simp: less_Suc_eq numeral_eq_Suc)
  with False show ?thesis by (simp only: read_u32_def join4 if_False)
qed (simp add: read_u32_def)

lemma read_u64_loop:
  fixes buf :: bytes
  assumes "pos + n \<le> length buf"
  shows "foldl (\<lambda>(v, p) _. (push_bit 8 v OR ucast (buf ! p), p + 1)) (0 :: u64, pos) [0..<n]
    = (word_rcat (take n (drop pos buf)), pos + n)"
  using assms
proof (induction n)
  case 0
  show ?case by (simp add: word_rcat_Nil)
next
  case (Suc n)
  then have "take (Suc n) (drop pos buf) = take n (drop pos buf) @ [buf ! (pos + n)]"
    by (simp add: take_Suc_conv_app_nth)
  with Suc show ?case by (simp add: word_rcat_snoc)
qed

lemma read_u64_rcat:
  "read_u64 buf pos = (if pos + 8 > length buf then None
     else Some (word_rcat (take 8 (drop pos buf)), pos + 8))"
  using read_u64_loop [of pos 8 buf] by (simp only: read_u64_def) (simp add: not_less)

text \<open>Reading a word at a position inside the buffer, as the codec interface wants it.\<close>

lemma take_drop_split:
  assumes "pos + n \<le> length buf"
  shows "buf = take pos buf @ take n (drop pos buf) @ drop (pos + n) buf"
  by (metis append_take_drop_id drop_drop add.commute)

interpretation u32_codec: byte_codec "\<lambda>_. True" "append_u32 []" read_u32
proof
  fix x :: u32 and pre post :: bytes
  show "read_u32 (pre @ append_u32 [] x @ post) (length pre)
      = Some (x, length pre + length (append_u32 [] x))"
    by (simp add: read_u32_rcat append_u32_eq word_rcat_be_bytes)
next
  fix buf pos x pos'
  assume r: "read_u32 buf pos = Some (x, pos')"
  then have len: "pos + 4 \<le> length buf" and x: "x = word_rcat (take 4 (drop pos buf))"
    and pos': "pos' = pos + 4"
    by (auto simp: read_u32_rcat split: if_splits)
  have "append_u32 [] x = take 4 (drop pos buf)"
    unfolding x append_u32_eq using len by (simp add: be_bytes_word_rcat)
  with take_drop_split [OF len] len pos'
  show "True \<and> (\<exists>pre post. buf = pre @ append_u32 [] x @ post \<and> length pre = pos
      \<and> pos' = pos + length (append_u32 [] x))"
    by (intro conjI exI [of _ "take pos buf"] exI [of _ "drop (pos + 4) buf"]) simp_all
qed

interpretation u64_codec: byte_codec "\<lambda>_. True" "append_u64 []" read_u64
proof
  fix x :: u64 and pre post :: bytes
  show "read_u64 (pre @ append_u64 [] x @ post) (length pre)
      = Some (x, length pre + length (append_u64 [] x))"
    by (simp add: read_u64_rcat append_u64_eq word_rcat_be_bytes)
next
  fix buf pos x pos'
  assume r: "read_u64 buf pos = Some (x, pos')"
  then have len: "pos + 8 \<le> length buf" and x: "x = word_rcat (take 8 (drop pos buf))"
    and pos': "pos' = pos + 8"
    by (auto simp: read_u64_rcat split: if_splits)
  have "append_u64 [] x = take 8 (drop pos buf)"
    unfolding x append_u64_eq using len by (simp add: be_bytes_word_rcat)
  with take_drop_split [OF len] len pos'
  show "True \<and> (\<exists>pre post. buf = pre @ append_u64 [] x @ post \<and> length pre = pos
      \<and> pos' = pos + length (append_u64 [] x))"
    by (intro conjI exI [of _ "take pos buf"] exI [of _ "drop (pos + 8) buf"]) simp_all
qed

lemma unat_length_u32: "n < 2 ^ 32 \<Longrightarrow> unat (word_of_nat n :: u32) = n"
  by (simp add: unat_of_nat take_bit_nat_eq_self)

interpretation string_codec: byte_codec "\<lambda>s. length s < 2 ^ 32" "append_string []" read_string
proof
  fix x :: string and pre post :: bytes
  assume x: "length x < 2 ^ 32"
  let ?n = "word_of_nat (length x) :: u32"
  have "read_u32 (pre @ append_u32 [] ?n @ bytes_of_string x @ post) (length pre)
      = Some (?n, length pre + length (append_u32 [] ?n))"
    by (rule u32_codec.rd_enc) simp
  moreover have "unat ?n = length x" using x by (rule unat_length_u32)
  ultimately show "read_string (pre @ append_string [] x @ post) (length pre)
      = Some (x, length pre + length (append_string [] x))"
    by (simp add: read_string_def append_string_def append_u32_eq)
next
  fix buf pos x pos'
  assume "read_string buf pos = Some (x, pos')"
  then obtain len q where r: "read_u32 buf pos = Some (len, q)" and le: "q + unat len \<le> length buf"
    and x: "x = string_of_bytes (take (unat len) (drop q buf))" and pos': "pos' = q + unat len"
    by (auto simp: read_string_def bind_eq_Some_conv split: if_splits)
  from r obtain pre post where buf: "buf = pre @ append_u32 [] len @ post" "length pre = pos"
      "q = pos + length (append_u32 [] len)"
    by (rule u32_codec.rdE)
  have lx: "length x = unat len" using le by (simp add: x)
  have "post = take (unat len) post @ drop (unat len) post" by simp
  moreover have "take (unat len) post = bytes_of_string x" using buf by (simp add: x)
  ultimately have post: "post = bytes_of_string x @ drop (unat len) post" by simp
  have "buf = pre @ append_string [] x @ drop (unat len) post"
    unfolding append_string_def lx using buf(1) post by simp
  moreover have "length x < 2 ^ 32" using lx unsigned_less [of len] by simp
  ultimately show "length x < 2 ^ 32 \<and> (\<exists>pre post. buf = pre @ append_string [] x @ post
      \<and> length pre = pos \<and> pos' = pos + length (append_string [] x))"
    using buf pos' lx by (auto simp: append_string_eq append_u32_eq)
qed

section \<open>The header as a sequence of fields\<close>

interpretation tail_codec: codec_pair "\<lambda>s. length s < 2 ^ 32" "append_string []" read_string
    "\<lambda>_. True" "append_u64 []" read_u64
  by unfold_locales

interpretation size_codec: codec_pair "\<lambda>_. True" "append_u64 []" read_u64
    "seq_valid (\<lambda>s. length s < 2 ^ 32) (\<lambda>_. True)" "seq_enc (append_string []) (append_u64 [])"
    "seq_rd read_string read_u64"
  by unfold_locales

abbreviation size_tail_valid :: "u64 \<times> string \<times> u64 \<Rightarrow> bool" where
  "size_tail_valid \<equiv> seq_valid (\<lambda>_. True) (seq_valid (\<lambda>s. length s < 2 ^ 32) (\<lambda>_. True))"

abbreviation size_tail_enc :: "u64 \<times> string \<times> u64 \<Rightarrow> bytes" where
  "size_tail_enc \<equiv> seq_enc (append_u64 []) (seq_enc (append_string []) (append_u64 []))"

abbreviation size_tail_rd :: "(u64 \<times> string \<times> u64) reader" where
  "size_tail_rd \<equiv> seq_rd read_u64 (seq_rd read_string read_u64)"

interpretation object_codec: codec_pair "\<lambda>s. length s < 2 ^ 32" "append_string []" read_string
    size_tail_valid size_tail_enc size_tail_rd
  by unfold_locales

interpretation chunk_codec: codec_pair "\<lambda>s. length s < 2 ^ 32" "append_string []" read_string
    "seq_valid (\<lambda>s. length s < 2 ^ 32) size_tail_valid" "seq_enc (append_string []) size_tail_enc"
    "seq_rd read_string size_tail_rd"
  by unfold_locales

interpretation version_codec: codec_pair "\<lambda>_. True" "append_u32 []" read_u32
    "seq_valid (\<lambda>s. length s < 2 ^ 32) (seq_valid (\<lambda>s. length s < 2 ^ 32) size_tail_valid)"
    "seq_enc (append_string []) (seq_enc (append_string []) size_tail_enc)"
    "seq_rd read_string (seq_rd read_string size_tail_rd)"
  by unfold_locales

text \<open>The whole header: magic number, version, chunk id, object id, size, checksum, timestamp.\<close>

type_synonym header_fields = "u32 \<times> u32 \<times> string \<times> string \<times> u64 \<times> string \<times> u64"

abbreviation fields_valid :: "header_fields \<Rightarrow> bool" where
  "fields_valid \<equiv> seq_valid (\<lambda>_. True) (seq_valid (\<lambda>_. True) (seq_valid (\<lambda>s. length s < 2 ^ 32)
     (seq_valid (\<lambda>s. length s < 2 ^ 32) size_tail_valid)))"

abbreviation fields_enc :: "header_fields \<Rightarrow> bytes" where
  "fields_enc \<equiv> seq_enc (append_u32 []) (seq_enc (append_u32 []) (seq_enc (append_string [])
     (seq_enc (append_string []) size_tail_enc)))"

abbreviation fields_rd :: "header_fields reader" where
  "fields_rd \<equiv> seq_rd read_u32 (seq_rd read_u32 (seq_rd read_string (seq_rd read_string size_tail_rd)))"

interpretation header_codec: codec_pair "\<lambda>_. True" "append_u32 []" read_u32
    "seq_valid (\<lambda>_. True) (seq_valid (\<lambda>s. length s < 2 ^ 32) (seq_valid (\<lambda>s. length s < 2 ^ 32)
       size_tail_valid))"
    "seq_enc (append_u32 []) (seq_enc (append_string []) (seq_enc (append_string []) size_tail_enc))"
    "seq_rd read_u32 (seq_rd read_string (seq_rd read_string size_tail_rd))"
  by unfold_locales

definition header_fields_of :: "ChunkHeaderData \<Rightarrow> header_fields" where
  "header_fields_of h = (CHUNK_MAGIC, ch_version h, ch_chunk_id h, ch_object_id h, ch_size h,
     ch_checksum h, ch_created_at_ms h)"

fun header_of_fields :: "header_fields \<Rightarrow> ChunkHeaderData" where
  "header_of_fields (magic, version, chunk_id, object_id, sz, checksum, created) =
     \<lparr>ch_chunk_id = chunk_id, ch_object_id = object_id, ch_version = version, ch_size = sz,
      ch_checksum = checksum, ch_created_at_ms = created\<rparr>"

lemma header_of_fields_of [simp]: "header_of_fields (header_fields_of h) = h"
  by (simp add: header_fields_of_def)

lemma header_only_bytes_fields: "header_only_bytes h = fields_enc (header_fields_of h)"
  by (simp add: header_only_bytes_def Let_def seq_enc_def header_fields_of_def append_u32_eq
      append_u64_eq append_string_eq)

lemma deserialize_fields:
  "deserialize data =
     (case fields_rd data 0 of None \<Rightarrow> None
      | Some (fs, pos) \<Rightarrow>
          (let h = header_of_fields fs; payload = drop pos data
           in if fst fs = CHUNK_MAGIC \<and> length payload = unat (ch_size h) \<and> verify payload (ch_checksum h)
              then Some (h, payload) else None))"
  by (simp add: deserialize_def seq_rd_def Let_def split: option.splits prod.splits bind_splits)

lemma fields_valid_of:
  "fields_valid (header_fields_of h) \<longleftrightarrow>
     length (ch_chunk_id h) < 2 ^ 32 \<and> length (ch_object_id h) < 2 ^ 32 \<and> length (ch_checksum h) < 2 ^ 32"
  by (simp add: seq_valid_def header_fields_of_def)

lemma fields_rd_serialize:
  assumes "fields_valid (header_fields_of h)"
  shows "fields_rd (serialize h p) 0 = Some (header_fields_of h, length (header_only_bytes h))"
  using header_codec.pair.rd_enc [OF assms, of "[]" p]
  by (simp add: serialize_def header_only_bytes_fields)

lemma fst_header_fields_of [simp]: "fst (header_fields_of h) = CHUNK_MAGIC"
  by (simp add: header_fields_of_def)

lemma deserialize_serialize:
  assumes "valid_chunk h p"
  shows "deserialize (serialize h p) = Some (h, p)"
proof -
  have "fields_valid (header_fields_of h)"
    unfolding fields_valid_of using assms by (simp add: valid_chunk_def)
  note rd = fields_rd_serialize [OF this, of p]
  with rd assms show ?thesis
    by (simp only: deserialize_fields) (simp add: Let_def serialize_def valid_chunk_def)
qed

lemma deserialize_SomeD:
  assumes "deserialize data = Some (h, p)"
  shows "data = serialize h p \<and> valid_chunk h p"
proof -
  from assms obtain fs pos where r: "fields_rd data 0 = Some (fs, pos)"
    and m: "fst fs = CHUNK_MAGIC" and h: "h = header_of_fields fs" and p: "p = drop pos data"
    and ok: "length p = unat (ch_size h)" "sha256 p = ch_checksum h"
    by (auto simp: deserialize_fields Let_def verify_def split: option.splits if_splits)
  from r obtain pre post where v: "fields_valid fs" and data: "data = pre @ fields_enc fs @ post"
      "length pre = 0" "pos = 0 + length (fields_enc fs)"
    by (rule header_codec.pair.rdE)
  have fs: "fs = header_fields_of h"
    using m h by (cases fs rule: header_of_fields.cases) (simp add: header_fields_of_def)
  have "data = serialize h p"
    using data p by (simp add: fs serialize_def header_only_bytes_fields)
  moreover have "valid_chunk h p"
    using v ok unfolding fs fields_valid_of by (simp add: valid_chunk_def)
  ultimately show ?thesis ..
qed

lemma deserialize_iff: "deserialize data = Some (h, p) \<longleftrightarrow> data = serialize h p \<and> valid_chunk h p"
  using deserialize_SomeD deserialize_serialize by metis

lemma serialize_header_determines:
  assumes "valid_chunk h p" "valid_chunk h' p'" "serialize h p @ x = serialize h' p' @ y"
  shows "h = h' \<and> p = p' \<and> x = y"
proof -
  have v: "fields_valid (header_fields_of h)" "fields_valid (header_fields_of h')"
    unfolding fields_valid_of using assms(1,2) by (simp_all add: valid_chunk_def)
  have "fields_enc (header_fields_of h) @ (p @ x) = fields_enc (header_fields_of h') @ (p' @ y)"
    using assms(3) by (simp add: serialize_def header_only_bytes_fields)
  from header_codec.pair.prefix_free [OF v this]
  have "header_of_fields (header_fields_of h) = header_of_fields (header_fields_of h')"
    and px: "p @ x = p' @ y"
    by simp_all
  then have h: "h = h'" by simp
  with assms(1,2) have "length p = length p'" by (simp add: valid_chunk_def)
  with px h show ?thesis by simp
qed

lemma length_header_only_bytes: "length (header_only_bytes h) = header_size h"
  by (simp add: header_only_bytes_def Let_def header_size_def append_u32_eq append_u64_eq
      append_string_eq)

lemma torn_rejected:
  assumes "deserialize data = Some (h, p)"
    and "torn = take n data \<or> torn = data @ extra" "torn \<noteq> data"
  shows "deserialize torn = None"
proof (rule ccontr)
  assume "deserialize torn \<noteq> None"
  then obtain h' p' where torn: "torn = serialize h' p'" "valid_chunk h' p'"
    by (auto simp: deserialize_iff)
  have data: "data = serialize h p" "valid_chunk h p"
    using assms(1) by (auto simp: deserialize_iff)
  obtain x y where "serialize h p @ x = serialize h' p' @ y"
    using assms(2) append_take_drop_id [of n data] unfolding data(1) [symmetric] torn(1) [symmetric]
    by (metis append_Nil2)
  from serialize_header_determines [OF data(2) torn(2) this] assms(3)
  show False using data(1) torn(1) by simp
qed

lemmas torn_take_rejected = torn_rejected [OF _ disjI1 [OF refl]]

section \<open>Properties\<close>

text \<open>C17. Round trip of the on-disk format, on every branch: a serialised chunk whose text fields fit
  their 32-bit lengths is read back exactly as it was written when the header records the payload's
  size and digest, and is rejected when either is wrong.\<close>

theorem chunk_round_trip:
  assumes "length (ch_chunk_id h) < 2 ^ 32" "length (ch_object_id h) < 2 ^ 32"
    and "length (ch_checksum h) < 2 ^ 32"
  shows "deserialize (serialize h p) =
    (if length p = unat (ch_size h) \<and> ch_checksum h = sha256 p then Some (h, p) else None)"
proof -
  have "fields_valid (header_fields_of h)" unfolding fields_valid_of using assms by simp
  note rd = fields_rd_serialize [OF this, of p]
  with rd show ?thesis
    by (simp only: deserialize_fields) (auto simp: Let_def serialize_def verify_def)
qed

theorem chunk_round_trip_witness:
  "deserialize (serialize \<lparr>ch_chunk_id = ''chunk-001'', ch_object_id = ''obj-001'', ch_version = 1,
      ch_size = 5, ch_checksum = sha256 (bytes_of_string ''hello''), ch_created_at_ms = 1234567890\<rparr>
     (bytes_of_string ''hello''))
   = Some (\<lparr>ch_chunk_id = ''chunk-001'', ch_object_id = ''obj-001'', ch_version = 1,
      ch_size = 5, ch_checksum = sha256 (bytes_of_string ''hello''), ch_created_at_ms = 1234567890\<rparr>,
     bytes_of_string ''hello'')"
  by (subst chunk_round_trip) simp_all

text \<open>C18. Whatever \<open>deserialize\<close> accepts is the encoding of exactly the header and payload it returns,
  with the payload of the recorded size and digest: a file has at most one reading.\<close>

theorem deserialize_sound_complete:
  "deserialize data = Some (h, p) \<longleftrightarrow>
     data = serialize h p
     \<and> length (ch_chunk_id h) < 2 ^ 32 \<and> length (ch_object_id h) < 2 ^ 32
     \<and> length p = unat (ch_size h) \<and> ch_checksum h = sha256 p"
  unfolding deserialize_iff valid_chunk_def ..

text \<open>C19. A chunk file that was cut short anywhere, or that carries extra bytes, is rejected: a torn
  write is never taken for a chunk.\<close>

theorem torn_chunk_rejected:
  assumes "deserialize data = Some (h, p)"
    and "torn = take n data \<or> torn = data @ extra" "torn \<noteq> data"
  shows "deserialize torn = None"
  using assms by (rule torn_rejected)

theorem torn_chunk_rejected_witness:
  "deserialize (take 80 (serialize \<lparr>ch_chunk_id = ''c'', ch_object_id = ''o'', ch_version = 1,
      ch_size = 5, ch_checksum = sha256 (bytes_of_string ''hello''), ch_created_at_ms = 7\<rparr>
     (bytes_of_string ''hello''))) = None"
proof -
  let ?h = "\<lparr>ch_chunk_id = ''c'', ch_object_id = ''o'', ch_version = 1, ch_size = 5,
    ch_checksum = sha256 (bytes_of_string ''hello''), ch_created_at_ms = 7\<rparr>"
  let ?p = "bytes_of_string ''hello''"
  have d: "deserialize (serialize ?h ?p) = Some (?h, ?p)"
    by (rule deserialize_serialize) (simp add: valid_chunk_def)
  have "length (serialize ?h ?p) = 107"
    by (simp add: serialize_def length_header_only_bytes header_size_def)
  then have "length (take 80 (serialize ?h ?p)) \<noteq> length (serialize ?h ?p)" by simp
  then have "take 80 (serialize ?h ?p) \<noteq> serialize ?h ?p" by metis
  from torn_chunk_rejected [OF d disjI1 [OF refl] this] show ?thesis .
qed

text \<open>\<open>header_size\<close> is the length of the bytes \<open>header_only_bytes\<close> produces, and the file starts with
  the four characters of \<open>CHUNK_MAGIC\<close>, which spell \<open>DESK\<close> where the comments and the documents say
  \<open>DSEK\<close>.\<close>

theorem header_layout:
  "length (header_only_bytes h) = header_size h
   \<and> take 4 (serialize h p) = bytes_of_string ''DESK''
   \<and> take 4 (serialize h p) \<noteq> bytes_of_string ''DSEK''"
proof -
  have "take 4 (serialize h p) = be_bytes 4 CHUNK_MAGIC"
    by (simp add: serialize_def header_only_bytes_def Let_def append_u32_eq append_u64_eq
        append_string_eq)
  also have "\<dots> = bytes_of_string ''DESK''"
    by (simp add: be_bytes_def CHUNK_MAGIC_def bytes_of_string_def upt_conv_Cons)
  finally show ?thesis
    by (simp add: length_header_only_bytes bytes_of_string_def)
qed

end
