(* ===== verification/Chunk_Store.thy ===== *)
theory Chunk_Store
  imports Chunk_Format
begin

text \<open>
  \<open>src/chunk/chunk_store.cpp\<close>: a storage node's local store, one file per chunk. The state holds the
  base path, the files of the directory by path, the index \<open>chunk_sizes_\<close> and the running total
  \<open>total_stored_\<close>. Every operation takes the store's mutex, so operations run one after the other.

  What the file system does is an argument: whether the temporary file opens, whether the stream is
  still good after \<open>file.write\<close>, how many of the bytes reach the file when the stream is closed (the
  code tests the stream before the destructor flushes it), whether the rename succeeds, whether a
  removal throws, and the current time. The lemmas show that the store implements a map from chunk
  ids to chunks, that a failed write changes no chunk, and that the accounting of sizes stays exact.
\<close>

section \<open>Definitions\<close>

record chunk_store =
  cs_base_path :: string
  cs_files :: "string \<Rightarrow> bytes option"
  cs_chunk_sizes :: "(string, u64) umap"
  cs_total_stored :: u64

record write_io =
  wio_open_ok :: bool
  wio_write_ok :: bool
  wio_flushed :: nat
  wio_rename_ok :: bool
  wio_now :: u64

datatype fs_error = FilesystemError | LengthError

datatype dir_entry = RegularFile string bytes | OtherEntry string

text \<open>\<open>fs::path::operator/\<close> with a relative right-hand side.\<close>

definition join_path :: "string \<Rightarrow> string \<Rightarrow> string" where
  "join_path base name =
     (if base = [] then name else if last base = CHR ''/'' then base @ name
      else base @ ''/'' @ name)"

definition chunk_file_path :: "string \<Rightarrow> string \<Rightarrow> string" where
  "chunk_file_path base chunk_id = join_path base (''chunk_'' @ chunk_id @ ''.data'')"

definition chunk_path :: "string \<Rightarrow> string \<Rightarrow> string" where
  "chunk_path base chunk_id = chunk_file_path base chunk_id"

text \<open>The constructor: the directory is scanned and every file that ends in \<open>.data\<close> and parses is
  entered in the index.\<close>

definition scan_entry :: "chunk_store \<Rightarrow> dir_entry \<Rightarrow> chunk_store" where
  "scan_entry s entry =
     (case entry of OtherEntry _ \<Rightarrow> s
      | RegularFile name data \<Rightarrow>
          if length name < 10 \<or> drop (length name - 5) name \<noteq> ''.data'' then s
          else (case deserialize data of None \<Rightarrow> s
                | Some (h, _) \<Rightarrow>
                    s\<lparr>cs_chunk_sizes := um_assign (\<lambda>_. 0) (ch_chunk_id h) (ch_size h) (cs_chunk_sizes s),
                      cs_total_stored := cs_total_stored s + ch_size h\<rparr>))"

definition entry_files :: "string \<Rightarrow> dir_entry list \<Rightarrow> string \<Rightarrow> bytes option" where
  "entry_files base entries =
     map_of (concat (map (\<lambda>entry. case entry of
        OtherEntry _ \<Rightarrow> [] | RegularFile name data \<Rightarrow> [(join_path base name, data)]) entries))"

definition ChunkStore :: "string \<Rightarrow> dir_entry list \<Rightarrow> chunk_store" where
  "ChunkStore base entries =
     foldl scan_entry
       \<lparr>cs_base_path = base, cs_files = entry_files base entries, cs_chunk_sizes = [],
        cs_total_stored = 0\<rparr> entries"

definition stored_header :: "u64 \<Rightarrow> ChunkHeaderData \<Rightarrow> bytes \<Rightarrow> ChunkHeaderData" where
  "stored_header now header payload =
     (let hdr = (if ch_checksum header = [] then header\<lparr>ch_checksum := sha256 payload\<rparr> else header)
      in if ch_created_at_ms hdr = 0 then hdr\<lparr>ch_created_at_ms := now\<rparr> else hdr)"

definition write_chunk ::
  "write_io \<Rightarrow> ChunkHeaderData \<Rightarrow> bytes \<Rightarrow> chunk_store \<Rightarrow> bool \<times> chunk_store" where
  "write_chunk io header payload s =
     (if length payload \<noteq> unat (ch_size header) then (False, s)
      else let checksum = sha256 payload in
      if ch_checksum header \<noteq> [] \<and> checksum \<noteq> ch_checksum header then (False, s)
      else let hdr = stored_header (wio_now io) header payload;
               data = serialize hdr payload;
               path = chunk_file_path (cs_base_path s) (ch_chunk_id header);
               tmp_path = path @ ''.tmp''
      in if \<not> wio_open_ok io then (False, s)
      else if \<not> wio_write_ok io then (False, s\<lparr>cs_files := (cs_files s)(tmp_path := None)\<rparr>)
      else let on_disk = take (wio_flushed io) data in
      if \<not> wio_rename_ok io then (False, s\<lparr>cs_files := (cs_files s)(tmp_path := None)\<rparr>)
      else let s1 = s\<lparr>cs_files := (cs_files s)(path \<mapsto> on_disk, tmp_path := None)\<rparr>;
               total = (case um_find (cs_chunk_sizes s) (ch_chunk_id header) of
                          Some old \<Rightarrow> cs_total_stored s - old | None \<Rightarrow> cs_total_stored s)
      in (True, s1\<lparr>cs_chunk_sizes :=
                     um_assign (\<lambda>_. 0) (ch_chunk_id header) (ch_size header) (cs_chunk_sizes s),
                   cs_total_stored := total + ch_size header\<rparr>))"

text \<open>\<open>readable\<close>: whether the input stream opens; where it does not, nothing is read.\<close>

definition read_chunk :: "bool \<Rightarrow> string \<Rightarrow> chunk_store \<Rightarrow> (ChunkHeaderData \<times> bytes) option" where
  "read_chunk readable chunk_id s =
     (case cs_files s (chunk_file_path (cs_base_path s) chunk_id) of
        None \<Rightarrow> None
      | Some content \<Rightarrow> deserialize (if readable then content else []))"

text \<open>\<open>offset + length\<close> is computed in 64 bits; where it wraps, the range's end lies before its
  beginning and the vector constructor throws.\<close>

definition read_chunk_range ::
  "bool \<Rightarrow> string \<Rightarrow> u64 \<Rightarrow> u64 \<Rightarrow> chunk_store \<Rightarrow> fs_error + bytes option" where
  "read_chunk_range readable chunk_id offset len s =
     (case read_chunk readable chunk_id s of
        None \<Rightarrow> Inr None
      | Some (_, payload) \<Rightarrow>
          if unat offset \<ge> length payload then Inr (Some [])
          else let e = min (unat (offset + len)) (length payload)
               in if e < unat offset then Inl LengthError
                  else Inr (Some (take (e - unat offset) (drop (unat offset) payload))))"

definition delete_chunk :: "bool \<Rightarrow> string \<Rightarrow> chunk_store \<Rightarrow> (fs_error + bool) \<times> chunk_store" where
  "delete_chunk remove_ok chunk_id s =
     (let path = chunk_file_path (cs_base_path s) chunk_id in
      if cs_files s path = None then (Inr False, s)
      else let s1 = (case um_find (cs_chunk_sizes s) chunk_id of
                       None \<Rightarrow> s
                     | Some old \<Rightarrow> s\<lparr>cs_total_stored := cs_total_stored s - old,
                                    cs_chunk_sizes := um_erase chunk_id (cs_chunk_sizes s)\<rparr>)
      in if remove_ok then (Inr True, s1\<lparr>cs_files := (cs_files s1)(path := None)\<rparr>)
         else (Inl FilesystemError, s1))"

definition chunk_exists :: "string \<Rightarrow> chunk_store \<Rightarrow> bool" where
  "chunk_exists chunk_id s \<longleftrightarrow> cs_files s (chunk_file_path (cs_base_path s) chunk_id) \<noteq> None"

text \<open>The second component is what is stored in \<open>checksum_out\<close>, \<open>None\<close> where it is left untouched.\<close>

definition verify_chunk :: "bool \<Rightarrow> string \<Rightarrow> chunk_store \<Rightarrow> bool \<times> string option" where
  "verify_chunk readable chunk_id s =
     (case read_chunk readable chunk_id s of
        None \<Rightarrow> (False, None)
      | Some (h, payload) \<Rightarrow> (verify payload (ch_checksum h), Some (ch_checksum h)))"

record ChunkStoreStats =
  st_chunk_count :: u64
  st_total_bytes :: u64
  st_free_bytes :: u64

text \<open>\<open>fs::space\<close> gives the available bytes or throws (\<open>None\<close>).\<close>

definition estimate_free_space :: "u64 option \<Rightarrow> u64" where
  "estimate_free_space space = (case space of Some available \<Rightarrow> available | None \<Rightarrow> 0)"

definition stats :: "u64 option \<Rightarrow> chunk_store \<Rightarrow> ChunkStoreStats" where
  "stats space s =
     \<lparr>st_chunk_count = word_of_nat (length (cs_chunk_sizes s)), st_total_bytes = cs_total_stored s,
      st_free_bytes = estimate_free_space space\<rparr>"

section \<open>Abstract view and invariants\<close>

text \<open>The store as a map from chunk ids to chunks.\<close>

definition chunk_view :: "chunk_store \<Rightarrow> string \<Rightarrow> (ChunkHeaderData \<times> bytes) option" where
  "chunk_view s chunk_id = read_chunk True chunk_id s"

text \<open>The accounting: the index has one entry per chunk id and the total is its sum.\<close>

definition accounting :: "chunk_store \<Rightarrow> bool" where
  "accounting s \<longleftrightarrow> um_inv (cs_chunk_sizes s) \<and> cs_total_stored s = sum_list (map snd (cs_chunk_sizes s))"

text \<open>Every chunk file holds the chunk its name says, and the index holds exactly the sizes of these.\<close>

definition indexed :: "chunk_store \<Rightarrow> bool" where
  "indexed s \<longleftrightarrow>
     (\<forall>cid. cs_files s (chunk_file_path (cs_base_path s) cid) \<noteq> None \<longrightarrow> chunk_view s cid \<noteq> None)
     \<and> (\<forall>cid. um_find (cs_chunk_sizes s) cid = map_option (\<lambda>(h, _). ch_size h) (chunk_view s cid))"

definition store_inv :: "chunk_store \<Rightarrow> bool" where
  "store_inv s \<longleftrightarrow> accounting s \<and> indexed s"

text \<open>Operations and their abstract counterparts on the map.\<close>

datatype store_op = WriteOp write_io ChunkHeaderData bytes | DeleteOp bool string

fun store_step :: "store_op \<Rightarrow> chunk_store \<Rightarrow> (fs_error + bool) \<times> chunk_store" where
  "store_step (WriteOp io h p) s = (let (ok, s') = write_chunk io h p s in (Inr ok, s'))"
| "store_step (DeleteOp remove_ok cid) s = delete_chunk remove_ok cid s"

type_synonym chunk_map = "string \<Rightarrow> (ChunkHeaderData \<times> bytes) option"

fun map_step :: "store_op \<Rightarrow> chunk_map \<Rightarrow> (fs_error + bool) \<times> chunk_map" where
  "map_step (WriteOp io h p) m =
     (if length p = unat (ch_size h) \<and> (ch_checksum h = [] \<or> ch_checksum h = sha256 p)
         \<and> wio_open_ok io \<and> wio_write_ok io \<and> wio_rename_ok io
      then (Inr True, m(ch_chunk_id h \<mapsto> (stored_header (wio_now io) h p, p)))
      else (Inr False, m))"
| "map_step (DeleteOp remove_ok cid) m =
     (if m cid = None then (Inr False, m) else (Inr True, m(cid := None)))"

text \<open>What is assumed of an operation's environment: identifiers fit the format, a successful close
  has flushed the whole file, and a removal does not throw.\<close>

fun op_ok :: "store_op \<Rightarrow> bool" where
  "op_ok (WriteOp io h p) \<longleftrightarrow> length (ch_chunk_id h) < 2 ^ 32 \<and> length (ch_object_id h) < 2 ^ 32
     \<and> length (serialize (stored_header (wio_now io) h p) p) \<le> wio_flushed io"
| "op_ok (DeleteOp remove_ok cid) \<longleftrightarrow> remove_ok"

text \<open>A directory as the store leaves it: every file with a name the scan looks at holds a chunk and is
  named after it (temporary files left by a crash have other names).\<close>

definition scanned_name :: "string \<Rightarrow> bool" where
  "scanned_name name \<longleftrightarrow> \<not> (length name < 10 \<or> drop (length name - 5) name \<noteq> ''.data'')"

fun canonical_entry :: "dir_entry \<Rightarrow> bool" where
  "canonical_entry (OtherEntry _) \<longleftrightarrow> True"
| "canonical_entry (RegularFile name data) \<longleftrightarrow> \<not> scanned_name name \<or>
     (case deserialize data of None \<Rightarrow> False | Some (h, _) \<Rightarrow> name = ''chunk_'' @ ch_chunk_id h @ ''.data'')"

fun regular_names :: "dir_entry list \<Rightarrow> string list" where
  "regular_names [] = []"
| "regular_names (OtherEntry _ # es) = regular_names es"
| "regular_names (RegularFile name _ # es) = name # regular_names es"

fun entry_chunk :: "dir_entry \<Rightarrow> (string \<times> u64) option" where
  "entry_chunk (OtherEntry _) = None"
| "entry_chunk (RegularFile name data) =
     (if scanned_name name then map_option (\<lambda>(h, _). (ch_chunk_id h, ch_size h)) (deserialize data)
      else None)"

definition scanned_chunks :: "dir_entry list \<Rightarrow> (string \<times> u64) list" where
  "scanned_chunks es = List.map_filter entry_chunk es"

section \<open>Paths\<close>

lemma join_path_prefix: "\<exists>P. \<forall>name. join_path base name = P @ name"
proof (cases "base = []")
  case True
  then show ?thesis by (intro exI [of _ "[]"]) (simp add: join_path_def)
next
  case False
  show ?thesis
  proof (cases "last base = CHR ''/''")
    case True
    with False show ?thesis by (intro exI [of _ base]) (simp add: join_path_def)
  next
    case F: False
    with False show ?thesis by (intro exI [of _ "base @ ''/''"]) (simp add: join_path_def)
  qed
qed

lemma chunk_file_path_inj [simp]:
  "chunk_file_path base a = chunk_file_path base b \<longleftrightarrow> a = b"
  using join_path_prefix [of base] by (auto simp: chunk_file_path_def)

lemma chunk_file_path_neq_tmp [simp]:
  "chunk_file_path base a \<noteq> chunk_file_path base b @ ''.tmp''"
  "chunk_file_path base b @ ''.tmp'' \<noteq> chunk_file_path base a"
proof -
  obtain P where P: "\<And>name. join_path base name = P @ name" using join_path_prefix by blast
  have "last (chunk_file_path base a) \<noteq> last (chunk_file_path base b @ ''.tmp'')"
    by (simp add: chunk_file_path_def P)
  then show neq: "chunk_file_path base a \<noteq> chunk_file_path base b @ ''.tmp''"
    by (rule contrapos_nn) (erule arg_cong)
  show "chunk_file_path base b @ ''.tmp'' \<noteq> chunk_file_path base a"
    using neq by (rule not_sym)
qed

section \<open>Reading after writing\<close>

lemma chunk_view_alt:
  "chunk_view s cid = Option.bind (cs_files s (chunk_file_path (cs_base_path s) cid)) deserialize"
  by (simp add: chunk_view_def read_chunk_def split: option.splits)

lemma chunk_view_update [simp]:
  "chunk_view (s\<lparr>cs_chunk_sizes := m\<rparr>) = chunk_view s"
  "chunk_view (s\<lparr>cs_total_stored := t\<rparr>) = chunk_view s"
  "chunk_view (s\<lparr>cs_files := (cs_files s)(chunk_file_path (cs_base_path s) cid @ ''.tmp'' := f)\<rparr>)
    = chunk_view s"
  by (auto simp: chunk_view_alt fun_eq_iff)

lemma chunk_view_files:
  "chunk_view (s\<lparr>cs_files := (cs_files s)(chunk_file_path (cs_base_path s) cid := f)\<rparr>)
    = (chunk_view s)(cid := Option.bind f deserialize)"
  by (auto simp: chunk_view_alt fun_eq_iff)

lemma chunk_view_written:
  "chunk_view (s\<lparr>cs_files := (cs_files s)(chunk_file_path (cs_base_path s) cid \<mapsto> d,
      chunk_file_path (cs_base_path s) cid @ ''.tmp'' := None)\<rparr>)
    = (chunk_view s)(cid := deserialize d)"
  by (auto simp: chunk_view_alt fun_eq_iff)

lemma stored_header_fields [simp]:
  "ch_chunk_id (stored_header now h p) = ch_chunk_id h"
  "ch_object_id (stored_header now h p) = ch_object_id h"
  "ch_size (stored_header now h p) = ch_size h"
  "ch_version (stored_header now h p) = ch_version h"
  by (simp_all add: stored_header_def Let_def)

lemma stored_header_valid:
  assumes "length p = unat (ch_size h)" "ch_checksum h = [] \<or> ch_checksum h = sha256 p"
    and "length (ch_chunk_id h) < 2 ^ 32" "length (ch_object_id h) < 2 ^ 32"
  shows "valid_chunk (stored_header now h p) p"
  using assms by (auto simp: valid_chunk_def stored_header_def Let_def)

text \<open>The three ways a write ends: refused or failed with no chunk changed, or done.\<close>

definition write_accepted :: "write_io \<Rightarrow> ChunkHeaderData \<Rightarrow> bytes \<Rightarrow> bool" where
  "write_accepted io h p \<longleftrightarrow> length p = unat (ch_size h) \<and> (ch_checksum h = [] \<or> ch_checksum h = sha256 p)
     \<and> wio_open_ok io \<and> wio_write_ok io \<and> wio_rename_ok io"

lemma write_chunk_result: "fst (write_chunk io h p s) = write_accepted io h p"
  by (auto simp: write_chunk_def Let_def write_accepted_def)

lemma write_chunk_failed:
  assumes "\<not> write_accepted io h p"
  shows "snd (write_chunk io h p s) = s
    \<or> snd (write_chunk io h p s)
        = s\<lparr>cs_files := (cs_files s)(chunk_file_path (cs_base_path s) (ch_chunk_id h) @ ''.tmp'' := None)\<rparr>"
  using assms by (auto simp: write_chunk_def Let_def write_accepted_def)

lemma write_chunk_done:
  assumes "write_accepted io h p"
  shows "write_chunk io h p s = (True, s\<lparr>
    cs_files := (cs_files s)(chunk_file_path (cs_base_path s) (ch_chunk_id h)
         \<mapsto> take (wio_flushed io) (serialize (stored_header (wio_now io) h p) p),
       chunk_file_path (cs_base_path s) (ch_chunk_id h) @ ''.tmp'' := None),
    cs_chunk_sizes := um_assign (\<lambda>_. 0) (ch_chunk_id h) (ch_size h) (cs_chunk_sizes s),
    cs_total_stored := (case um_find (cs_chunk_sizes s) (ch_chunk_id h) of
       Some old \<Rightarrow> cs_total_stored s - old | None \<Rightarrow> cs_total_stored s) + ch_size h\<rparr>)"
  using assms by (auto simp: write_chunk_def Let_def write_accepted_def)

lemma chunk_view_write:
  "chunk_view (snd (write_chunk io h p s)) =
     (if write_accepted io h p
      then (chunk_view s)(ch_chunk_id h :=
        deserialize (take (wio_flushed io) (serialize (stored_header (wio_now io) h p) p)))
      else chunk_view s)"
proof (cases "write_accepted io h p")
  case True
  then show ?thesis by (simp add: write_chunk_done chunk_view_written)
next
  case False
  with write_chunk_failed [OF False, of s] show ?thesis by auto
qed

lemma chunk_view_write_ok:
  assumes "op_ok (WriteOp io h p)" "write_accepted io h p"
  shows "chunk_view (snd (write_chunk io h p s))
    = (chunk_view s)(ch_chunk_id h \<mapsto> (stored_header (wio_now io) h p, p))"
proof -
  have "valid_chunk (stored_header (wio_now io) h p) p"
    using assms by (intro stored_header_valid) (auto simp: write_accepted_def)
  then show ?thesis
    using assms by (simp add: chunk_view_write deserialize_serialize)
qed

lemma cs_base_path_write [simp]: "cs_base_path (snd (write_chunk io h p s)) = cs_base_path s"
  by (simp add: write_chunk_def Let_def)

lemma cs_files_write:
  assumes "cid \<noteq> ch_chunk_id h"
  shows "cs_files (snd (write_chunk io h p s)) (chunk_file_path (cs_base_path s) cid)
    = cs_files s (chunk_file_path (cs_base_path s) cid)"
  using assms by (auto simp: write_chunk_def Let_def)

lemma delete_chunk_view: "chunk_view (snd (delete_chunk True cid s)) = (chunk_view s)(cid := None)"
proof (cases "cs_files s (chunk_file_path (cs_base_path s) cid) = None")
  case True
  then have "chunk_view s cid = None" by (simp add: chunk_view_alt)
  with True show ?thesis by (simp add: delete_chunk_def fun_upd_idem)
next
  case False
  then show ?thesis
    by (auto simp: delete_chunk_def Let_def chunk_view_alt fun_eq_iff split: option.splits)
qed

section \<open>The invariant\<close>

lemma accounting_write: "accounting s \<Longrightarrow> accounting (snd (write_chunk io h p s))"
proof (cases "write_accepted io h p")
  case True
  assume "accounting s"
  with True show ?thesis
    by (auto simp: accounting_def write_chunk_done um_inv_assign sum_um_assign split: option.splits)
next
  case False
  assume "accounting s"
  with write_chunk_failed [OF False, of s] show ?thesis by (auto simp: accounting_def)
qed

lemma accounting_delete: "accounting s \<Longrightarrow> accounting (snd (delete_chunk remove_ok cid s))"
  by (auto simp: accounting_def delete_chunk_def Let_def um_inv_erase sum_um_erase split: option.splits)

lemma indexed_write:
  assumes "accounting s" "indexed s" "op_ok (WriteOp io h p)"
  shows "indexed (snd (write_chunk io h p s))"
proof (cases "write_accepted io h p")
  case True
  let ?s' = "snd (write_chunk io h p s)"
  have view: "chunk_view ?s' = (chunk_view s)(ch_chunk_id h \<mapsto> (stored_header (wio_now io) h p, p))"
    using assms(3) True by (rule chunk_view_write_ok)
  have "um_find (cs_chunk_sizes ?s') = (um_find (cs_chunk_sizes s))(ch_chunk_id h \<mapsto> ch_size h)"
    using assms(1) True by (simp add: write_chunk_done um_simps accounting_def)
  with view assms(2) show ?thesis by (auto simp: indexed_def cs_files_write)
next
  case False
  then have "chunk_view (snd (write_chunk io h p s)) = chunk_view s" by (simp add: chunk_view_write)
  with write_chunk_failed [OF False, of s] assms(2) show ?thesis by (auto simp: indexed_def)
qed

lemma indexed_delete:
  assumes "indexed s"
  shows "indexed (snd (delete_chunk True cid s))"
proof -
  let ?s' = "snd (delete_chunk True cid s)"
  have base: "cs_base_path ?s' = cs_base_path s"
    by (simp add: delete_chunk_def Let_def split: option.splits)
  have files: "cs_files ?s' (chunk_file_path (cs_base_path s) c)
      = (if c = cid then None else cs_files s (chunk_file_path (cs_base_path s) c))" for c
    by (auto simp: delete_chunk_def Let_def split: option.splits)
  have "um_find (cs_chunk_sizes ?s') = (um_find (cs_chunk_sizes s))(cid := None)"
    using assms by (auto simp: delete_chunk_def Let_def um_simps indexed_def chunk_view_alt fun_eq_iff
        split: option.splits)
  with assms delete_chunk_view [of cid s] show ?thesis
    by (auto simp: indexed_def base files)
qed

lemma delete_chunk_result:
  "fst (delete_chunk True cid s) = Inr (cs_files s (chunk_file_path (cs_base_path s) cid) \<noteq> None)"
  by (simp add: delete_chunk_def Let_def)

lemma store_inv_write: "store_inv s \<Longrightarrow> op_ok (WriteOp io h p) \<Longrightarrow> store_inv (snd (write_chunk io h p s))"
  by (simp add: store_inv_def accounting_write indexed_write del: op_ok.simps)

lemma store_inv_delete: "store_inv s \<Longrightarrow> store_inv (snd (delete_chunk True cid s))"
  by (simp add: store_inv_def accounting_delete indexed_delete)

lemma store_inv_exists:
  "store_inv s \<Longrightarrow> cs_files s (chunk_file_path (cs_base_path s) cid) = None \<longleftrightarrow> chunk_view s cid = None"
  by (auto simp: store_inv_def indexed_def chunk_view_alt)

interpretation store_sim: simulation store_step map_step chunk_view store_inv "\<lambda>op _. op_ok op"
proof
  fix s op r s'
  assume inv: "store_inv s" and ok: "op_ok op" and step: "store_step op s = (r, s')"
  show "map_step op (chunk_view s) = (r, chunk_view s')"
  proof (cases op)
    case (WriteOp io h p)
    have "s' = snd (write_chunk io h p s)" "r = Inr (write_accepted io h p)"
      using step WriteOp write_chunk_result [of io h p s] by (auto split: prod.splits)
    then show ?thesis
      using ok chunk_view_write_ok [of io h p s] chunk_view_write [of io h p s] unfolding WriteOp
      by (cases "write_accepted io h p") (auto simp: write_accepted_def)
  next
    case (DeleteOp remove_ok cid)
    have s': "s' = snd (delete_chunk True cid s)" and r: "r = fst (delete_chunk True cid s)"
      using step ok by (simp_all add: DeleteOp)
    have "r = Inr (chunk_view s cid \<noteq> None)"
      using r store_inv_exists [OF inv, of cid] by (simp only: delete_chunk_result)
    moreover have "chunk_view s' = (chunk_view s)(cid := None)"
      unfolding s' by (rule delete_chunk_view)
    ultimately show ?thesis by (auto simp: DeleteOp fun_upd_idem)
  qed
  show "store_inv s'"
  proof (cases op)
    case (WriteOp io h p)
    then have "s' = snd (write_chunk io h p s)" using step by (auto split: prod.splits)
    with inv ok WriteOp show ?thesis by (simp add: store_inv_write del: op_ok.simps)
  next
    case (DeleteOp remove_ok cid)
    then have "s' = snd (delete_chunk True cid s)" using step ok by simp
    with inv show ?thesis by (simp add: store_inv_delete)
  qed
qed

section \<open>Opening a directory\<close>

lemma scan_entry_frame [simp]:
  "cs_files (foldl scan_entry s es) = cs_files s"
  "cs_base_path (foldl scan_entry s es) = cs_base_path s"
  by (induction es arbitrary: s)
    (simp_all add: scan_entry_def split: dir_entry.splits option.splits)

lemma scan_entry_chunk:
  "scan_entry s e = (case entry_chunk e of None \<Rightarrow> s
     | Some (cid, sz) \<Rightarrow> s\<lparr>cs_chunk_sizes := um_assign (\<lambda>_. 0) cid sz (cs_chunk_sizes s),
         cs_total_stored := cs_total_stored s + sz\<rparr>)"
proof (cases e)
  case (RegularFile name data)
  then show ?thesis by (cases "deserialize data") (auto simp: scan_entry_def scanned_name_def)
qed (simp add: scan_entry_def)

lemma scanned_chunks_simps [simp]:
  "scanned_chunks [] = []"
  "scanned_chunks (e # es) = (case entry_chunk e of None \<Rightarrow> scanned_chunks es
     | Some c \<Rightarrow> c # scanned_chunks es)"
  by (simp_all add: scanned_chunks_def map_filter_simps split: option.splits)

lemma set_scanned_chunks: "c \<in> set (scanned_chunks es) \<longleftrightarrow> Some c \<in> entry_chunk ` set es"
  by (induction es) (auto split: option.splits)

lemma scan_entries:
  assumes "accounting s" "distinct (map fst (scanned_chunks es))"
    and "\<And>cid. cid \<in> fst ` set (scanned_chunks es) \<Longrightarrow> um_find (cs_chunk_sizes s) cid = None"
  shows "accounting (foldl scan_entry s es)
    \<and> um_find (cs_chunk_sizes (foldl scan_entry s es))
        = um_find (cs_chunk_sizes s) ++ map_of (scanned_chunks es)"
  using assms
proof (induction es arbitrary: s)
  case (Cons e es)
  show ?case
  proof (cases "entry_chunk e")
    case None
    with Cons show ?thesis by (simp add: scan_entry_chunk)
  next
    case (Some c)
    obtain cid sz where c: "c = (cid, sz)" by force
    let ?s1 = "s\<lparr>cs_chunk_sizes := um_assign (\<lambda>_. 0) cid sz (cs_chunk_sizes s),
      cs_total_stored := cs_total_stored s + sz\<rparr>"
    have new: "um_find (cs_chunk_sizes s) cid = None" using Cons.prems(3) Some c by simp
    have find: "um_find (cs_chunk_sizes ?s1) = (um_find (cs_chunk_sizes s))(cid \<mapsto> sz)"
      using Cons.prems(1) by (simp add: um_simps accounting_def)
    have "accounting ?s1"
      using Cons.prems(1) new by (simp add: accounting_def um_inv_assign sum_um_assign)
    moreover have "um_find (cs_chunk_sizes ?s1) x = None" if "x \<in> fst ` set (scanned_chunks es)" for x
    proof -
      have "x \<noteq> cid" using that Cons.prems(2) Some c by (simp, blast)
      then show ?thesis using that Cons.prems(3) [of x] Some c unfolding find by simp
    qed
    ultimately have "accounting (foldl scan_entry ?s1 es)
      \<and> um_find (cs_chunk_sizes (foldl scan_entry ?s1 es))
        = (um_find (cs_chunk_sizes s))(cid \<mapsto> sz) ++ map_of (scanned_chunks es)"
      using Cons.IH [of ?s1] Cons.prems(2) Some find by simp
    moreover have "(um_find (cs_chunk_sizes s))(cid \<mapsto> sz) ++ map_of (scanned_chunks es)
      = um_find (cs_chunk_sizes s) ++ map_of (scanned_chunks (e # es))"
      using Cons.prems(2) Some c by (simp add: map_add_upd_left dom_map_of_conv_image_fst)
    moreover have "scan_entry s e = ?s1" by (simp add: scan_entry_chunk Some c)
    ultimately show ?thesis by (simp del: scanned_chunks_simps)
  qed
qed simp

lemma um_find_empty: "um_find [] = Map.empty"
  by (simp add: fun_eq_iff)

lemma accounting_ChunkStore:
  assumes "distinct (map fst (scanned_chunks entries))"
  shows "accounting (ChunkStore base entries)
    \<and> um_find (cs_chunk_sizes (ChunkStore base entries)) = map_of (scanned_chunks entries)"
  using scan_entries [OF _ assms, of "\<lparr>cs_base_path = base, cs_files = entry_files base entries,
    cs_chunk_sizes = [], cs_total_stored = 0\<rparr>"]
  unfolding ChunkStore_def by (simp add: accounting_def um_inv_def um_find_empty)

lemma ChunkStore_frame [simp]:
  "cs_files (ChunkStore base entries) = entry_files base entries"
  "cs_base_path (ChunkStore base entries) = base"
  by (simp_all add: ChunkStore_def)

lemma scanned_chunk_name: "scanned_name (''chunk_'' @ cid @ ''.data'')"
  by (simp add: scanned_name_def)

lemmas scanned_chunk_name_norm [simp] = scanned_chunk_name [simplified]

lemma set_regular_names: "name \<in> set (regular_names es) \<longleftrightarrow> (\<exists>data. RegularFile name data \<in> set es)"
  by (induction es rule: regular_names.induct) auto

lemma canonical_entry_chunk:
  assumes "canonical_entry e" "entry_chunk e = Some (cid, sz)"
  obtains data h p where "e = RegularFile (''chunk_'' @ cid @ ''.data'') data"
    "deserialize data = Some (h, p)" "ch_chunk_id h = cid" "ch_size h = sz"
proof (cases e)
  case (RegularFile name data)
  with assms that show ?thesis by (cases "deserialize data") (auto split: if_splits)
qed (use assms in simp)

lemma canonical_scanned_chunk:
  assumes "list_all canonical_entry es" "cid \<in> fst ` set (scanned_chunks es)"
  shows "\<exists>data. RegularFile (''chunk_'' @ cid @ ''.data'') data \<in> set es"
proof -
  obtain sz where "(cid, sz) \<in> set (scanned_chunks es)" using assms(2) by auto
  then obtain e where e: "e \<in> set es" "entry_chunk e = Some (cid, sz)"
    unfolding set_scanned_chunks by (metis imageE)
  moreover have "canonical_entry e" using assms(1) e(1) by (simp add: list_all_iff)
  ultimately show ?thesis by (metis canonical_entry_chunk)
qed

lemma distinct_scanned_chunks:
  assumes "list_all canonical_entry es" "distinct (regular_names es)"
  shows "distinct (map fst (scanned_chunks es))"
  using assms
proof (induction es)
  case (Cons e es)
  have IH: "distinct (map fst (scanned_chunks es))"
    using Cons by (cases e) simp_all
  show ?case
  proof (cases "entry_chunk e")
    case (Some c)
    obtain cid sz where c: "c = (cid, sz)" by force
    obtain data where e: "e = RegularFile (''chunk_'' @ cid @ ''.data'') data"
      using Cons.prems(1) Some c by (auto elim: canonical_entry_chunk)
    have "cid \<notin> fst ` set (scanned_chunks es)"
      using Cons.prems canonical_scanned_chunk [of es cid] by (auto simp: e set_regular_names)
    with IH Some c show ?thesis by simp
  qed (use IH in simp)
qed simp

lemma entry_files_iff:
  assumes "distinct (regular_names es)"
  shows "entry_files base es (join_path base name) = Some data \<longleftrightarrow> RegularFile name data \<in> set es"
  using assms
proof (induction es rule: regular_names.induct)
  case (3 n d es)
  obtain P where P: "\<And>x. join_path base x = P @ x" using join_path_prefix by blast
  from 3 show ?case by (auto simp: entry_files_def P set_regular_names)
qed (auto simp: entry_files_def)

lemma entry_files_view:
  assumes "list_all canonical_entry es" "distinct (regular_names es)"
  shows "map_of (scanned_chunks es) cid = map_option (\<lambda>(h, _). ch_size h) (chunk_view (ChunkStore base es) cid)
    \<and> (entry_files base es (chunk_file_path base cid) \<noteq> None \<longrightarrow> chunk_view (ChunkStore base es) cid \<noteq> None)"
proof (cases "entry_files base es (chunk_file_path base cid)")
  case None
  have "cid \<notin> fst ` set (scanned_chunks es)"
    using None entry_files_iff [OF assms(2)] canonical_scanned_chunk [OF assms(1)]
    by (metis chunk_file_path_def option.distinct(1))
  with None show ?thesis by (simp add: chunk_view_alt map_of_eq_None_iff)
next
  case (Some data)
  then have mem: "RegularFile (''chunk_'' @ cid @ ''.data'') data \<in> set es"
    using entry_files_iff [OF assms(2)] by (simp add: chunk_file_path_def)
  then have "canonical_entry (RegularFile (''chunk_'' @ cid @ ''.data'') data)"
    using assms(1) unfolding list_all_iff by blast
  then obtain h p where d: "deserialize data = Some (h, p)" "ch_chunk_id h = cid"
    by (cases "deserialize data") auto
  have "entry_chunk (RegularFile (''chunk_'' @ cid @ ''.data'') data) = Some (cid, ch_size h)"
    using d by simp
  then have "(cid, ch_size h) \<in> set (scanned_chunks es)"
    using mem unfolding set_scanned_chunks by (metis image_eqI)
  with distinct_scanned_chunks [OF assms] have "map_of (scanned_chunks es) cid = Some (ch_size h)"
    by (rule map_of_is_SomeI)
  with Some d show ?thesis by (simp add: chunk_view_alt)
qed

lemma store_inv_ChunkStore:
  assumes "list_all canonical_entry es" "distinct (regular_names es)"
  shows "store_inv (ChunkStore base es)"
  using entry_files_view [OF assms] accounting_ChunkStore [OF distinct_scanned_chunks [OF assms], of base]
  by (auto simp: store_inv_def indexed_def)

lemma accounting_run:
  assumes "accounting s" "run_ops store_step ops s = (rs, s')"
  shows "accounting s'"
  using assms
proof (induction ops arbitrary: s rs)
  case (Cons op ops)
  obtain r s1 where one: "store_step op s = (r, s1)" by force
  have "accounting s1"
  proof (cases op)
    case (WriteOp io h p)
    with one have "s1 = snd (write_chunk io h p s)" by (auto split: prod.splits)
    with Cons.prems(1) show ?thesis by (simp add: accounting_write)
  next
    case (DeleteOp remove_ok cid)
    with one have "s1 = snd (delete_chunk remove_ok cid s)" by simp
    with Cons.prems(1) show ?thesis by (simp add: accounting_delete)
  qed
  with Cons one show ?case by (auto split: prod.splits)
qed simp

section \<open>Properties of the store\<close>

text \<open>C13. The store implements a map from chunk ids to chunks where the file system does as \<open>op_ok\<close> says: a file that was
  closed without an error has all its bytes, a removal does not throw, and ids are shorter than \<open>2 ^ 32\<close> (opening,
  writing and renaming may fail). From any state that satisfies the invariant, every such history of writes and
  deletes (refused, failed and repeated ones included) returns what the same history returns on the map, ends in a
  state whose chunks are that map, and keeps the invariant. What happens when a close loses bytes is
  \<open>unflushed_write_loses_chunk\<close>.\<close>

theorem store_refines_map:
  assumes "store_inv s" "list_all op_ok ops" "run_ops store_step ops s = (rs, s')"
  shows "run_ops map_step ops (chunk_view s) = (rs, chunk_view s') \<and> store_inv s'"
  using store_sim.run_sim [OF assms(1) _ assms(3)] assms(2) by (simp add: run_pre_const)

definition example_io :: write_io where
  "example_io = \<lparr>wio_open_ok = True, wio_write_ok = True, wio_flushed = 1000, wio_rename_ok = True, wio_now = 7\<rparr>"

definition example_header :: "string \<Rightarrow> u64 \<Rightarrow> ChunkHeaderData" where
  "example_header cid sz = ChunkHeaderData_default\<lparr>ch_chunk_id := cid, ch_object_id := ''o'', ch_size := sz\<rparr>"

lemma store_inv_empty: "store_inv (ChunkStore base [])"
  by (simp add: store_inv_ChunkStore)

lemma length_serialize: "length (serialize h p) = header_size h + length p"
  by (simp add: serialize_def length_header_only_bytes)

lemmas example_defs = example_io_def example_header_def ChunkHeaderData_default_def stored_header_def
  length_serialize header_size_def

theorem store_refines_map_witness:
  "run_ops map_step [WriteOp example_io (example_header ''a'' 2) [1, 2], DeleteOp True ''b'']
     (chunk_view (ChunkStore ''/d'' []))
   = (let (rs, s') = run_ops store_step [WriteOp example_io (example_header ''a'' 2) [1, 2], DeleteOp True ''b'']
        (ChunkStore ''/d'' []) in (rs, chunk_view s'))"
proof -
  have "list_all op_ok [WriteOp example_io (example_header ''a'' 2) [1, 2], DeleteOp True ''b'']"
    by (simp add: example_defs)
  note run = store_refines_map [OF store_inv_empty this]
  obtain rs s' where "run_ops store_step [WriteOp example_io (example_header ''a'' 2) [1, 2],
      DeleteOp True ''b''] (ChunkStore ''/d'' []) = (rs, s')" by force
  with run [OF this] show ?thesis by (simp only: Let_def prod.case)
qed

text \<open>C28. A write that returns false changes no chunk and no statistic: whatever the file system did,
  every chunk reads as before and the index and the total are the old ones.\<close>

theorem failed_write_changes_nothing:
  assumes "write_chunk io h p s = (False, s')"
  shows "read_chunk readable cid s' = read_chunk readable cid s \<and> chunk_exists cid s' = chunk_exists cid s
    \<and> stats space s' = stats space s"
proof -
  have "\<not> write_accepted io h p" using assms write_chunk_result [of io h p s] by simp
  from write_chunk_failed [OF this, of s] assms show ?thesis
    by (auto simp: read_chunk_def chunk_exists_def stats_def)
qed

theorem failed_write_changes_nothing_witness:
  "read_chunk True ''a'' (snd (write_chunk (example_io\<lparr>wio_rename_ok := False\<rparr>) (example_header ''a'' 2) [1, 2]
      (ChunkStore ''/d'' []))) = read_chunk True ''a'' (ChunkStore ''/d'' [])"
proof -
  have "write_chunk (example_io\<lparr>wio_rename_ok := False\<rparr>) (example_header ''a'' 2) [1, 2] (ChunkStore ''/d'' [])
      = (False, snd (write_chunk (example_io\<lparr>wio_rename_ok := False\<rparr>) (example_header ''a'' 2) [1, 2]
          (ChunkStore ''/d'' [])))"
    by (simp add: prod_eq_iff write_chunk_result write_accepted_def)
  from failed_write_changes_nothing [OF this] show ?thesis by simp
qed

text \<open>A write that returns true and whose bytes all reach the disk reads back as the given chunk with
  its digest and time filled in, and is the only chunk that changes.\<close>

theorem write_then_read:
  assumes "write_chunk io h p s = (True, s')"
    and "length (ch_chunk_id h) < 2 ^ 32" "length (ch_object_id h) < 2 ^ 32"
    and "length (serialize (stored_header (wio_now io) h p) p) \<le> wio_flushed io"
  shows "read_chunk True cid s' =
    (if cid = ch_chunk_id h then Some (stored_header (wio_now io) h p, p) else read_chunk True cid s)"
proof -
  have "write_accepted io h p" "s' = snd (write_chunk io h p s)"
    using assms(1) write_chunk_result [of io h p s] by simp_all
  with chunk_view_write_ok [of io h p s] assms(2-4) show ?thesis
    by (simp add: chunk_view_def [symmetric])
qed

theorem write_then_read_witness:
  "read_chunk True ''a'' (snd (write_chunk example_io (example_header ''a'' 2) [1, 2] (ChunkStore ''/d'' [])))
    = Some (stored_header 7 (example_header ''a'' 2) [1, 2], [1, 2])"
proof -
  have "write_chunk example_io (example_header ''a'' 2) [1, 2] (ChunkStore ''/d'' [])
      = (True, snd (write_chunk example_io (example_header ''a'' 2) [1, 2] (ChunkStore ''/d'' [])))"
    by (simp add: prod_eq_iff write_chunk_result write_accepted_def example_defs)
  from write_then_read [OF this, of "''a''"] show ?thesis by (simp add: example_defs)
qed

text \<open>The stream is tested before it is closed. When the bytes still buffered then do not reach the
  disk, the torn file replaces the chunk, the write returns true and the index counts it, but the chunk
  cannot be read any more, even if an intact older version was there.\<close>

theorem unflushed_write_loses_chunk:
  assumes "write_chunk io h p s = (True, s')"
    and "length (ch_chunk_id h) < 2 ^ 32" "length (ch_object_id h) < 2 ^ 32"
    and "wio_flushed io < length (serialize (stored_header (wio_now io) h p) p)"
  shows "read_chunk True (ch_chunk_id h) s' = None \<and> chunk_exists (ch_chunk_id h) s'
    \<and> um_find (cs_chunk_sizes s') (ch_chunk_id h) \<noteq> None"
proof -
  let ?d = "serialize (stored_header (wio_now io) h p) p"
  have acc: "write_accepted io h p" and s': "s' = snd (write_chunk io h p s)"
    using assms(1) write_chunk_result [of io h p s] by simp_all
  have "valid_chunk (stored_header (wio_now io) h p) p"
    using acc assms(2,3) by (intro stored_header_valid) (auto simp: write_accepted_def)
  then have "deserialize ?d = Some (stored_header (wio_now io) h p, p)" by (rule deserialize_serialize)
  moreover have "length (take (wio_flushed io) ?d) \<noteq> length ?d" using assms(4) by simp
  then have "take (wio_flushed io) ?d \<noteq> ?d" by metis
  ultimately have "deserialize (take (wio_flushed io) ?d) = None" by (rule torn_take_rejected)
  then have "chunk_view s' (ch_chunk_id h) = None"
    using acc by (simp add: s' chunk_view_write)
  moreover have "um_find (cs_chunk_sizes s') (ch_chunk_id h) \<noteq> None"
    using acc by (simp add: s' write_chunk_done um_find_assign_same)
  ultimately show ?thesis
    using acc by (simp add: s' write_chunk_done chunk_exists_def chunk_view_def [symmetric])
qed

theorem unflushed_write_loses_chunk_witness:
  "read_chunk True ''a'' (snd (write_chunk (example_io\<lparr>wio_flushed := 0\<rparr>) (example_header ''a'' 2) [1, 2]
     (ChunkStore ''/d'' []))) = None"
proof -
  have "write_chunk (example_io\<lparr>wio_flushed := 0\<rparr>) (example_header ''a'' 2) [1, 2] (ChunkStore ''/d'' [])
      = (True, snd (write_chunk (example_io\<lparr>wio_flushed := 0\<rparr>) (example_header ''a'' 2) [1, 2]
          (ChunkStore ''/d'' [])))"
    by (simp add: prod_eq_iff write_chunk_result write_accepted_def example_defs)
  from unflushed_write_loses_chunk [OF this] show ?thesis by (simp add: example_defs)
qed

text \<open>A range read returns exactly the requested bytes that exist, except where \<open>offset + length\<close> does
  not fit in 64 bits: the range is then inverted and building the vector fails, although the request
  starts inside the chunk.\<close>

theorem read_chunk_range_spec:
  "read_chunk_range readable cid offset len s =
    (case read_chunk readable cid s of
       None \<Rightarrow> Inr None
     | Some (_, p) \<Rightarrow>
         if unat offset < length p \<and> 2 ^ 64 \<le> unat offset + unat len then Inl LengthError
         else Inr (Some (take (unat len) (drop (unat offset) p))))"
proof (cases "read_chunk readable cid s")
  case None
  then show ?thesis by (simp add: read_chunk_range_def)
next
  case (Some hp)
  obtain h p where hp: "hp = (h, p)" by force
  have "unat (offset + len) < unat offset \<longleftrightarrow> 2 ^ 64 \<le> unat offset + unat len"
    using unat_u64_less [of len] by (auto simp: unat_add_u64)
  then show ?thesis
    using Some hp by (auto simp: read_chunk_range_def Let_def min_def unat_add_u64)
qed

text \<open>C29. Opening a directory the store has written (each chunk file named after the chunk it holds, no two
  files of one name, leftover temporary files allowed) restores exactly its chunks, with index and
  total in agreement: the invariant holds and every chunk reads as the file says.\<close>

theorem reopen_restores_chunks:
  assumes "list_all canonical_entry entries" "distinct (regular_names entries)"
  shows "store_inv (ChunkStore base entries)
    \<and> (read_chunk True cid (ChunkStore base entries) = Some hp \<longleftrightarrow>
        (\<exists>data. RegularFile (''chunk_'' @ cid @ ''.data'') data \<in> set entries \<and> deserialize data = Some hp))"
proof -
  have "chunk_view (ChunkStore base entries) cid = Some hp \<longleftrightarrow>
      (\<exists>data. entry_files base entries (chunk_file_path base cid) = Some data \<and> deserialize data = Some hp)"
    by (simp add: chunk_view_alt bind_eq_Some_conv)
  then show ?thesis
    using store_inv_ChunkStore [OF assms] entry_files_iff [OF assms(2)]
    by (simp only: chunk_view_def chunk_file_path_def)
qed

theorem reopen_restores_chunks_witness:
  "read_chunk True ''a'' (ChunkStore ''/d'' [OtherEntry ''x'', RegularFile ''chunk_a.data''
      (serialize (stored_header 7 (example_header ''a'' 2) [1, 2]) [1, 2])])
    = Some (stored_header 7 (example_header ''a'' 2) [1, 2], [1, 2])"
proof -
  let ?d = "serialize (stored_header 7 (example_header ''a'' 2) [1, 2]) [1, 2]"
  have d: "deserialize ?d = Some (stored_header 7 (example_header ''a'' 2) [1, 2], [1, 2])"
    by (rule deserialize_serialize) (rule stored_header_valid; simp add: example_defs)
  have c: "canonical_entry (RegularFile ''chunk_a.data'' ?d)"
    unfolding canonical_entry.simps d by (simp add: example_defs)
  have "list_all canonical_entry [OtherEntry ''x'', RegularFile ''chunk_a.data'' ?d]"
    using c by (simp del: canonical_entry.simps(2))
  from reopen_restores_chunks [OF this, of "''/d''" "''a''"] d show ?thesis by simp
qed

text \<open>The accounting is exact in every state the store can reach, whatever the file system does, from
  any directory in which no chunk id occurs twice: one entry per chunk id, and the total of the
  statistics is the sum of the indexed sizes (in 64 bits).\<close>

theorem statistics_exact:
  assumes "distinct (map fst (scanned_chunks entries))"
    and "run_ops store_step ops (ChunkStore base entries) = (rs, s')"
  shows "distinct (map fst (cs_chunk_sizes s'))
    \<and> st_total_bytes (stats space s') = sum_list (map snd (cs_chunk_sizes s'))"
  using accounting_run [OF conjunct1 [OF accounting_ChunkStore [OF assms(1)]] assms(2)]
  by (simp add: accounting_def um_inv_def stats_def)

theorem statistics_exact_witness:
  "st_total_bytes (stats None (snd (run_ops store_step [WriteOp example_io (example_header ''a'' 2) [1, 2]]
     (ChunkStore ''/d'' []))))
   = sum_list (map snd (cs_chunk_sizes (snd (run_ops store_step
       [WriteOp example_io (example_header ''a'' 2) [1, 2]] (ChunkStore ''/d'' [])))))"
  by (rule conjunct2 [OF statistics_exact [OF _ prod.collapse [symmetric]]]) simp

text \<open>Without that condition it is not: the constructor adds the size of every file it parses to the
  total but enters a chunk id once, so two files that hold the same chunk count twice.\<close>

theorem duplicate_file_counted_twice:
  assumes "deserialize data = Some (h, p)"
  shows "stats space (ChunkStore base [RegularFile ''chunk_a.data'' data, RegularFile ''backup.data'' data])
    = \<lparr>st_chunk_count = 1, st_total_bytes = ch_size h + ch_size h, st_free_bytes = estimate_free_space space\<rparr>"
  using assms by (simp add: stats_def ChunkStore_def scan_entry_def um_assign_def um_find_def)

theorem duplicate_file_counted_twice_witness:
  "st_total_bytes (stats None (ChunkStore ''/d'' [RegularFile ''chunk_a.data''
      (serialize (stored_header 7 (example_header ''a'' 2) [1, 2]) [1, 2]), RegularFile ''backup.data''
      (serialize (stored_header 7 (example_header ''a'' 2) [1, 2]) [1, 2])])) = 4"
proof -
  have d: "deserialize (serialize (stored_header 7 (example_header ''a'' 2) [1, 2]) [1, 2])
      = Some (stored_header 7 (example_header ''a'' 2) [1, 2], [1, 2])"
    by (rule deserialize_serialize) (rule stored_header_valid; simp add: example_defs)
  show ?thesis unfolding duplicate_file_counted_twice [OF d] by (simp add: example_defs)
qed

end
