(* ===== verification/Cluster.thy ===== *)
theory Cluster
  imports Metadata_Service Chunk_Store
begin

text \<open>
  What the managers and the client see of the rest of the cluster, over gRPC.

  The storage nodes' service is not part of the sources (the repository names \<open>src/storage\<close> but does
  not hold it): its four calls are the functions of a \<open>storage_api\<close>, over a state of its own, which the
  definitions of the client, of replication and of recovery take as an argument. A call returns
  \<open>None\<close> where the status is not \<open>OK\<close>. What the callers rely on is the locale \<open>storage_contract\<close>, with
  the lemmas on writing and reading replicas; a cluster of chunk stores, one per address, satisfies it.
  The locales \<open>replica_storage\<close> (what a replicated write promises) and \<open>available_storage\<close> (calls to
  nodes that are up succeed) extend it for the replication and recovery managers, and the same cluster
  of chunk stores satisfies them too.

  The metadata service is the model of its handlers, behind a network: a call is delivered, or its
  request is lost, or its response is; in the last two cases the status is not \<open>OK\<close>. The calls of one
  run are numbered, and the environment gives each its fate and the server's environment.
\<close>

section \<open>Definitions\<close>

record 'n storage_api =
  sa_WriteChunk :: "string \<Rightarrow> ChunkHeaderData \<Rightarrow> bytes \<Rightarrow> 'n \<Rightarrow> bool option \<times> 'n"
  sa_ReadChunk :: "string \<Rightarrow> string \<Rightarrow> 'n \<Rightarrow> (bool \<times> ChunkHeaderData \<times> bytes) option \<times> 'n"
  sa_DeleteChunk :: "string \<Rightarrow> string \<Rightarrow> 'n \<Rightarrow> bool option \<times> 'n"
  sa_ReplicateChunk :: "string \<Rightarrow> ChunkHeaderData \<Rightarrow> bytes \<Rightarrow> string \<Rightarrow> 'n \<Rightarrow> bool option \<times> 'n"

datatype fate = Delivered | RequestLost | ResponseLost

record 'n world =
  w_meta :: metadata_store
  w_storage :: 'n
  w_calls :: nat

record 'n net =
  n_api :: "'n storage_api"
  n_cfg :: ClusterConfig
  n_fate :: "nat \<Rightarrow> fate"
  n_env :: "nat \<Rightarrow> call_env"
  n_now :: "nat \<Rightarrow> u64"

text \<open>A metadata call: \<open>None\<close> is a status other than \<open>OK\<close>.\<close>

definition rpc :: "'n net \<Rightarrow> (call_env \<Rightarrow> metadata_store \<Rightarrow> 'r \<times> metadata_store) \<Rightarrow> 'n world \<Rightarrow> 'r option \<times> 'n world" where
  "rpc net handler w =
     (let i = w_calls w; (r, m) = handler (n_env net i) (w_meta w); w1 = w\<lparr>w_calls := i + 1\<rparr>
      in case n_fate net i of
           Delivered \<Rightarrow> (Some r, w1\<lparr>w_meta := m\<rparr>)
         | RequestLost \<Rightarrow> (None, w1)
         | ResponseLost \<Rightarrow> (None, w1\<lparr>w_meta := m\<rparr>))"

text \<open>A metadata call whose handler may not return; without a deadline, neither does the caller.\<close>

definition rpc_partial ::
  "'n net \<Rightarrow> (call_env \<Rightarrow> metadata_store \<Rightarrow> ('r \<times> metadata_store) option) \<Rightarrow> 'n world
   \<Rightarrow> ('r option \<times> 'n world) option" where
  "rpc_partial net handler w =
     (let i = w_calls w; w1 = w\<lparr>w_calls := i + 1\<rparr>
      in case n_fate net i of
           RequestLost \<Rightarrow> Some (None, w1)
         | f \<Rightarrow> (case handler (n_env net i) (w_meta w) of
             None \<Rightarrow> None
           | Some (r, m) \<Rightarrow> Some (if f = Delivered then Some r else None, w1\<lparr>w_meta := m\<rparr>)))"

text \<open>A read-only handler.\<close>

definition readonly :: "(metadata_store \<Rightarrow> 'r) \<Rightarrow> call_env \<Rightarrow> metadata_store \<Rightarrow> 'r \<times> metadata_store" where
  "readonly f ev m = (f m, m)"

text \<open>The acknowledgements a write needs, as the client and the replication manager compute it in 32 bits.\<close>

definition required_acks :: "WriteAckPolicy \<Rightarrow> u32 \<Rightarrow> u32" where
  "required_acks policy rf = (if policy = All then rf else rf div 2 + 1)"

section \<open>The storage service's contract\<close>

text \<open>
  \<open>stored n addr cid\<close> is the digest and the payload of the chunk the node at \<open>addr\<close> holds in state \<open>n\<close>.
  An acknowledged write of a payload with its size and digest is held by the node; no write touches
  another chunk or another node, and one that is not acknowledged leaves the old chunk or the new one; an
  answered read returns what is held; reads
  change nothing. In a cluster whose nodes are all up, every held chunk is also returned.
\<close>

locale storage_contract =
  fixes api :: "'n storage_api"
    and stored :: "'n \<Rightarrow> string \<Rightarrow> string \<Rightarrow> (string \<times> bytes) option"
  assumes write_done: "sa_WriteChunk api addr h d n = (Some True, n') \<Longrightarrow>
      length d = unat (ch_size h) \<Longrightarrow> ch_checksum h = sha256 d \<Longrightarrow>
      length (ch_chunk_id h) < 2 ^ 32 \<Longrightarrow> length (ch_object_id h) < 2 ^ 32 \<Longrightarrow>
      stored n' addr (ch_chunk_id h) = Some (sha256 d, d)"
    and write_other: "sa_WriteChunk api addr h d n = (wr, n') \<Longrightarrow> cid \<noteq> ch_chunk_id h \<or> addr' \<noteq> addr \<Longrightarrow>
      stored n' addr' cid = stored n addr' cid"
    and write_undone: "sa_WriteChunk api addr h d n = (wr, n') \<Longrightarrow> wr \<noteq> Some True \<Longrightarrow>
      length d = unat (ch_size h) \<Longrightarrow> ch_checksum h = sha256 d \<Longrightarrow>
      length (ch_chunk_id h) < 2 ^ 32 \<Longrightarrow> length (ch_object_id h) < 2 ^ 32 \<Longrightarrow>
      stored n' addr (ch_chunk_id h) \<in> {stored n addr (ch_chunk_id h), Some (sha256 d, d)}"
    and read_sound: "sa_ReadChunk api addr cid n = (Some (True, h, d), n') \<Longrightarrow>
      stored n addr cid = Some (ch_checksum h, d)"
    and read_frame: "sa_ReadChunk api addr cid n = (rr, n') \<Longrightarrow> stored n' = stored n"

locale reliable_storage = storage_contract api stored
  for api :: "'n storage_api" and stored +
  assumes read_up: "stored n addr cid = Some (c, d) \<Longrightarrow>
      \<exists>h n'. sa_ReadChunk api addr cid n = (Some (True, h, d), n') \<and> ch_checksum h = c"

text \<open>What replication relies on besides: a replica sent by another node is stored as a write is.\<close>

locale replica_storage = storage_contract api stored
  for api :: "'n storage_api" and stored +
  assumes replicate_done: "sa_ReplicateChunk api addr h d source n = (Some True, n') \<Longrightarrow>
      length d = unat (ch_size h) \<Longrightarrow> ch_checksum h = sha256 d \<Longrightarrow>
      length (ch_chunk_id h) < 2 ^ 32 \<Longrightarrow> length (ch_object_id h) < 2 ^ 32 \<Longrightarrow>
      stored n' addr (ch_chunk_id h) = Some (sha256 d, d)"
    and replicate_other: "sa_ReplicateChunk api addr h d source n = (wr, n') \<Longrightarrow>
      cid \<noteq> ch_chunk_id h \<or> addr' \<noteq> addr \<Longrightarrow> stored n' addr' cid = stored n addr' cid"
    and replicate_undone: "sa_ReplicateChunk api addr h d source n = (wr, n') \<Longrightarrow> wr \<noteq> Some True \<Longrightarrow>
      length d = unat (ch_size h) \<Longrightarrow> ch_checksum h = sha256 d \<Longrightarrow>
      length (ch_chunk_id h) < 2 ^ 32 \<Longrightarrow> length (ch_object_id h) < 2 ^ 32 \<Longrightarrow>
      stored n' addr (ch_chunk_id h) \<in> {stored n addr (ch_chunk_id h), Some (sha256 d, d)}"

text \<open>A cluster in which the nodes at some addresses are up: they return what they hold and acknowledge what
  they are sent.\<close>

locale available_storage = replica_storage api stored
  for api :: "'n storage_api" and stored +
  fixes up :: "string \<Rightarrow> bool"
  assumes available_read: "up addr \<Longrightarrow> stored n addr cid = Some (c, d) \<Longrightarrow>
      \<exists>h n'. sa_ReadChunk api addr cid n = (Some (True, h, d), n')"
    and available_write: "up addr \<Longrightarrow> length d = unat (ch_size h) \<Longrightarrow> ch_checksum h = sha256 d \<Longrightarrow>
      \<exists>n'. sa_WriteChunk api addr h d n = (Some True, n')"
    and available_replicate: "up addr \<Longrightarrow> length d = unat (ch_size h) \<Longrightarrow> ch_checksum h = sha256 d \<Longrightarrow>
      \<exists>n'. sa_ReplicateChunk api addr h d source n = (Some True, n')"

text \<open>What clients that delete rely on: a delete loses chunks and does nothing else.\<close>

locale deleting_storage = replica_storage api stored
  for api :: "'n storage_api" and stored +
  assumes delete_only: "sa_DeleteChunk api addr cid n = (dr, n') \<Longrightarrow> stored n' a c \<in> {stored n a c, None}"

section \<open>A cluster of chunk stores\<close>

text \<open>One chunk store per address; every write reaches the disk.\<close>

definition full_io :: "ChunkHeaderData \<Rightarrow> bytes \<Rightarrow> write_io" where
  "full_io h d = \<lparr>wio_open_ok = True, wio_write_ok = True,
     wio_flushed = length (serialize (stored_header 1 h d) d), wio_rename_ok = True, wio_now = 1\<rparr>"

definition store_api :: "(string \<Rightarrow> chunk_store) storage_api" where
  "store_api = \<lparr>
     sa_WriteChunk = (\<lambda>addr h d n. let (ok, s) = write_chunk (full_io h d) h d (n addr) in (Some ok, n(addr := s))),
     sa_ReadChunk = (\<lambda>addr cid n. case read_chunk True cid (n addr) of
        None \<Rightarrow> (Some (False, ChunkHeaderData_default, []), n) | Some (h, d) \<Rightarrow> (Some (True, h, d), n)),
     sa_DeleteChunk = (\<lambda>addr cid n. let (r, s) = delete_chunk True cid (n addr) in (Some (r = Inr True), n(addr := s))),
     sa_ReplicateChunk = (\<lambda>addr h d source n.
        let (ok, s) = write_chunk (full_io h d) h d (n addr) in (Some ok, n(addr := s)))\<rparr>"

definition store_stored :: "(string \<Rightarrow> chunk_store) \<Rightarrow> string \<Rightarrow> string \<Rightarrow> (string \<times> bytes) option" where
  "store_stored n addr cid = map_option (\<lambda>(h, d). (ch_checksum h, d)) (chunk_view (n addr) cid)"

interpretation store_cluster: reliable_storage store_api store_stored
proof
  fix addr h d n n'
  assume w: "sa_WriteChunk store_api addr h d n = (Some True, n')" and d: "length d = unat (ch_size h)"
    "ch_checksum h = sha256 d" and ids: "length (ch_chunk_id h) < 2 ^ 32" "length (ch_object_id h) < 2 ^ 32"
  have n': "n' = n(addr := snd (write_chunk (full_io h d) h d (n addr)))"
    and acc: "write_accepted (full_io h d) h d"
    using w write_chunk_result [of "full_io h d" h d "n addr"]
    by (auto simp: store_api_def Let_def split: prod.splits)
  have "op_ok (WriteOp (full_io h d) h d)" using ids by (simp add: full_io_def)
  from chunk_view_write_ok [OF this acc] show "store_stored n' addr (ch_chunk_id h) = Some (sha256 d, d)"
    using d by (simp add: n' store_stored_def stored_header_def Let_def)
next
  fix addr h d n wr n' cid addr'
  assume "sa_WriteChunk store_api addr h d n = (wr, n')" "cid \<noteq> ch_chunk_id h \<or> addr' \<noteq> addr"
  moreover from this have "n' = n(addr := snd (write_chunk (full_io h d) h d (n addr)))"
    by (auto simp: store_api_def Let_def split: prod.splits)
  ultimately show "store_stored n' addr' cid = store_stored n addr' cid"
    by (auto simp: store_stored_def chunk_view_write)
next
  fix addr h d n wr n'
  assume "sa_WriteChunk store_api addr h d n = (wr, n')" "wr \<noteq> Some True"
  then have "n' = n(addr := snd (write_chunk (full_io h d) h d (n addr)))" "\<not> write_accepted (full_io h d) h d"
    using write_chunk_result [of "full_io h d" h d "n addr"]
    by (auto simp: store_api_def Let_def split: prod.splits)
  then show "store_stored n' addr (ch_chunk_id h) \<in> {store_stored n addr (ch_chunk_id h), Some (sha256 d, d)}"
    by (simp add: store_stored_def chunk_view_write)
next
  fix addr cid n h d n'
  assume "sa_ReadChunk store_api addr cid n = (Some (True, h, d), n')"
  then show "store_stored n addr cid = Some (ch_checksum h, d)"
    by (auto simp: store_api_def store_stored_def chunk_view_def split: option.splits)
next
  fix addr cid n rr n'
  assume "sa_ReadChunk store_api addr cid n = (rr, n')"
  then show "store_stored n' = store_stored n" by (auto simp: store_api_def split: option.splits)
next
  fix n addr cid c d
  assume "store_stored n addr cid = Some (c, d)"
  then show "\<exists>h n'. sa_ReadChunk store_api addr cid n = (Some (True, h, d), n') \<and> ch_checksum h = c"
    by (cases "read_chunk True cid (n addr)") (auto simp: store_api_def store_stored_def chunk_view_def)
qed

lemma store_replicate_write: "sa_ReplicateChunk store_api addr h d source n = sa_WriteChunk store_api addr h d n"
  by (simp add: store_api_def)

interpretation store_replicas: replica_storage store_api store_stored
  by unfold_locales (unfold store_replicate_write,
    erule store_cluster.write_done store_cluster.write_other store_cluster.write_undone; assumption)+

interpretation store_deleting: deleting_storage store_api store_stored
  by unfold_locales (auto simp: store_api_def store_stored_def Let_def delete_chunk_view split: prod.splits if_splits
    dest!: arg_cong [where f = snd])

lemma store_write_up:
  "length d = unat (ch_size h) \<Longrightarrow> ch_checksum h = sha256 d \<Longrightarrow> \<exists>n'. sa_WriteChunk store_api addr h d n = (Some True, n')"
  by (simp add: store_api_def Let_def split_def write_chunk_result write_accepted_def full_io_def)

interpretation store_available: available_storage store_api store_stored "\<lambda>_. True"
proof unfold_locales
  show "\<exists>h n'. sa_ReadChunk store_api addr cid n = (Some (True, h, d), n')" if "store_stored n addr cid = Some (c, d)"
    for addr n cid c d
    using store_cluster.read_up [OF that] by blast
qed (unfold store_replicate_write, (erule (1) store_write_up)+)

section \<open>Lemmas\<close>

lemma rpc_delivered:
  "n_fate net (w_calls w) = Delivered \<Longrightarrow> handler (n_env net (w_calls w)) (w_meta w) = (r, m) \<Longrightarrow>
   rpc net handler w = (Some r, w\<lparr>w_calls := Suc (w_calls w), w_meta := m\<rparr>)"
  by (simp add: rpc_def Let_def)

lemma rpc_storage [simp]: "w_storage (snd (rpc net handler w)) = w_storage w"
  by (simp add: rpc_def Let_def split: prod.split fate.split)

end
