(* ===== verification/Client.thy ===== *)
theory Client
  imports Cluster "HOL-Library.Sublist"
begin

text \<open>
  \<open>src/client/storage_client.cpp\<close>: the client library. An upload creates the object, then for each
  planned chunk selects nodes, writes the chunk to each, demands a quorum and records the replicas; a
  download locates the object and reads each chunk from the first replica whose digest is the recorded
  one. The lemmas carry an upload's loop invariant (what the nodes hold and what the metadata says
  after \<open>j\<close> chunks) and show that a download returns the uploaded bytes or fails.
\<close>

section \<open>Definitions\<close>

record PutResult =
  pr_success :: bool
  pr_object_id :: string
  pr_message :: string

record GetResult =
  gr_success :: bool
  gr_data :: bytes
  gr_metadata :: ObjectInfo
  gr_message :: string

definition write_chunk_to_node ::
  "'n net \<Rightarrow> string \<Rightarrow> ChunkInfo \<Rightarrow> bytes \<Rightarrow> string \<Rightarrow> 'n world \<Rightarrow> bool \<times> 'n world" where
  "write_chunk_to_node net address chunk data object_id w =
     (let h = \<lparr>ch_chunk_id = ci_chunk_id chunk, ch_object_id = object_id, ch_version = ci_version chunk,
            ch_size = word_of_nat (length data), ch_checksum = sha256 data, ch_created_at_ms = 0\<rparr>;
          (r, n) = sa_WriteChunk (n_api net) address h data (w_storage w)
      in (r = Some True, w\<lparr>w_storage := n\<rparr>))"

fun read_chunk_from_replicas ::
  "'n net \<Rightarrow> string \<Rightarrow> string \<Rightarrow> ReplicaInfo list \<Rightarrow> 'n world \<Rightarrow> bytes option \<times> 'n world" where
  "read_chunk_from_replicas net chunk_id checksum [] w = (None, w)"
| "read_chunk_from_replicas net chunk_id checksum (rep # reps) w =
     (let (r, n) = sa_ReadChunk (n_api net) (ri_address rep) chunk_id (w_storage w);
          w1 = w\<lparr>w_storage := n\<rparr>
      in case r of
           Some (True, h, data) \<Rightarrow>
             if checksum \<noteq> [] \<and> ch_checksum h \<noteq> checksum
             then read_chunk_from_replicas net chunk_id checksum reps w1
             else (Some data, w1)
         | _ \<Rightarrow> read_chunk_from_replicas net chunk_id checksum reps w1)"

text \<open>The inner loop of \<open>put\<close> over the selected nodes: the replicas written, the first of them primary.
  \<open>success_count\<close> is the number of replicas.\<close>

fun put_replicas ::
  "'n net \<Rightarrow> ChunkInfo \<Rightarrow> bytes \<Rightarrow> string \<Rightarrow> ClusterNodeInfo list \<Rightarrow> ReplicaInfo list \<Rightarrow> 'n world
   \<Rightarrow> ReplicaInfo list \<times> 'n world" where
  "put_replicas net chunk data object_id [] reps w = (reps, w)"
| "put_replicas net chunk data object_id (node # nodes) reps w =
     (let (ok, w1) = write_chunk_to_node net (cn_address node) chunk data object_id w;
          rep = \<lparr>ri_node_id = cn_node_id node, ri_address = cn_address node, ri_is_primary = (reps = []),
                 ri_version = 1\<rparr>
      in put_replicas net chunk data object_id nodes (if ok then reps @ [rep] else reps) w1)"

text \<open>The loop over the planned chunks; the result is the error message, \<open>None\<close> where the loop ends.\<close>

fun put_chunks ::
  "'n net \<Rightarrow> string \<Rightarrow> bytes \<Rightarrow> u64 \<Rightarrow> ChunkMetadata list \<Rightarrow> 'n world \<Rightarrow> string option \<times> 'n world" where
  "put_chunks net object_id data offset [] w = (None, w)"
| "put_chunks net object_id data offset (chunk_pb # rest) w =
     (let chunk_size = cm_size chunk_pb;
          chunk_data = (if chunk_size > 0 then take (unat chunk_size) (drop (unat offset) data) else []);
          chunk = \<lparr>ci_chunk_id = cm_chunk_id chunk_pb, ci_object_id = object_id,
            ci_chunk_index = cm_chunk_index chunk_pb, ci_size = chunk_size,
            ci_checksum = sha256 chunk_data, ci_version = 1, ci_replicas = []\<rparr>;
          rf = cc_replication_factor (n_cfg net);
          (sel, w1) = rpc net (\<lambda>ev. SelectNodes (n_cfg net) ev rf []) w
      in case sel of
           None \<Rightarrow> (Some ''Node selection failed'', w1)
         | Some nodes \<Rightarrow>
             (let (reps, w2) = put_replicas net chunk chunk_data object_id nodes [] w1
              in if word_of_nat (length reps) < required_acks (cc_write_ack (n_cfg net)) rf
                 then (Some (''Failed to achieve replication quorum for chunk '' @ ci_chunk_id chunk),
                       snd (rpc net (\<lambda>ev. DeleteObject ev object_id []) w2))
                 else let pb = chunk_to_proto (chunk\<lparr>ci_replicas := reps\<rparr>);
                          w3 = snd (rpc net (\<lambda>ev. UpdateChunk ev object_id pb) w2)
                      in put_chunks net object_id data (offset + chunk_size) rest w3))"

definition put :: "'n net \<Rightarrow> string \<Rightarrow> bytes \<Rightarrow> string \<Rightarrow> 'n world \<Rightarrow> (PutResult \<times> 'n world) option" where
  "put net filename data owner w =
     (let cfg = n_cfg net in
      case rpc_partial net (\<lambda>ev. CreateObject cfg ev filename (word_of_nat (length data))
              (cc_replication_factor cfg) owner (cc_chunk_size_mb cfg)) w of
        None \<Rightarrow> None
      | Some (None, w1) \<Rightarrow>
          Some (\<lparr>pr_success = False, pr_object_id = [], pr_message = ''CreateObject failed''\<rparr>, w1)
      | Some (Some resp, w1) \<Rightarrow>
          (if \<not> or_success resp
           then Some (\<lparr>pr_success = False, pr_object_id = [],
                  pr_message = (if or_message resp = [] then ''CreateObject failed'' else or_message resp)\<rparr>, w1)
           else let obj = the (or_object resp);
                    (err, w2) = put_chunks net (om_object_id obj) data 0 (om_chunks obj) w1
                in Some (case err of
                     Some msg \<Rightarrow> \<lparr>pr_success = False, pr_object_id = om_object_id obj, pr_message = msg\<rparr>
                   | None \<Rightarrow> \<lparr>pr_success = True, pr_object_id = om_object_id obj,
                              pr_message = ''Upload complete''\<rparr>, w2)))"

text \<open>\<open>filepath.find_last_of("/\\")\<close>: what follows the last separator.\<close>

definition base_name :: "string \<Rightarrow> string" where
  "base_name filepath = rev (takeWhile (\<lambda>c. c \<noteq> CHR ''/'' \<and> c \<noteq> CHR 0x5C) (rev filepath))"

text \<open>\<open>content\<close>: the file's bytes, \<open>None\<close> where it cannot be opened.\<close>

definition put_file :: "'n net \<Rightarrow> string \<Rightarrow> bytes option \<Rightarrow> 'n world \<Rightarrow> (PutResult \<times> 'n world) option" where
  "put_file net filepath content w =
     (case content of
        None \<Rightarrow> Some (\<lparr>pr_success = False, pr_object_id = [],
                  pr_message = ''Cannot open file: '' @ filepath\<rparr>, w)
      | Some data \<Rightarrow> put net (base_name filepath) data ''default'' w)"

text \<open>The loop of \<open>get\<close>: the data read so far, and the id of the chunk that could not be read.\<close>

fun get_chunks :: "'n net \<Rightarrow> ChunkMetadata list \<Rightarrow> bytes \<Rightarrow> 'n world \<Rightarrow> string option \<times> bytes \<times> 'n world" where
  "get_chunks net [] acc w = (None, acc, w)"
| "get_chunks net (cp # rest) acc w =
     (let chunk = from_proto cp;
          (r, w1) = read_chunk_from_replicas net (ci_chunk_id chunk) (ci_checksum chunk) (ci_replicas chunk) w
      in case r of
           None \<Rightarrow> (Some (ci_chunk_id chunk), acc, w1)
         | Some data \<Rightarrow> get_chunks net rest (acc @ data) w1)"

definition get_failed :: "string \<Rightarrow> GetResult" where
  "get_failed msg = \<lparr>gr_success = False, gr_data = [], gr_metadata = ObjectInfo_default, gr_message = msg\<rparr>"

definition get :: "'n net \<Rightarrow> string \<Rightarrow> 'n world \<Rightarrow> GetResult \<times> 'n world" where
  "get net filename w =
     (case rpc net (\<lambda>ev. readonly (LocateObject [] filename) ev) w of
        (None, w1) \<Rightarrow> (get_failed ''Object not found'', w1)
      | (Some resp, w1) \<Rightarrow>
          (if \<not> or_success resp then (get_failed ''Object not found'', w1)
           else let obj = the (or_object resp);
                    md = ObjectInfo_default\<lparr>oi_object_id := om_object_id obj, oi_filename := om_filename obj,
                           oi_size := om_size obj,
                           oi_chunks := replicate (length (om_chunks obj)) ChunkInfo_default\<rparr>;
                    (err, data, w2) = get_chunks net (om_chunks obj) [] w1
                in (case err of
                      Some cid \<Rightarrow> \<lparr>gr_success = False, gr_data = data, gr_metadata = md,
                                    gr_message = ''Failed to read chunk '' @ cid\<rparr>
                    | None \<Rightarrow> \<lparr>gr_success = True, gr_data = data, gr_metadata = md,
                                gr_message = ''Download complete''\<rparr>, w2)))"

text \<open>The output stream: whether it opens; the bytes written are the third component.\<close>

definition get_file :: "'n net \<Rightarrow> string \<Rightarrow> string \<Rightarrow> bool \<Rightarrow> 'n world \<Rightarrow> GetResult \<times> 'n world \<times> bytes option" where
  "get_file net filename output_path open_ok w =
     (let (result, w1) = get net filename w
      in if \<not> gr_success result then (result, w1, None)
         else if \<not> open_ok
         then (result\<lparr>gr_success := False, gr_message := ''Cannot write to '' @ output_path\<rparr>, w1, None)
         else (result, w1, Some (gr_data result)))"

definition delete_replicas :: "'n net \<Rightarrow> ChunkMetadata list \<Rightarrow> 'n \<Rightarrow> 'n" where
  "delete_replicas net chunks n =
     foldl (\<lambda>n chunk. foldl (\<lambda>n rep. snd (sa_DeleteChunk (n_api net) (rl_address rep) (cm_chunk_id chunk) n))
       n (cm_replicas chunk)) n chunks"

definition client_delete_object :: "'n net \<Rightarrow> string \<Rightarrow> 'n world \<Rightarrow> bool \<times> 'n world" where
  "client_delete_object net filename w =
     (case rpc net (\<lambda>ev. readonly (LocateObject [] filename) ev) w of
        (None, w1) \<Rightarrow> (False, w1)
      | (Some resp, w1) \<Rightarrow>
          (if \<not> or_success resp then (False, w1)
           else let w2 = w1\<lparr>w_storage := delete_replicas net (om_chunks (the (or_object resp))) (w_storage w1)\<rparr>;
                    (r, w3) = rpc net (\<lambda>ev. DeleteObject ev [] filename) w2
                in (case r of None \<Rightarrow> False | Some st \<Rightarrow> sr_success st, w3)))"

definition client_list :: "'n net \<Rightarrow> string \<Rightarrow> 'n world \<Rightarrow> ObjectInfo list \<times> 'n world" where
  "client_list net pre w =
     (case rpc net (\<lambda>ev. readonly (ListObjects pre 10000 0) ev) w of
        (None, w1) \<Rightarrow> ([], w1)
      | (Some (objs, _), w1) \<Rightarrow>
          (map (\<lambda>obj. ObjectInfo_default\<lparr>oi_object_id := om_object_id obj, oi_filename := om_filename obj,
             oi_size := om_size obj, oi_replication_factor := om_replication_factor obj,
             oi_version := om_version obj, oi_owner := om_owner obj, oi_created_at := om_created_at_ms obj,
             oi_updated_at := om_updated_at_ms obj\<rparr>) objs, w1))"

definition client_head :: "'n net \<Rightarrow> string \<Rightarrow> 'n world \<Rightarrow> ObjectInfo option \<times> 'n world" where
  "client_head net filename w =
     (case rpc net (\<lambda>ev. readonly (LocateObject [] filename) ev) w of
        (None, w1) \<Rightarrow> (None, w1)
      | (Some resp, w1) \<Rightarrow>
          (if \<not> or_success resp then (None, w1)
           else let obj = the (or_object resp)
                in (Some (ObjectInfo_default\<lparr>oi_object_id := om_object_id obj, oi_filename := om_filename obj,
                      oi_size := om_size obj, oi_replication_factor := om_replication_factor obj,
                      oi_version := om_version obj, oi_checksum := om_checksum obj, oi_owner := om_owner obj\<rparr>), w1)))"

section \<open>Writing and reading one chunk\<close>

text \<open>Every recorded replica of a chunk holds the payload.\<close>

definition replicas_hold ::
  "('n \<Rightarrow> string \<Rightarrow> string \<Rightarrow> (string \<times> bytes) option) \<Rightarrow> 'n \<Rightarrow> string \<Rightarrow> bytes \<Rightarrow> ReplicaInfo list \<Rightarrow> bool" where
  "replicas_hold stored n cid piece reps \<longleftrightarrow>
     (\<forall>r \<in> set reps. stored n (ri_address r) cid = Some (sha256 piece, piece))"

definition chunk_stored ::
  "('n \<Rightarrow> string \<Rightarrow> string \<Rightarrow> (string \<times> bytes) option) \<Rightarrow> 'n \<Rightarrow> ChunkInfo \<Rightarrow> bytes \<Rightarrow> bool" where
  "chunk_stored stored n c piece \<longleftrightarrow>
     ci_checksum c = sha256 piece \<and> replicas_hold stored n (ci_chunk_id c) piece (ci_replicas c)"

context storage_contract
begin

lemma write_node:
  assumes "n_api net = api" "length data < 2 ^ 64"
    and "length (ci_chunk_id chunk) < 2 ^ 32" "length object_id < 2 ^ 32"
    and "write_chunk_to_node net addr chunk data object_id w = (b, w')"
  shows "w_meta w' = w_meta w" "w_calls w' = w_calls w"
    "b \<Longrightarrow> stored (w_storage w') addr (ci_chunk_id chunk) = Some (sha256 data, data)"
    "\<not> b \<Longrightarrow> stored (w_storage w') addr (ci_chunk_id chunk)
        \<in> {stored (w_storage w) addr (ci_chunk_id chunk), Some (sha256 data, data)}"
    "cid \<noteq> ci_chunk_id chunk \<or> addr' \<noteq> addr \<Longrightarrow> stored (w_storage w') addr' cid = stored (w_storage w) addr' cid"
proof -
  let ?h = "\<lparr>ch_chunk_id = ci_chunk_id chunk, ch_object_id = object_id, ch_version = ci_version chunk,
    ch_size = word_of_nat (length data), ch_checksum = sha256 data, ch_created_at_ms = 0\<rparr>"
  obtain r n where wr: "sa_WriteChunk api addr ?h data (w_storage w) = (r, n)" by force
  have len: "length data = unat (ch_size ?h)"
    using assms(2) by (simp add: unsigned_of_nat take_bit_nat_eq_self)
  have w': "w' = w\<lparr>w_storage := n\<rparr>" "b = (r = Some True)"
    using assms(1,5) wr by (simp_all add: write_chunk_to_node_def)
  then show "w_meta w' = w_meta w" "w_calls w' = w_calls w" by simp_all
  show "b \<Longrightarrow> stored (w_storage w') addr (ci_chunk_id chunk) = Some (sha256 data, data)"
    using write_done [of addr ?h data "w_storage w" n] wr w' len assms(3,4) by simp
  show "\<not> b \<Longrightarrow> stored (w_storage w') addr (ci_chunk_id chunk)
      \<in> {stored (w_storage w) addr (ci_chunk_id chunk), Some (sha256 data, data)}"
    using write_undone [OF wr] w' len assms(3,4) by simp
  show "cid \<noteq> ci_chunk_id chunk \<or> addr' \<noteq> addr \<Longrightarrow> stored (w_storage w') addr' cid = stored (w_storage w) addr' cid"
    using write_other [OF wr] w' by simp
qed

lemma put_replicas_hold:
  assumes "n_api net = api" "length data < 2 ^ 64"
    and "length (ci_chunk_id chunk) < 2 ^ 32" "length object_id < 2 ^ 32"
    and "replicas_hold stored (w_storage w) (ci_chunk_id chunk) data reps"
    and "put_replicas net chunk data object_id nodes reps w = (reps', w')"
  shows "replicas_hold stored (w_storage w') (ci_chunk_id chunk) data reps'
    \<and> w_meta w' = w_meta w \<and> w_calls w' = w_calls w
    \<and> (\<forall>addr cid. cid \<noteq> ci_chunk_id chunk \<longrightarrow> stored (w_storage w') addr cid = stored (w_storage w) addr cid)"
  using assms(5,6)
proof (induction nodes arbitrary: reps w)
  case (Cons node nodes)
  obtain b w1 where w1: "write_chunk_to_node net (cn_address node) chunk data object_id w = (b, w1)" by force
  note wn = write_node [OF assms(1-4) w1]
  let ?rep = "\<lparr>ri_node_id = cn_node_id node, ri_address = cn_address node, ri_is_primary = (reps = []), ri_version = 1\<rparr>"
  let ?reps = "if b then reps @ [?rep] else reps"
  have "stored (w_storage w1) (ri_address r) (ci_chunk_id chunk) = Some (sha256 data, data)" if "r \<in> set reps" for r
    using that Cons.prems(1) wn(3-5) by (cases "ri_address r = cn_address node"; cases b) (auto simp: replicas_hold_def)
  then have "replicas_hold stored (w_storage w1) (ci_chunk_id chunk) data ?reps"
    using wn(3) by (auto simp: replicas_hold_def)
  moreover have "put_replicas net chunk data object_id nodes ?reps w1 = (reps', w')"
    using Cons.prems(2) w1 by simp
  ultimately have IH: "replicas_hold stored (w_storage w') (ci_chunk_id chunk) data reps'
      \<and> w_meta w' = w_meta w1 \<and> w_calls w' = w_calls w1
      \<and> (\<forall>addr cid. cid \<noteq> ci_chunk_id chunk \<longrightarrow> stored (w_storage w') addr cid = stored (w_storage w1) addr cid)"
    by (rule Cons.IH)
  with wn(1,2,5) show ?case by simp
qed simp

lemma read_replicas:
  assumes "n_api net = api" "c \<noteq> []"
    and "\<And>rep. rep \<in> set reps \<Longrightarrow> stored (w_storage w) (ri_address rep) cid = Some (c, piece)"
    and "read_chunk_from_replicas net cid c reps w = (r, w')"
  shows "stored (w_storage w') = stored (w_storage w) \<and> w_meta w' = w_meta w \<and> w_calls w' = w_calls w
    \<and> (r = None \<or> r = Some piece)"
  using assms(3,4)
proof (induction reps arbitrary: w)
  case (Cons rep reps)
  obtain rr n where rd: "sa_ReadChunk api (ri_address rep) cid (w_storage w) = (rr, n)" by force
  have frame: "stored n = stored (w_storage w)" using rd by (rule read_frame)
  show ?case
  proof (cases "\<exists>h d. rr = Some (True, h, d) \<and> ch_checksum h = c")
    case True
    then obtain h d where rr: "rr = Some (True, h, d)" "ch_checksum h = c" by blast
    then have "d = piece" using read_sound [of "ri_address rep" cid "w_storage w" h d n] rd Cons.prems(1) [of rep] by simp
    with Cons.prems(2) rd rr assms(1,2) frame show ?thesis by auto
  next
    case False
    then have "read_chunk_from_replicas net cid c reps (w\<lparr>w_storage := n\<rparr>) = (r, w')"
      using Cons.prems(2) rd assms(1,2)
      by (cases rr) (auto simp: Let_def split: prod.splits bool.splits if_splits)
    from Cons.IH [OF _ this] Cons.prems(1) frame show ?thesis by simp
  qed
qed simp

end

section \<open>The loops of an upload and of a download\<close>

text \<open>The pieces of the data the planned chunks stand for.\<close>

fun pieces :: "bytes \<Rightarrow> u64 \<Rightarrow> ChunkMetadata list \<Rightarrow> bytes list" where
  "pieces data offset [] = []"
| "pieces data offset (c # cs) =
     (if cm_size c > 0 then take (unat (cm_size c)) (drop (unat offset) data) else [])
       # pieces data (offset + cm_size c) cs"

lemma concat_pieces:
  assumes "unat offset + sum_list (map (\<lambda>c. unat (cm_size c)) cs) < 2 ^ 64"
  shows "concat (pieces data offset cs) = take (sum_list (map (\<lambda>c. unat (cm_size c)) cs)) (drop (unat offset) data)"
  using assms
proof (induction cs arbitrary: offset)
  case (Cons c cs)
  have off: "unat (offset + cm_size c) = unat offset + unat (cm_size c)"
    using Cons.prems by (simp add: unat_add_u64)
  have "concat (pieces data (offset + cm_size c) cs)
      = take (sum_list (map (\<lambda>c. unat (cm_size c)) cs)) (drop (unat (offset + cm_size c)) data)"
    using Cons.prems off by (intro Cons.IH) simp
  moreover have "(if cm_size c > 0 then take (unat (cm_size c)) (drop (unat offset) data) else [])
      = take (unat (cm_size c)) (drop (unat offset) data)"
    by (simp add: word_gt_0)
  ultimately show ?case by (simp add: off take_add add.commute)
qed simp

lemma length_pieces_less: "length data < 2 ^ 64 \<Longrightarrow> p \<in> set (pieces data offset cs) \<Longrightarrow> length p < 2 ^ 64"
  by (induction data offset cs rule: pieces.induct) auto

definition quorum :: "'n net \<Rightarrow> bool" where
  "quorum net \<longleftrightarrow> 0 < required_acks (cc_write_ack (n_cfg net)) (cc_replication_factor (n_cfg net))"

text \<open>The metadata call of a run in which nothing is lost.\<close>

lemma rpc_Delivered:
  assumes "\<And>i. n_fate net i = Delivered" "handler (n_env net (w_calls w)) (w_meta w) = (r, m)"
  shows "rpc net handler w = (Some r, w\<lparr>w_calls := Suc (w_calls w), w_meta := m\<rparr>)"
  using assms by (simp add: rpc_delivered)

text \<open>A chunk with a quorum of replicas on nodes that were online, on different nodes unless these were
  selected by round robin.\<close>

definition well_replicated :: "'n net \<Rightarrow> NodeInfo list \<Rightarrow> ChunkInfo \<Rightarrow> bool" where
  "well_replicated net online c \<longleftrightarrow>
     unat (required_acks (cc_write_ack (n_cfg net)) (cc_replication_factor (n_cfg net))) \<le> length (ci_replicas c)
     \<and> (cc_load_balance (n_cfg net) \<noteq> RoundRobin \<longrightarrow> distinct (map ri_node_id (ci_replicas c)))
     \<and> (\<forall>r \<in> set (ci_replicas c). \<exists>n \<in> set online. ni_id n = ri_node_id r \<and> ni_address n = ri_address r)"

lemma well_replicated_some: "quorum net \<Longrightarrow> well_replicated net online c \<Longrightarrow> ci_replicas c \<noteq> []"
  by (auto simp: quorum_def well_replicated_def word_gt_0 unat_eq_0)

lemma put_replicas_shape:
  assumes "put_replicas net chunk data oid nodes reps w = (reps', w')"
  shows "\<exists>new. reps' = reps @ new
    \<and> subseq (map (\<lambda>r. (ri_node_id r, ri_address r)) new) (map (\<lambda>n. (cn_node_id n, cn_address n)) nodes)"
  using assms
proof (induction nodes arbitrary: reps w)
  case (Cons node nodes)
  obtain b w1 where w1: "write_chunk_to_node net (cn_address node) chunk data oid w = (b, w1)" by force
  let ?rep = "\<lparr>ri_node_id = cn_node_id node, ri_address = cn_address node, ri_is_primary = (reps = []), ri_version = 1\<rparr>"
  have "put_replicas net chunk data oid nodes (if b then reps @ [?rep] else reps) w1 = (reps', w')"
    using Cons.prems w1 by simp
  from Cons.IH [OF this] obtain new where "reps' = (if b then reps @ [?rep] else reps) @ new"
      "subseq (map (\<lambda>r. (ri_node_id r, ri_address r)) new) (map (\<lambda>n. (cn_node_id n, cn_address n)) nodes)" by blast
  then show ?case by (intro exI [of _ "(if b then [?rep] else []) @ new"]) auto
qed simp

lemma subseq_set: "subseq xs ys \<Longrightarrow> set xs \<subseteq> set ys"
  by (metis set_nths_subset subseq_conv_nths)

lemma subseq_distinct: "subseq xs ys \<Longrightarrow> distinct ys \<Longrightarrow> distinct xs"
  by (metis distinct_nthsI subseq_conv_nths)

lemma put_replicas_quorum:
  assumes inv: "ms_inv m" and sel: "select_nodes ev rf (requested_strategy (n_cfg net) []) m = (sel, m')"
    and put: "put_replicas net chunk data oid (map (node_to_proto False) sel) [] w = (reps, w')"
    and acks: "\<not> word_of_nat (length reps) < required_acks (cc_write_ack (n_cfg net)) (cc_replication_factor (n_cfg net))"
  shows "well_replicated net (online_nodes m) (chunk\<lparr>ci_replicas := reps\<rparr>)"
proof -
  note on = select_nodes_online [OF inv sel]
  have sub: "subseq (map (\<lambda>r. (ri_node_id r, ri_address r)) reps) (map (\<lambda>n. (ni_id n, ni_address n)) sel)"
    using put_replicas_shape [OF put] by (auto simp: node_to_proto_def comp_def)
  then have "subseq (map ri_node_id reps) (map ni_id sel)" using subseq_map [OF sub, of fst] by (simp add: comp_def)
  then have "cc_load_balance (n_cfg net) \<noteq> RoundRobin \<longrightarrow> distinct (map ri_node_id reps)"
    using on(2) by (auto simp: requested_strategy_def dest: subseq_distinct)
  moreover have "\<exists>n \<in> set (online_nodes m). ni_id n = ri_node_id r \<and> ni_address n = ri_address r" if "r \<in> set reps" for r
    using subseq_set [OF sub] on(1) that by force
  moreover have "unat (required_acks (cc_write_ack (n_cfg net)) (cc_replication_factor (n_cfg net))) \<le> length reps"
  proof -
    have "unat (word_of_nat (length reps) :: u32) \<le> length reps" by (simp add: unsigned_of_nat take_bit_nat_less_eq_self)
    with acks show ?thesis by (simp add: word_less_nat_alt)
  qed
  ultimately show ?thesis by (simp add: well_replicated_def)
qed

context storage_contract
begin

text \<open>The invariant of the upload's loop: the object is recorded under its name, with the chunks done so
  far (each held by all its recorded replicas, of which there is a quorum on online nodes)
  before the planned ones.\<close>

definition uploading ::
  "'n net \<Rightarrow> NodeInfo list \<Rightarrow> string \<Rightarrow> string \<Rightarrow> ChunkInfo list \<Rightarrow> bytes list \<Rightarrow> ChunkInfo list \<Rightarrow> 'n world \<Rightarrow> bool" where
  "uploading net online filename object_id finished ps todo w \<longleftrightarrow>
     ms_inv (w_meta w) \<and> (\<forall>c \<in> set finished. well_replicated net online c) \<and> online_nodes (w_meta w) = online
     \<and> (\<exists>obj. locate_by_filename filename (w_meta w) = Some obj \<and> oi_object_id obj = object_id
          \<and> oi_chunks obj = finished @ todo)
     \<and> distinct (map ci_chunk_id (finished @ todo))
     \<and> (\<forall>c \<in> set todo. length (ci_chunk_id c) < 2 ^ 32)
     \<and> list_all2 (chunk_stored stored (w_storage w)) finished ps"

lemma chunk_stored_frame:
  assumes "list_all2 (chunk_stored stored n) cs ps" "cid \<notin> ci_chunk_id ` set cs"
    and "\<And>addr c. c \<noteq> cid \<Longrightarrow> stored n' addr c = stored n addr c"
  shows "list_all2 (chunk_stored stored n') cs ps"
proof (rule list.rel_mono_strong [OF assms(1)])
  fix c p assume c: "c \<in> set cs" and s: "chunk_stored stored n c p"
  have "ci_chunk_id c \<noteq> cid" using c assms(2) by auto
  then have "stored n' addr (ci_chunk_id c) = stored n addr (ci_chunk_id c)" for addr by (rule assms(3))
  with s show "chunk_stored stored n' c p" by (simp add: chunk_stored_def replicas_hold_def)
qed

lemma put_chunk_step:
  assumes net: "n_api net = api" "\<And>i. n_fate net i = Delivered" and len: "length data < 2 ^ 64"
    and oid: "length object_id < 2 ^ 32"
    and up: "uploading net online filename object_id finished ps (from_proto cm # todo) w"
    and put: "put_chunks net object_id data offset (cm # rest) w = (None, w')"
  obtains c w1 where "uploading net online filename object_id (finished @ [c]) (ps @ [hd (pieces data offset (cm # rest))]) todo w1"
    "put_chunks net object_id data (offset + cm_size cm) rest w1 = (None, w')"
proof -
  define piece where "piece = hd (pieces data offset (cm # rest))"
  have plen: "length piece < 2 ^ 64" using len by (auto simp: piece_def)
  let ?c = "\<lparr>ci_chunk_id = cm_chunk_id cm, ci_object_id = object_id, ci_chunk_index = cm_chunk_index cm,
    ci_size = cm_size cm, ci_checksum = sha256 piece, ci_version = 1, ci_replicas = []\<rparr>"
  let ?rf = "cc_replication_factor (n_cfg net)"
  let ?ev = "n_env net (w_calls w)"
  obtain sel m where sel: "select_nodes ?ev ?rf (requested_strategy (n_cfg net) []) (w_meta w) = (sel, m)" by force
  define w1 where "w1 = w\<lparr>w_calls := Suc (w_calls w), w_meta := m\<rparr>"
  have r1: "rpc net (\<lambda>ev. SelectNodes (n_cfg net) ev ?rf []) w = (Some (map (node_to_proto False) sel), w1)"
    using sel by (simp add: rpc_Delivered [OF net(2)] SelectNodes_def w1_def)
  obtain reps w2 where r2: "put_replicas net ?c piece object_id (map (node_to_proto False) sel) [] w1 = (reps, w2)"
    by force
  have id: "ci_chunk_id (from_proto cm) = cm_chunk_id cm" by (simp add: from_proto_def)
  have "length (ci_chunk_id ?c) < 2 ^ 32" using up id by (simp add: uploading_def)
  then have held: "replicas_hold stored (w_storage w2) (cm_chunk_id cm) piece reps" "w_meta w2 = m"
      "w_calls w2 = Suc (w_calls w)"
      "\<And>addr cid. cid \<noteq> cm_chunk_id cm \<Longrightarrow> stored (w_storage w2) addr cid = stored (w_storage w) addr cid"
    using put_replicas_hold [OF net(1) plen _ oid _ r2] by (simp_all add: replicas_hold_def w1_def)
  let ?c' = "?c\<lparr>ci_replicas := reps\<rparr>"
  let ?h = "\<lambda>ev. UpdateChunk ev object_id (chunk_to_proto ?c')"
  obtain b m3 where u: "update_chunk (n_env net (w_calls w2)) object_id ?c' m = (b, m3)" by force
  define w3 where "w3 = w2\<lparr>w_calls := Suc (w_calls w2), w_meta := m3\<rparr>"
  have r3: "snd (rpc net ?h w2) = w3"
    using u held(2) by (simp add: rpc_Delivered [OF net(2)] UpdateChunk_def w3_def)
  have "(if 0 < cm_size cm then take (unat (cm_size cm)) (drop (unat offset) data) else []) = piece"
    by (simp add: piece_def)
  note step = put [unfolded put_chunks.simps Let_def this r1 prod.case option.case r2 r3]
  have acks: "\<not> word_of_nat (length reps) < required_acks (cc_write_ack (n_cfg net)) ?rf"
      and next_w: "put_chunks net object_id data (offset + cm_size cm) rest w3 = (None, w')"
    using step by (simp_all split: if_splits)
  obtain obj where obj: "locate_by_filename filename m = Some obj" "oi_object_id obj = object_id"
      "oi_chunks obj = finished @ from_proto cm # todo"
    using up select_nodes_frame(2) [OF sel] by (auto simp: uploading_def)
  have inv: "ms_inv m" and dist: "distinct (map ci_chunk_id (finished @ from_proto cm # todo))"
    using up select_nodes_frame(1) [OF sel] by (simp_all add: uploading_def)
  then have notin: "cm_chunk_id cm \<notin> ci_chunk_id ` set finished" by (auto simp: id)
  have rep: "replace_chunk ?c' (oi_chunks obj) = Some (finished @ ?c' # todo)"
    unfolding obj(3) using notin by (intro replace_chunk_middle) (simp_all add: id)
  have "update_chunk (n_env net (w_calls w2)) (oi_object_id obj) ?c' m = (b, m3)" using u obj(2) by simp
  note upd = updated [OF inv obj(1) rep this]
  have "list_all2 (chunk_stored stored (w_storage w)) finished ps" using up by (simp add: uploading_def)
  then have "list_all2 (chunk_stored stored (w_storage w2)) finished ps"
    using notin held(4) by (rule chunk_stored_frame)
  moreover have "chunk_stored stored (w_storage w2) ?c' piece"
    using held(1) by (simp add: chunk_stored_def)
  moreover have "well_replicated net online ?c'" "online_nodes m3 = online"
    using put_replicas_quorum [OF _ sel r2 acks] up update_chunk_nodes [OF u] select_nodes_frame(3) [OF sel]
    by (simp_all add: uploading_def online_nodes_def)
  ultimately have "uploading net online filename object_id (finished @ [?c']) (ps @ [piece]) todo w3"
    using upd dist up obj(2) by (auto simp: uploading_def w3_def id list_all2_appendI)
  with next_w show ?thesis using that by (simp add: piece_def)
qed

lemma put_chunks_upload:
  assumes net: "n_api net = api" "\<And>i. n_fate net i = Delivered" and len: "length data < 2 ^ 64"
    and oid: "length object_id < 2 ^ 32"
    and up: "uploading net online filename object_id finished ps (map from_proto cms) w"
    and put: "put_chunks net object_id data offset cms w = (None, w')"
  shows "\<exists>cs. uploading net online filename object_id cs (ps @ pieces data offset cms) [] w'"
  using up put
proof (induction cms arbitrary: finished ps offset w)
  case (Cons cm cms)
  have "uploading net online filename object_id finished ps (from_proto cm # map from_proto cms) w"
    using Cons.prems(1) by simp
  then obtain c w1 where
    "uploading net online filename object_id (finished @ [c]) (ps @ [hd (pieces data offset (cm # cms))]) (map from_proto cms) w1"
    "put_chunks net object_id data (offset + cm_size cm) cms w1 = (None, w')"
    by (rule put_chunk_step [OF net len oid _ Cons.prems(2)])
  from Cons.IH [OF this] show ?case by simp
qed auto

lemma chunk_stored_cong: "stored n = stored n' \<Longrightarrow> chunk_stored stored n = chunk_stored stored n'"
  by (simp add: chunk_stored_def replicas_hold_def fun_eq_iff)

lemma chunk_read:
  assumes "n_api net = api" "chunk_stored stored (w_storage w) c p"
    and "read_chunk_from_replicas net (ci_chunk_id c) (ci_checksum c) (ci_replicas c) w = (r, w')"
  shows "stored (w_storage w') = stored (w_storage w)" "r = None \<or> r = Some p"
  using read_replicas [OF assms(1) _ _ assms(3), of p] assms(2)
  by (auto simp: chunk_stored_def replicas_hold_def)

lemma get_chunks_pieces:
  assumes net: "n_api net = api"
    and "list_all2 (chunk_stored stored (w_storage w)) cs ps"
    and "get_chunks net (map chunk_to_proto cs) acc w = (None, data, w')"
  shows "data = acc @ concat ps"
  using assms(2,3)
proof (induction cs arbitrary: ps acc w)
  case (Cons c cs)
  obtain p qs where ps: "ps = p # qs" "chunk_stored stored (w_storage w) c p"
      "list_all2 (chunk_stored stored (w_storage w)) cs qs"
    using Cons.prems(1) by (auto simp: list_all2_Cons1)
  obtain r w1 where rd: "read_chunk_from_replicas net (ci_chunk_id c) (ci_checksum c) (ci_replicas c) w = (r, w1)"
    by force
  note cr = chunk_read [OF net ps(2) rd]
  have r: "r = Some p" using Cons.prems(2) rd cr(2) by auto
  have "list_all2 (chunk_stored stored (w_storage w1)) cs qs"
    using ps(3) chunk_stored_cong [OF cr(1)] by simp
  moreover have "get_chunks net (map chunk_to_proto cs) (acc @ p) w1 = (None, data, w')"
    using Cons.prems(2) rd r by simp
  ultimately have "data = (acc @ p) @ concat qs" by (rule Cons.IH)
  with ps(1) show ?case by simp
qed simp

end

context reliable_storage
begin

lemma read_replicas_up:
  assumes "n_api net = api" "chunk_stored stored (w_storage w) c p" "ci_replicas c \<noteq> []"
  shows "fst (read_chunk_from_replicas net (ci_chunk_id c) (ci_checksum c) (ci_replicas c) w) = Some p"
proof -
  obtain rep reps where reps: "ci_replicas c = rep # reps" using assms(3) by (cases "ci_replicas c") auto
  have "stored (w_storage w) (ri_address rep) (ci_chunk_id c) = Some (ci_checksum c, p)"
    using assms(2) reps by (simp add: chunk_stored_def replicas_hold_def)
  then obtain h n where "sa_ReadChunk api (ri_address rep) (ci_chunk_id c) (w_storage w) = (Some (True, h, p), n)"
      "ch_checksum h = ci_checksum c"
    using read_up by blast
  with assms(1) reps show ?thesis by simp
qed

lemma get_chunks_up:
  assumes net: "n_api net = api"
    and "list_all2 (chunk_stored stored (w_storage w)) cs ps" "\<And>c. c \<in> set cs \<Longrightarrow> ci_replicas c \<noteq> []"
  shows "fst (get_chunks net (map chunk_to_proto cs) acc w) = None"
  using assms(2,3)
proof (induction cs arbitrary: ps acc w)
  case (Cons c cs)
  obtain p qs where ps: "ps = p # qs" "chunk_stored stored (w_storage w) c p"
      "list_all2 (chunk_stored stored (w_storage w)) cs qs"
    using Cons.prems(1) by (auto simp: list_all2_Cons1)
  obtain r w1 where rd: "read_chunk_from_replicas net (ci_chunk_id c) (ci_checksum c) (ci_replicas c) w = (r, w1)"
    by force
  have r: "r = Some p" using read_replicas_up [OF net ps(2)] Cons.prems(2) rd by simp
  have "list_all2 (chunk_stored stored (w_storage w1)) cs qs"
    using ps(3) chunk_stored_cong [OF chunk_read(1) [OF net ps(2) rd]] by simp
  with Cons.IH Cons.prems(2) rd r show ?case by simp
qed simp

end

section \<open>What is uploaded is what is downloaded\<close>

lemma spec_plan_ids: "map ci_chunk_id (spec_plan uuid object_id sz cs) = map uuid [0..<length (spec_plan uuid object_id sz cs)]"
  by (simp add: spec_plan_def plan_chunk_def comp_def)

text \<open>The ids the creation draws for the chunks of the data differ.\<close>

definition ids_distinct :: "'n net \<Rightarrow> bytes \<Rightarrow> 'n world \<Rightarrow> bool" where
  "ids_distinct net data w \<longleftrightarrow> inj_on (env_uuid (n_env net (w_calls w)))
     {1..max 1 (chunk_total (length data) (unat (mb_to_bytes (cc_chunk_size_mb (n_cfg net)))))}"

text \<open>An upload that got as far as the loop over the chunks.\<close>

lemma put_created:
  assumes "n_fate net (w_calls w) = Delivered" "put net filename data owner w = Some (res, w')"
    and "pr_success res \<or> pr_object_id res \<noteq> []"
  obtains obj m err rf where
    "create_object (n_env net (w_calls w)) filename (word_of_nat (length data)) rf owner
      (mb_to_bytes (cc_chunk_size_mb (n_cfg net))) (w_meta w) = Some (Some obj, m)"
    "put_chunks net (oi_object_id obj) data 0 (map chunk_to_proto (oi_chunks obj))
      (w\<lparr>w_calls := Suc (w_calls w), w_meta := m\<rparr>) = (err, w')"
    "pr_success res \<longleftrightarrow> err = None"
proof -
  let ?cfg = "n_cfg net"
  let ?w1 = "\<lambda>m. w\<lparr>w_calls := Suc (w_calls w), w_meta := m\<rparr>"
  obtain resp m where r: "CreateObject ?cfg (n_env net (w_calls w)) filename (word_of_nat (length data))
      (cc_replication_factor ?cfg) owner (cc_chunk_size_mb ?cfg) (w_meta w) = Some (resp, m)" "or_success resp"
    using assms by (auto simp: put_def rpc_partial_def Let_def split: option.splits if_splits prod.splits)
  then obtain obj where c: "create_object (n_env net (w_calls w)) filename (word_of_nat (length data))
        (cc_replication_factor ?cfg) owner (mb_to_bytes (cc_chunk_size_mb ?cfg)) (w_meta w) = Some (Some obj, m)"
      and resp: "resp = \<lparr>or_success = True, or_message = [], or_object = Some (to_proto obj)\<rparr>"
    by (auto elim: CreateObject_cases)
  obtain err w2 where pc: "put_chunks net (oi_object_id obj) data 0 (map chunk_to_proto (oi_chunks obj)) (?w1 m) = (err, w2)"
    by force
  have "w' = w2" "pr_success res \<longleftrightarrow> err = None"
    using assms(1,2) r pc by (auto simp: put_def rpc_partial_def resp to_proto_def Let_def split: option.splits)
  with c pc that show ?thesis by simp
qed

lemma planned_chunks:
  assumes len: "length data < 2 ^ 64" and ids: "ids_distinct net data w"
    and c: "create_object (n_env net (w_calls w)) filename (word_of_nat (length data)) rf owner
      (mb_to_bytes (cc_chunk_size_mb (n_cfg net))) s = Some (Some obj, m)"
  shows "length (oi_chunks obj) = max 1 (chunk_total (length data) (unat (mb_to_bytes (cc_chunk_size_mb (n_cfg net)))))"
    "distinct (map ci_chunk_id (oi_chunks obj))" "\<And>c. c \<in> set (oi_chunks obj) \<Longrightarrow> ci_replicas c = []"
proof -
  let ?ev = "n_env net (w_calls w)" and ?sz = "word_of_nat (length data) :: u64"
  have sz: "unat ?sz = length data" using len by (simp add: unsigned_of_nat take_bit_nat_eq_self)
  have plan: "oi_chunks obj = spec_plan (\<lambda>i. env_uuid ?ev (i + 1)) (env_uuid ?ev 0) ?sz (mb_to_bytes (cc_chunk_size_mb (n_cfg net)))"
    using create_object_SomeD(3) [OF c] by (simp add: new_object_def)
  show l: "length (oi_chunks obj) = max 1 (chunk_total (length data) (unat (mb_to_bytes (cc_chunk_size_mb (n_cfg net)))))"
    unfolding plan spec_plan_def by (simp add: sz)
  then have "inj_on (env_uuid ?ev) {1..length (oi_chunks obj)}" using ids by (simp add: ids_distinct_def)
  then have "inj_on (env_uuid ?ev \<circ> Suc) {0..<length (oi_chunks obj)}"
    by (intro comp_inj_on) (simp_all add: atLeastLessThanSuc_atLeastAtMost)
  then show "distinct (map ci_chunk_id (oi_chunks obj))"
    unfolding plan spec_plan_ids by (simp add: distinct_map comp_def)
  show "ci_replicas c = []" if "c \<in> set (oi_chunks obj)" for c
    using that unfolding plan by (auto simp: spec_plan_def plan_chunk_def ChunkInfo_default_def)
qed

lemma put_uploads:
  assumes contract: "storage_contract (n_api net) stored"
    and fate: "\<And>i. n_fate net i = Delivered"
    and inv: "ms_inv (w_meta w)" and name: "filename \<noteq> []" and len: "length data < 2 ^ 64"
    and fresh: "um_find (ms_objects_by_id (w_meta w)) (env_uuid (n_env net (w_calls w)) 0) = None"
    and ids: "ids_distinct net data w"
    and put: "put net filename data owner w = Some (res, w')" "pr_success res"
  shows "\<exists>obj ps. locate_by_filename filename (w_meta w') = Some obj \<and> concat ps = data
    \<and> list_all2 (chunk_stored stored (w_storage w')) (oi_chunks obj) ps
    \<and> (\<forall>c \<in> set (oi_chunks obj). well_replicated net (online_nodes (w_meta w)) c)"
proof -
  let ?ev = "n_env net (w_calls w)" and ?cfg = "n_cfg net" and ?sz = "word_of_nat (length data) :: u64"
  let ?uuid = "\<lambda>i. env_uuid ?ev (i + 1)" and ?on = "online_nodes (w_meta w)"
  obtain obj m rf where c: "create_object ?ev filename ?sz rf owner
        (mb_to_bytes (cc_chunk_size_mb ?cfg)) (w_meta w) = Some (Some obj, m)"
      and loop: "put_chunks net (oi_object_id obj) data 0 (map chunk_to_proto (oi_chunks obj))
        (w\<lparr>w_calls := Suc (w_calls w), w_meta := m\<rparr>) = (None, w')"
    by (rule put_created [OF fate put(1)]) (use put(2) in auto)
  note cr = created [OF inv fresh c] and new = create_object_SomeD [OF c]
  let ?oid = "env_uuid ?ev 0" and ?chunks = "oi_chunks obj"
  define w1 where "w1 = w\<lparr>w_calls := Suc (w_calls w), w_meta := m\<rparr>"
  have obj: "oi_object_id obj = ?oid" using new(3) by (simp add: new_object_def)
  have pc: "put_chunks net ?oid data 0 (map chunk_to_proto ?chunks) w1 = (None, w')"
    using loop by (simp add: obj w1_def)
  have sz: "unat ?sz = length data" using len by (simp add: unsigned_of_nat take_bit_nat_eq_self)
  have plan: "?chunks = spec_plan ?uuid ?oid ?sz (mb_to_bytes (cc_chunk_size_mb ?cfg))"
    using new(3) by (simp add: new_object_def)
  have "distinct (map ci_chunk_id ?chunks)" by (rule planned_chunks(2) [OF len ids c])
  moreover have "\<forall>c \<in> set ?chunks. length (ci_chunk_id c) < 2 ^ 32"
    unfolding plan by (auto simp: spec_plan_def plan_chunk_def)
  moreover have "locate_by_filename filename m = Some obj" using fun_cong [OF cr(3), of filename] by simp
  ultimately have "storage_contract.uploading stored net ?on filename ?oid [] [] (map from_proto (map chunk_to_proto ?chunks)) w1"
    using cr(1,5) obj by (simp add: storage_contract.uploading_def [OF contract] w1_def comp_def online_nodes_def)
  from storage_contract.put_chunks_upload [OF contract refl fate len _ this pc]
  obtain cs' where up: "storage_contract.uploading stored net ?on filename ?oid cs'
      (pieces data 0 (map chunk_to_proto ?chunks)) [] w'"
    by auto
  have "sum_list (map (\<lambda>c. unat (cm_size c)) (map chunk_to_proto ?chunks)) = unat ?sz"
    using sum_spec_plan [OF new(2)] new(3) by (simp add: new_object_def chunk_to_proto_def comp_def)
  also note sz
  finally have "concat (pieces data 0 (map chunk_to_proto ?chunks)) = data"
    using len by (subst concat_pieces) simp_all
  with up show ?thesis by (auto simp: storage_contract.uploading_def [OF contract])
qed

lemma get_located:
  assumes "filename \<noteq> []" "n_fate net (w_calls w) = Delivered"
    and "locate_by_filename filename (w_meta w) = Some obj"
    and "get net filename w = (g, w')"
  obtains err data where
    "get_chunks net (map chunk_to_proto (oi_chunks obj)) [] (w\<lparr>w_calls := Suc (w_calls w)\<rparr>) = (err, data, w')"
    "gr_success g \<longleftrightarrow> err = None" "gr_data g = data"
proof -
  have "rpc net (\<lambda>ev. readonly (LocateObject [] filename) ev) w
      = (Some \<lparr>or_success = True, or_message = [], or_object = Some (to_proto obj)\<rparr>, w\<lparr>w_calls := Suc (w_calls w)\<rparr>)"
    using assms(1-3) by (simp add: rpc_def readonly_def LocateObject_def)
  moreover obtain err data w2 where gc: "get_chunks net (map chunk_to_proto (oi_chunks obj)) []
      (w\<lparr>w_calls := Suc (w_calls w)\<rparr>) = (err, data, w2)" by (metis prod_cases3)
  ultimately have "w' = w2" "gr_success g \<longleftrightarrow> err = None" "gr_data g = data"
    using assms(4) by (auto simp: get_def to_proto_def Let_def split: option.splits)
  with gc that show ?thesis by simp
qed

lemma get_lost:
  "n_fate net (w_calls w) \<noteq> Delivered \<Longrightarrow> get net filename w = (g, w') \<Longrightarrow> \<not> gr_success g"
  by (cases "n_fate net (w_calls w)") (auto simp: get_def rpc_def readonly_def Let_def get_failed_def)

definition example_net :: "(string \<Rightarrow> chunk_store) net" where
  "example_net = \<lparr>n_api = store_api, n_cfg = ClusterConfig_default\<lparr>cc_replication_factor := 1\<rparr>,
     n_fate = (\<lambda>_. Delivered), n_env = (\<lambda>_. example_env), n_now = (\<lambda>_. 9)\<rparr>"

definition example_world :: "(string \<Rightarrow> chunk_store) world" where
  "example_world = \<lparr>w_meta = snd (register_node example_env (example_node ''n1'' 0) (MetadataStore ''p'' True None)),
     w_storage = (\<lambda>_. ChunkStore ''/d'' []), w_calls = 0\<rparr>"

lemmas put_evaluate = put_def rpc_partial_def example_net_def ClusterConfig_default_def CreateObject_def
  mb_to_bytes_def create_object_simp to_proto_def new_object_def spec_plan_def Let_def rpc_def SelectNodes_def
  select_nodes_def split_def write_chunk_to_node_def chunk_to_proto_def plan_chunk_def ChunkInfo_default_def
  planned_size_def requested_strategy_def required_acks_def store_api_def node_to_proto_def write_chunk_result
  write_accepted_def full_io_def

lemma ms_inv_world: "ms_inv (w_meta example_world)"
  using registry_steps(1) [OF ms_inv_initial prod.collapse [symmetric]] by (simp add: example_world_def)

lemma example_put: "\<exists>res w'. put example_net ''f'' [1, 2] owner example_world = Some (res, w') \<and> pr_success res"
proof -
  have "chunk_total 2 4194304 = 1" by (simp add: chunk_total_def)
  moreover have "ms_filename_to_id (w_meta example_world) ''f'' = None"
    by (simp add: example_world_def register_node_def MetadataStore_def load_def)
  moreover have "filter ni_online (map snd (ms_nodes (w_meta example_world)))
      = [(example_node ''n1'' 0)\<lparr>ni_online := True, ni_last_heartbeat := 5\<rparr>]"
    by (simp add: example_world_def register_node_def MetadataStore_def load_def um_assign_def
        example_node_def NodeInfo_default_def example_env_def)
  ultimately show ?thesis by (simp add: put_evaluate)
qed

lemma example_facts:
  "um_find (ms_objects_by_id (w_meta example_world)) (env_uuid (n_env example_net (w_calls example_world)) 0) = None"
  "ids_distinct example_net [1, 2] example_world" "quorum example_net"
  "n_fate example_net i = Delivered" "n_api example_net = store_api"
proof -
  have "chunk_total (Suc (Suc 0)) 4194304 = 1" by (simp add: chunk_total_def)
  then show "ids_distinct example_net [1, 2] example_world"
    by (simp add: ids_distinct_def example_net_def ClusterConfig_default_def mb_to_bytes_def)
qed (simp_all add: example_world_def register_node_def MetadataStore_def load_def quorum_def required_acks_def
    example_net_def ClusterConfig_default_def)

lemma downloaded_upload:
  assumes "storage_contract (n_api net) stored" "\<And>i. n_fate net i = Delivered"
    and "ms_inv (w_meta w)" "filename \<noteq> []" "length data < 2 ^ 64"
    and "um_find (ms_objects_by_id (w_meta w)) (env_uuid (n_env net (w_calls w)) 0) = None"
    and "ids_distinct net data w"
    and "put net filename data owner w = Some (res, w')" "pr_success res"
    and "n_api net' = n_api net" "get net' filename w' = (g, w'')" "gr_success g"
  shows "gr_data g = data"
proof -
  obtain obj ps where o: "locate_by_filename filename (w_meta w') = Some obj" "concat ps = data"
      "list_all2 (chunk_stored stored (w_storage w')) (oi_chunks obj) ps"
    using put_uploads [OF assms(1-9)] by blast
  have "n_fate net' (w_calls w') = Delivered" using get_lost [OF _ assms(11)] assms(12) by blast
  from get_located [OF assms(4) this o(1) assms(11)] obtain err d where
    g: "get_chunks net' (map chunk_to_proto (oi_chunks obj)) [] (w'\<lparr>w_calls := Suc (w_calls w')\<rparr>) = (err, d, w'')"
      "gr_success g \<longleftrightarrow> err = None" "gr_data g = d"
    by blast
  have "list_all2 (chunk_stored stored (w_storage (w'\<lparr>w_calls := Suc (w_calls w')\<rparr>))) (oi_chunks obj) ps"
    using o(3) by simp
  from storage_contract.get_chunks_pieces [OF assms(1) assms(10) this, of "[]"] g assms(12) o(2)
  show ?thesis by simp
qed

text \<open>C10. A successful upload in which no metadata call is lost, followed by a download of the name (over any
  network to the same nodes): if the download succeeds, it returns exactly the uploaded bytes. Of the
  storage nodes only the contract is assumed: acknowledged writes are held, answered reads return
  what is held.\<close>

theorem download_returns_upload:
  assumes "storage_contract (n_api net) stored" "\<And>i. n_fate net i = Delivered"
    and "ms_inv (w_meta w)" "filename \<noteq> []" "length data < 2 ^ 64"
    and "um_find (ms_objects_by_id (w_meta w)) (env_uuid (n_env net (w_calls w)) 0) = None"
    and "ids_distinct net data w"
    and "put net filename data owner w = Some (res, w')" "pr_success res"
    and "n_api net' = n_api net" "get net' filename w' = (g, w'')" "gr_success g"
  shows "gr_data g = data"
  by (rule downloaded_upload [OF assms])

theorem download_returns_upload_witness:
  "\<exists>res w'. put example_net ''f'' [1, 2] ''me'' example_world = Some (res, w')
     \<and> (gr_success (fst (get example_net ''f'' w')) \<longrightarrow> gr_data (fst (get example_net ''f'' w')) = [1, 2])"
proof -
  obtain res w' where put: "put example_net ''f'' [1, 2] ''me'' example_world = Some (res, w')" "pr_success res"
    using example_put by blast
  have "storage_contract (n_api example_net) store_stored"
    unfolding example_facts(5) by (rule store_cluster.storage_contract_axioms)
  from download_returns_upload [OF this example_facts(4) ms_inv_world _ _ example_facts(1,2) put refl
      prod.collapse [symmetric]] put(1) show ?thesis by auto
qed

lemma downloadable_upload:
  assumes "reliable_storage (n_api net) stored" "\<And>i. n_fate net i = Delivered"
    and "ms_inv (w_meta w)" "filename \<noteq> []" "length data < 2 ^ 64"
    and "um_find (ms_objects_by_id (w_meta w)) (env_uuid (n_env net (w_calls w)) 0) = None"
    and "ids_distinct net data w" "quorum net"
    and "put net filename data owner w = Some (res, w')" "pr_success res"
    and "n_api net' = n_api net" "n_fate net' (w_calls w') = Delivered" "get net' filename w' = (g, w'')"
  shows "gr_success g \<and> gr_data g = data"
proof -
  have contract: "storage_contract (n_api net) stored" using assms(1) by (simp add: reliable_storage_def)
  obtain obj ps where o: "locate_by_filename filename (w_meta w') = Some obj" "concat ps = data"
      "list_all2 (chunk_stored stored (w_storage w')) (oi_chunks obj) ps"
      "\<And>c. c \<in> set (oi_chunks obj) \<Longrightarrow> ci_replicas c \<noteq> []"
    using put_uploads [OF contract assms(2-7,9,10)] well_replicated_some [OF assms(8)] by blast
  from get_located [OF assms(4) assms(12) o(1) assms(13)] obtain err d where
    g: "get_chunks net' (map chunk_to_proto (oi_chunks obj)) [] (w'\<lparr>w_calls := Suc (w_calls w')\<rparr>) = (err, d, w'')"
      "gr_success g \<longleftrightarrow> err = None" "gr_data g = d"
    by blast
  have st: "list_all2 (chunk_stored stored (w_storage (w'\<lparr>w_calls := Suc (w_calls w')\<rparr>))) (oi_chunks obj) ps"
    using o(3) by simp
  have "err = None" using reliable_storage.get_chunks_up [OF assms(1,11) st o(4), of "[]"] g(1) by simp
  with storage_contract.get_chunks_pieces [OF contract assms(11) st, of "[]"] g o(2) show ?thesis by simp
qed

text \<open>C11. When the name is not empty, all metadata calls of the upload were delivered, its ids are new
  and differ, a quorum is demanded (every policy but \<open>All\<close> with a replication factor of zero), and
  the nodes are up and return what they hold, then the download after a successful upload, its own metadata call
  delivered, succeeds with the uploaded bytes.\<close>

theorem upload_can_be_downloaded:
  assumes "reliable_storage (n_api net) stored" "\<And>i. n_fate net i = Delivered"
    and "ms_inv (w_meta w)" "filename \<noteq> []" "length data < 2 ^ 64"
    and "um_find (ms_objects_by_id (w_meta w)) (env_uuid (n_env net (w_calls w)) 0) = None"
    and "ids_distinct net data w" "quorum net"
    and "put net filename data owner w = Some (res, w')" "pr_success res"
    and "n_api net' = n_api net" "n_fate net' (w_calls w') = Delivered" "get net' filename w' = (g, w'')"
  shows "gr_success g \<and> gr_data g = data"
  by (rule downloadable_upload [OF assms])

theorem upload_can_be_downloaded_witness:
  "\<exists>res w'. put example_net ''f'' [1, 2] ''me'' example_world = Some (res, w')
     \<and> gr_success (fst (get example_net ''f'' w')) \<and> gr_data (fst (get example_net ''f'' w')) = [1, 2]"
proof -
  obtain res w' where put: "put example_net ''f'' [1, 2] ''me'' example_world = Some (res, w')" "pr_success res"
    using example_put by blast
  have "reliable_storage (n_api example_net) store_stored"
    unfolding example_facts(5) by (rule store_cluster.reliable_storage_axioms)
  from upload_can_be_downloaded [OF this example_facts(4) ms_inv_world _ _ example_facts(1,2,3) put refl
      example_facts(4) prod.collapse [symmetric]] put(1) show ?thesis by auto
qed

section \<open>Uploads that fail\<close>

lemma put_replicas_meta:
  "w_meta (snd (put_replicas net chunk data oid nodes reps w)) = w_meta w
   \<and> w_calls (snd (put_replicas net chunk data oid nodes reps w)) = w_calls w"
  by (induction net chunk data oid nodes reps w rule: put_replicas.induct)
    (auto simp: write_chunk_to_node_def Let_def split: prod.splits)

lemma SelectNodes_frame:
  assumes "SelectNodes cfg ev cnt strategy m = (nodes, m')"
  shows "ms_inv m' = ms_inv m" "locate_by_filename f m' = locate_by_filename f m"
  using assms select_nodes_frame [where s = m and s' = m']
  by (auto simp: SelectNodes_def split: prod.splits)

text \<open>The object stays recorded under its name and id while the upload runs.\<close>

definition recorded :: "string \<Rightarrow> string \<Rightarrow> metadata_store \<Rightarrow> bool" where
  "recorded filename object_id m \<longleftrightarrow>
     ms_inv m \<and> (\<exists>obj. locate_by_filename filename m = Some obj \<and> oi_object_id obj = object_id)"

lemma recorded_update:
  assumes rec: "recorded filename object_id m" and u: "UpdateChunk ev object_id' pb m = (r, m')"
  shows "recorded filename object_id m'"
proof -
  obtain b where b: "update_chunk ev object_id' (from_proto pb) m = (b, m')"
    using u by (auto simp: UpdateChunk_def Let_def split: prod.splits)
  obtain obj where inv: "ms_inv m" and obj: "locate_by_filename filename m = Some obj" "oi_object_id obj = object_id"
    using rec by (auto simp: recorded_def)
  note step = update_chunk_step [OF inv b]
  let ?f = "\<lambda>obj. case replace_chunk (from_proto pb) (oi_chunks obj) of None \<Rightarrow> Some obj
    | Some chunks \<Rightarrow> Some (obj\<lparr>oi_chunks := chunks, oi_updated_at := ev_now ev\<rparr>)"
  have "sp_names (ms_view m') filename = on_object object_id' ?f (sp_names (ms_view m)) filename"
    using step by (auto dest: arg_cong [of _ "ms_view m'" sp_names] simp flip: fun_eq_iff)
  moreover have "sp_names (ms_view m) filename = Some obj" using obj(1) by (simp add: ms_view_def)
  ultimately have "\<exists>obj'. sp_names (ms_view m') filename = Some obj' \<and> oi_object_id obj' = object_id"
    using obj(2) by (auto simp: on_object_def split: option.splits)
  with step show ?thesis by (simp add: recorded_def ms_view_def)
qed

lemma recorded_delete:
  assumes rec: "recorded filename object_id m" "object_id \<noteq> []" and d: "DeleteObject ev object_id [] m = (r, m')"
  shows "locate_by_filename filename m' = None"
proof -
  obtain obj where inv: "ms_inv m" and obj: "locate_by_filename filename m = Some obj" "oi_object_id obj = object_id"
    using rec by (auto simp: recorded_def)
  obtain b where b: "delete_object ev object_id m = (b, m')"
    using d rec(2) by (auto simp: DeleteObject_def Let_def split: prod.splits)
  have "sp_names (ms_view m') filename = on_object object_id (\<lambda>_. None) (sp_names (ms_view m)) filename"
    using delete_object_step [OF inv b] by (auto dest: arg_cong [of _ "ms_view m'" sp_names])
  moreover have "sp_names (ms_view m) filename = Some obj" using obj(1) by (simp add: ms_view_def)
  ultimately show ?thesis using obj(2) by (simp add: on_object_def ms_view_def)
qed

lemma put_chunks_fails:
  assumes fate: "\<And>i. n_fate net i = Delivered" and oid: "object_id \<noteq> []"
    and "recorded filename object_id (w_meta w)" "put_chunks net object_id data offset cms w = (Some msg, w')"
  shows "locate_by_filename filename (w_meta w') = None"
  using assms(3,4)
proof (induction cms arbitrary: offset w)
  case (Cons cm rest)
  let ?rf = "cc_replication_factor (n_cfg net)"
  let ?data = "if 0 < cm_size cm then take (unat (cm_size cm)) (drop (unat offset) data) else []"
  let ?c = "\<lparr>ci_chunk_id = cm_chunk_id cm, ci_object_id = object_id, ci_chunk_index = cm_chunk_index cm,
    ci_size = cm_size cm, ci_checksum = sha256 ?data, ci_version = 1, ci_replicas = []\<rparr>"
  obtain nodes m where sel: "SelectNodes (n_cfg net) (n_env net (w_calls w)) ?rf [] (w_meta w) = (nodes, m)" by force
  define w1 where "w1 = w\<lparr>w_calls := Suc (w_calls w), w_meta := m\<rparr>"
  have r1: "rpc net (\<lambda>ev. SelectNodes (n_cfg net) ev ?rf []) w = (Some nodes, w1)"
    using sel by (simp add: rpc_Delivered [OF fate] w1_def)
  obtain reps w2 where r2: "put_replicas net ?c ?data object_id nodes [] w1 = (reps, w2)" by force
  have m: "w_meta w2 = m" using put_replicas_meta [of net ?c ?data object_id nodes "[]" w1] r2 by (simp add: w1_def)
  have rec: "recorded filename object_id m"
    using Cons.prems(1) SelectNodes_frame [OF sel] by (simp add: recorded_def)
  let ?u = "rpc net (\<lambda>ev. UpdateChunk ev object_id (chunk_to_proto (?c\<lparr>ci_replicas := reps\<rparr>))) w2"
  note step = Cons.prems(2) [unfolded put_chunks.simps Let_def r1 prod.case option.case r2]
  show ?case
  proof (cases "word_of_nat (length reps) < required_acks (cc_write_ack (n_cfg net)) ?rf")
    case True
    obtain r m' where d: "DeleteObject (n_env net (w_calls w2)) object_id [] m = (r, m')" by force
    have "w_meta w' = m'" using step True d m by (auto simp: rpc_Delivered [OF fate])
    with recorded_delete [OF rec oid d] show ?thesis by simp
  next
    case False
    obtain r m' where u: "UpdateChunk (n_env net (w_calls w2)) object_id
        (chunk_to_proto (?c\<lparr>ci_replicas := reps\<rparr>)) m = (r, m')" by force
    have "w_meta (snd ?u) = m'" using u m by (simp add: rpc_Delivered [OF fate])
    then have "recorded filename object_id (w_meta (snd ?u))" using recorded_update [OF rec u] by simp
    then show ?thesis using Cons.IH step False by (simp only: if_False)
  qed
qed simp

text \<open>C25. An upload in which no metadata call is lost and that created its object, under a new id, and then fails (its
  nodes did not acknowledge a quorum) leaves no object behind under the name: the name can be used again. The
  result of the deletion is ignored, so where that call is lost the object stays.\<close>

theorem failed_upload_frees_name:
  assumes "\<And>i. n_fate net i = Delivered" "ms_inv (w_meta w)"
    and "um_find (ms_objects_by_id (w_meta w)) (env_uuid (n_env net (w_calls w)) 0) = None"
    and "put net filename data owner w = Some (res, w')" "\<not> pr_success res" "pr_object_id res \<noteq> []"
  shows "locate_by_filename filename (w_meta w') = None"
proof -
  let ?ev = "n_env net (w_calls w)"
  obtain obj m err rf cs where c: "create_object ?ev filename (word_of_nat (length data)) rf owner cs (w_meta w) = Some (Some obj, m)"
      and loop: "put_chunks net (oi_object_id obj) data 0 (map chunk_to_proto (oi_chunks obj))
        (w\<lparr>w_calls := Suc (w_calls w), w_meta := m\<rparr>) = (err, w')" "err \<noteq> None"
    by (rule put_created [OF assms(1,4)]) (use assms(5,6) in auto)
  note cr = created [OF assms(2,3) c] and new = create_object_SomeD(3) [OF c]
  have obj: "oi_object_id obj = env_uuid ?ev 0" using new by (simp add: new_object_def)
  have rec: "recorded filename (oi_object_id obj) (w_meta (w\<lparr>w_calls := Suc (w_calls w), w_meta := m\<rparr>))"
    using cr(1) fun_cong [OF cr(3), of filename] by (simp add: recorded_def)
  from loop obtain msg where "put_chunks net (oi_object_id obj) data 0 (map chunk_to_proto (oi_chunks obj))
      (w\<lparr>w_calls := Suc (w_calls w), w_meta := m\<rparr>) = (Some msg, w')" by auto
  from put_chunks_fails [OF assms(1) _ rec this] show ?thesis by (simp add: obj)
qed

text \<open>No node is registered: the quorum is missed.\<close>

theorem failed_upload_frees_name_witness:
  "\<exists>res w'. put example_net ''f'' [1, 2] ''me'' (example_world\<lparr>w_meta := MetadataStore ''p'' True None\<rparr>)
      = Some (res, w') \<and> \<not> pr_success res \<and> locate_by_filename ''f'' (w_meta w') = None"
proof -
  let ?w = "example_world\<lparr>w_meta := MetadataStore ''p'' True None\<rparr>"
  have "chunk_total 2 4194304 = 1" by (simp add: chunk_total_def)
  then have "\<exists>res w'. put example_net ''f'' [1, 2] ''me'' ?w = Some (res, w') \<and> \<not> pr_success res \<and> pr_object_id res \<noteq> []"
    by (simp add: put_evaluate MetadataStore_def load_def)
  then obtain res w' where put: "put example_net ''f'' [1, 2] ''me'' ?w = Some (res, w')" "\<not> pr_success res"
      "pr_object_id res \<noteq> []" by blast
  have "um_find (ms_objects_by_id (w_meta ?w)) (env_uuid (n_env example_net (w_calls ?w)) 0) = None"
    by (simp add: MetadataStore_def load_def)
  from failed_upload_frees_name [OF example_facts(4) _ this put] put(1,2) show ?thesis
    by (simp add: ms_inv_initial)
qed

end
