(* ===== verification/Replication.thy ===== *)
theory Replication
  imports Client
begin

text \<open>
  \<open>src/replication/replication_manager.cpp\<close>: a storage node's replication manager. It selects nodes from
  the metadata service, sends the chunk to each of them (a local write for its own node, a
  \<open>ReplicateChunk\<close> call for the others), and answers whether the acknowledgement policy is met, with the
  replicas that acknowledged. The manager's metadata stub is the network of theory \<open>Cluster\<close>.
\<close>

section \<open>Definitions\<close>

record ReplicationManager =
  rm_local_node_id :: string
  rm_local_address :: string

record ReplicationResult =
  rr_success :: bool
  rr_message :: string
  rr_replicas :: "ReplicaInfo list"

definition replicate_to_node ::
  "'n net \<Rightarrow> ReplicationManager \<Rightarrow> string \<Rightarrow> ChunkHeaderData \<Rightarrow> bytes \<Rightarrow> 'n world \<Rightarrow> bool \<times> 'n world" where
  "replicate_to_node net rm address header data w =
     (let (r, n) = sa_ReplicateChunk (n_api net) address header data (rm_local_node_id rm) (w_storage w)
      in (r = Some True, w\<lparr>w_storage := n\<rparr>))"

text \<open>The branch of \<open>replicate_chunk\<close> for the manager's own node; its request leaves \<open>created_at_ms\<close> unset.\<close>

definition write_local_replica ::
  "'n net \<Rightarrow> ReplicationManager \<Rightarrow> ChunkHeaderData \<Rightarrow> bytes \<Rightarrow> 'n world \<Rightarrow> bool \<times> 'n world" where
  "write_local_replica net rm header data w =
     (let (r, n) = sa_WriteChunk (n_api net) (rm_local_address rm) (header\<lparr>ch_created_at_ms := 0\<rparr>) data (w_storage w)
      in (r = Some True, w\<lparr>w_storage := n\<rparr>))"

text \<open>The loop over the selected nodes; \<open>success_count\<close> is the number of replicas, and \<open>primary_set\<close> says
  that there are some.\<close>

fun replicate_nodes ::
  "'n net \<Rightarrow> ReplicationManager \<Rightarrow> u32 \<Rightarrow> ChunkHeaderData \<Rightarrow> bytes \<Rightarrow> ClusterNodeInfo list \<Rightarrow> ReplicaInfo list
   \<Rightarrow> 'n world \<Rightarrow> ReplicaInfo list \<times> 'n world" where
  "replicate_nodes net rm version header data [] reps w = (reps, w)"
| "replicate_nodes net rm version header data (node # nodes) reps w =
     (let (ok, w1) = (if cn_node_id node = rm_local_node_id rm then write_local_replica net rm header data w
                      else replicate_to_node net rm (cn_address node) header data w);
          rep = \<lparr>ri_node_id = cn_node_id node, ri_address = cn_address node, ri_is_primary = (reps = []),
                 ri_version = version\<rparr>
      in replicate_nodes net rm version header data nodes (if ok then reps @ [rep] else reps) w1)"

definition replicate_chunk ::
  "'n net \<Rightarrow> ReplicationManager \<Rightarrow> ChunkInfo \<Rightarrow> bytes \<Rightarrow> u32 \<Rightarrow> WriteAckPolicy \<Rightarrow> 'n world
   \<Rightarrow> ReplicationResult \<times> 'n world" where
  "replicate_chunk net rm chunk_info data replication_factor ack_policy w =
     (case rpc net (\<lambda>ev. SelectNodes (n_cfg net) ev replication_factor ''least_used'') w of
        (None, w1) \<Rightarrow> (\<lparr>rr_success = False, rr_message = ''No available nodes'', rr_replicas = []\<rparr>, w1)
      | (Some nodes, w1) \<Rightarrow>
          (if nodes = [] then (\<lparr>rr_success = False, rr_message = ''No available nodes'', rr_replicas = []\<rparr>, w1)
           else let header = \<lparr>ch_chunk_id = ci_chunk_id chunk_info, ch_object_id = ci_object_id chunk_info,
                      ch_version = ci_version chunk_info, ch_size = word_of_nat (length data),
                      ch_checksum = sha256 data, ch_created_at_ms = n_now net (w_calls w1)\<rparr>;
                    (reps, w2) = replicate_nodes net rm (ci_version chunk_info) header data nodes [] w1;
                    success_count = word_of_nat (length reps) :: u32;
                    required = required_acks ack_policy replication_factor;
                    success = (required \<le> success_count)
                in (\<lparr>rr_success = success,
                     rr_message = (if success then ''Replication successful''
                       else ''Insufficient replicas ('' @ dec_string (unat success_count) @ ''/''
                            @ dec_string (unat required) @ '')''),
                     rr_replicas = reps\<rparr>, w2)))"

definition read_from_replica :: "'n net \<Rightarrow> ReplicaInfo \<Rightarrow> string \<Rightarrow> 'n world \<Rightarrow> bytes option \<times> 'n world" where
  "read_from_replica net replica chunk_id w =
     (let (r, n) = sa_ReadChunk (n_api net) (ri_address replica) chunk_id (w_storage w)
      in (case r of Some (True, h, data) \<Rightarrow> Some data | _ \<Rightarrow> None, w\<lparr>w_storage := n\<rparr>))"

section \<open>Sending the replicas\<close>

text \<open>Where the manager puts a replica: its own at its own address, whatever address the registry has.\<close>

definition replica_place :: "ReplicationManager \<Rightarrow> ReplicaInfo \<Rightarrow> string" where
  "replica_place rm r = (if ri_node_id r = rm_local_node_id rm then rm_local_address rm else ri_address r)"

definition placed ::
  "('n \<Rightarrow> string \<Rightarrow> string \<Rightarrow> (string \<times> bytes) option) \<Rightarrow> ReplicationManager \<Rightarrow> 'n \<Rightarrow> string \<Rightarrow> bytes
   \<Rightarrow> ReplicaInfo list \<Rightarrow> bool" where
  "placed stored rm n cid data reps \<longleftrightarrow>
     (\<forall>r \<in> set reps. stored n (replica_place rm r) cid = Some (sha256 data, data))"

text \<open>A header that describes its payload.\<close>

definition describes :: "ChunkHeaderData \<Rightarrow> bytes \<Rightarrow> bool" where
  "describes h d \<longleftrightarrow> length d = unat (ch_size h) \<and> ch_checksum h = sha256 d
     \<and> length (ch_chunk_id h) < 2 ^ 32 \<and> length (ch_object_id h) < 2 ^ 32"

definition send_replica ::
  "'n net \<Rightarrow> ReplicationManager \<Rightarrow> ChunkHeaderData \<Rightarrow> bytes \<Rightarrow> ClusterNodeInfo \<Rightarrow> 'n world \<Rightarrow> bool \<times> 'n world" where
  "send_replica net rm h d node w =
     (if cn_node_id node = rm_local_node_id rm then write_local_replica net rm h d w
      else replicate_to_node net rm (cn_address node) h d w)"

definition node_place :: "ReplicationManager \<Rightarrow> ClusterNodeInfo \<Rightarrow> string" where
  "node_place rm node = (if cn_node_id node = rm_local_node_id rm then rm_local_address rm else cn_address node)"

lemma send_replica_frame:
  "w_meta (snd (send_replica net rm h d node w)) = w_meta w"
  "w_calls (snd (send_replica net rm h d node w)) = w_calls w"
  by (simp_all add: send_replica_def write_local_replica_def replicate_to_node_def split: prod.splits)

context replica_storage
begin

lemma send_replica_stored:
  assumes "n_api net = api" "describes h d" "send_replica net rm h d node w = (b, w')"
  shows "b \<Longrightarrow> stored (w_storage w') (node_place rm node) (ch_chunk_id h) = Some (sha256 d, d)"
    and "\<not> b \<Longrightarrow> stored (w_storage w') (node_place rm node) (ch_chunk_id h)
      \<in> {stored (w_storage w) (node_place rm node) (ch_chunk_id h), Some (sha256 d, d)}"
    and "cid \<noteq> ch_chunk_id h \<or> addr \<noteq> node_place rm node \<Longrightarrow>
      stored (w_storage w') addr cid = stored (w_storage w) addr cid"
proof -
  have d: "length d = unat (ch_size h)" "ch_checksum h = sha256 d"
      "length (ch_chunk_id h) < 2 ^ 32" "length (ch_object_id h) < 2 ^ 32"
    using assms(2) by (simp_all add: describes_def)
  let ?h = "h\<lparr>ch_created_at_ms := 0\<rparr>"
  have all: "(b \<longrightarrow> stored (w_storage w') (node_place rm node) (ch_chunk_id h) = Some (sha256 d, d))
    \<and> (\<not> b \<longrightarrow> stored (w_storage w') (node_place rm node) (ch_chunk_id h)
        \<in> {stored (w_storage w) (node_place rm node) (ch_chunk_id h), Some (sha256 d, d)})
    \<and> (cid \<noteq> ch_chunk_id h \<or> addr \<noteq> node_place rm node \<longrightarrow>
        stored (w_storage w') addr cid = stored (w_storage w) addr cid)"
  proof (cases "cn_node_id node = rm_local_node_id rm")
    case True
    obtain r n where wr: "sa_WriteChunk api (rm_local_address rm) ?h d (w_storage w) = (r, n)" by force
    then have "b = (r = Some True)" "w' = w\<lparr>w_storage := n\<rparr>"
      using assms(1,3) True by (simp_all add: send_replica_def write_local_replica_def)
    then show ?thesis
      using True wr d write_done [of "rm_local_address rm" ?h d "w_storage w" n] write_undone [OF wr] write_other [OF wr]
      by (simp add: node_place_def)
  next
    case False
    obtain r n where wr: "sa_ReplicateChunk api (cn_address node) h d (rm_local_node_id rm) (w_storage w) = (r, n)" by force
    then have "b = (r = Some True)" "w' = w\<lparr>w_storage := n\<rparr>"
      using assms(1,3) False by (simp_all add: send_replica_def replicate_to_node_def)
    then show ?thesis
      using False wr d replicate_done [of "cn_address node" h d "rm_local_node_id rm" "w_storage w" n]
        replicate_undone [OF wr] replicate_other [OF wr]
      by (simp add: node_place_def)
  qed
  show "b \<Longrightarrow> stored (w_storage w') (node_place rm node) (ch_chunk_id h) = Some (sha256 d, d)"
    and "\<not> b \<Longrightarrow> stored (w_storage w') (node_place rm node) (ch_chunk_id h)
      \<in> {stored (w_storage w) (node_place rm node) (ch_chunk_id h), Some (sha256 d, d)}"
    and "cid \<noteq> ch_chunk_id h \<or> addr \<noteq> node_place rm node \<Longrightarrow>
      stored (w_storage w') addr cid = stored (w_storage w) addr cid"
    using all by blast+
qed

lemma replicate_nodes_placed:
  assumes "n_api net = api" "describes h d" "placed stored rm (w_storage w) (ch_chunk_id h) d reps"
    and "replicate_nodes net rm version h d nodes reps w = (reps', w')"
  shows "placed stored rm (w_storage w') (ch_chunk_id h) d reps'
    \<and> (\<forall>addr cid. cid \<noteq> ch_chunk_id h \<longrightarrow> stored (w_storage w') addr cid = stored (w_storage w) addr cid)
    \<and> (\<forall>addr. stored (w_storage w') addr (ch_chunk_id h) \<in> {stored (w_storage w) addr (ch_chunk_id h), Some (sha256 d, d)})"
  using assms(3,4)
proof (induction nodes arbitrary: reps w)
  case (Cons node nodes)
  obtain b w1 where w1: "send_replica net rm h d node w = (b, w1)" by force
  note sent = send_replica_stored [OF assms(1,2) w1]
  let ?rep = "\<lparr>ri_node_id = cn_node_id node, ri_address = cn_address node, ri_is_primary = (reps = []), ri_version = version\<rparr>"
  let ?reps = "if b then reps @ [?rep] else reps"
  have "stored (w_storage w1) (replica_place rm r) (ch_chunk_id h) = Some (sha256 d, d)" if "r \<in> set reps" for r
    using that Cons.prems(1) sent(1,2) sent(3) [of "ch_chunk_id h" "replica_place rm r"]
    by (cases "replica_place rm r = node_place rm node"; cases b) (auto simp: placed_def)
  moreover have "replica_place rm ?rep = node_place rm node" by (simp add: replica_place_def node_place_def)
  ultimately have "placed stored rm (w_storage w1) (ch_chunk_id h) d ?reps"
    using sent(1) by (auto simp: placed_def)
  moreover have "replicate_nodes net rm version h d nodes ?reps w1 = (reps', w')"
    using Cons.prems(2) w1 [unfolded send_replica_def] by simp
  ultimately have IH: "placed stored rm (w_storage w') (ch_chunk_id h) d reps'
    \<and> (\<forall>addr cid. cid \<noteq> ch_chunk_id h \<longrightarrow> stored (w_storage w') addr cid = stored (w_storage w1) addr cid)
    \<and> (\<forall>addr. stored (w_storage w') addr (ch_chunk_id h) \<in> {stored (w_storage w1) addr (ch_chunk_id h), Some (sha256 d, d)})"
    by (rule Cons.IH)
  have "stored (w_storage w1) addr (ch_chunk_id h) \<in> {stored (w_storage w) addr (ch_chunk_id h), Some (sha256 d, d)}" for addr
    using sent(1,2) sent(3) [of "ch_chunk_id h" addr] by (cases "addr = node_place rm node"; cases b) auto
  then have "stored (w_storage w') addr (ch_chunk_id h) \<in> {stored (w_storage w) addr (ch_chunk_id h), Some (sha256 d, d)}" for addr
    using IH by (metis insertE insertI1 insertI2 singletonD)
  with IH sent(3) show ?case by simp
qed simp

end

text \<open>The replicas are those of a part of the nodes, in their order; the first acknowledged one is the primary.\<close>

definition one_primary :: "ReplicaInfo list \<Rightarrow> bool" where
  "one_primary reps \<longleftrightarrow> (\<forall>i < length reps. ri_is_primary (reps ! i) \<longleftrightarrow> i = 0)"

lemma one_primary_snoc:
  "one_primary reps \<Longrightarrow> ri_is_primary r = (reps = []) \<Longrightarrow> one_primary (reps @ [r])"
  by (auto simp: one_primary_def nth_append less_Suc_eq)

lemma replicate_nodes_shape:
  assumes "replicate_nodes net rm version h d nodes reps w = (reps', w')" "one_primary reps"
  shows "w_meta w' = w_meta w \<and> w_calls w' = w_calls w \<and> one_primary reps'
    \<and> (\<exists>new. reps' = reps @ new \<and> (\<forall>r \<in> set new. ri_version r = version)
        \<and> subseq (map (\<lambda>r. (ri_node_id r, ri_address r)) new) (map (\<lambda>n. (cn_node_id n, cn_address n)) nodes))"
  using assms
proof (induction nodes arbitrary: reps w)
  case (Cons node nodes)
  obtain b w1 where w1: "send_replica net rm h d node w = (b, w1)" by force
  have frame: "w_meta w1 = w_meta w" "w_calls w1 = w_calls w"
    using send_replica_frame [of net rm h d node w] w1 by simp_all
  let ?rep = "\<lparr>ri_node_id = cn_node_id node, ri_address = cn_address node, ri_is_primary = (reps = []), ri_version = version\<rparr>"
  let ?reps = "if b then reps @ [?rep] else reps"
  have "replicate_nodes net rm version h d nodes ?reps w1 = (reps', w')"
    using Cons.prems(1) w1 [unfolded send_replica_def] by simp
  moreover have "one_primary ?reps" using Cons.prems(2) by (simp add: one_primary_snoc)
  ultimately have "w_meta w' = w_meta w1 \<and> w_calls w' = w_calls w1 \<and> one_primary reps'
    \<and> (\<exists>new. reps' = ?reps @ new \<and> (\<forall>r \<in> set new. ri_version r = version)
        \<and> subseq (map (\<lambda>r. (ri_node_id r, ri_address r)) new) (map (\<lambda>n. (cn_node_id n, cn_address n)) nodes))"
    by (rule Cons.IH)
  then obtain new where new: "w_meta w' = w_meta w1" "w_calls w' = w_calls w1" "one_primary reps'" "reps' = ?reps @ new"
      "\<forall>r \<in> set new. ri_version r = version"
      "subseq (map (\<lambda>r. (ri_node_id r, ri_address r)) new) (map (\<lambda>n. (cn_node_id n, cn_address n)) nodes)"
    by blast
  show ?case
    using new frame by (intro conjI exI [of _ "(if b then [?rep] else []) @ new"]) auto
qed simp

lemma SelectNodes_least_used:
  assumes "ms_inv m" "SelectNodes cfg ev cnt ''least_used'' m = (nodes, m')"
  shows "m' = m" "distinct (map cn_node_id nodes)" "length nodes = min (unat cnt) (length (online_nodes m))"
    "\<And>node. node \<in> set nodes \<Longrightarrow> \<exists>n. get_node (cn_node_id node) m = Some n \<and> ni_online n \<and> ni_address n = cn_address node"
proof -
  define xs where "xs = sort_key ni_chunk_count (sort_key (\<lambda>n. ev_rank ev (ni_id n)) (online_nodes m))"
  have nodes: "nodes = map (node_to_proto False) (take (unat cnt) xs)" and m: "m' = m"
    using assms(2) by (auto simp: SelectNodes_def requested_strategy_def select_nodes_def Let_def xs_def
        online_nodes_def [symmetric] split: if_splits prod.splits)
  show "m' = m" by (fact m)
  show "length nodes = min (unat cnt) (length (online_nodes m))" by (simp add: nodes xs_def min.commute)
  have "distinct (map ni_id xs)" using distinct_online [OF assms(1)] by (simp add: xs_def distinct_map_sort_key)
  then show "distinct (map cn_node_id nodes)"
    by (simp add: nodes comp_def node_to_proto_def take_map [symmetric])
  fix node assume "node \<in> set nodes"
  then obtain n where n: "node = node_to_proto False n" "n \<in> set xs" by (auto simp: nodes dest: in_set_takeD)
  then obtain i where "(i, n) \<in> set (ms_nodes m)" "ni_online n" by (auto simp: xs_def online_nodes_def)
  moreover from this have "um_find (ms_nodes m) i = Some n" using assms(1) by (simp add: ms_inv_def um_find_mem)
  moreover from this have "ni_id n = i" using assms(1) by (simp add: ms_inv_def)
  ultimately show "\<exists>n. get_node (cn_node_id node) m = Some n \<and> ni_online n \<and> ni_address n = cn_address node"
    by (auto simp: get_node_def n(1) node_to_proto_def)
qed

lemma unat_required_acks:
  "unat (required_acks policy rf) = (case policy of All \<Rightarrow> unat rf | Majority \<Rightarrow> unat rf div 2 + 1)"
proof -
  have "unat rf < 2 ^ 32" using unsigned_less [of rf] by simp
  then show ?thesis by (cases policy) (simp_all add: required_acks_def unat_word_ariths unat_div)
qed

lemma required_acks_pos: "rf \<noteq> 0 \<Longrightarrow> 0 < required_acks policy rf"
  by (cases policy) (simp_all add: word_gt_0 unat_eq_0 [symmetric] unat_required_acks)

text \<open>The cases of \<open>replicate_chunk\<close>: no selection, or the loop over the selected nodes.\<close>

definition replica_header :: "'n net \<Rightarrow> ChunkInfo \<Rightarrow> bytes \<Rightarrow> nat \<Rightarrow> ChunkHeaderData" where
  "replica_header net chunk data i = \<lparr>ch_chunk_id = ci_chunk_id chunk, ch_object_id = ci_object_id chunk,
     ch_version = ci_version chunk, ch_size = word_of_nat (length data), ch_checksum = sha256 data,
     ch_created_at_ms = n_now net i\<rparr>"

lemma describes_replica_header:
  "length data < 2 ^ 64 \<Longrightarrow> length (ci_chunk_id chunk) < 2 ^ 32 \<Longrightarrow> length (ci_object_id chunk) < 2 ^ 32
   \<Longrightarrow> describes (replica_header net chunk data i) data"
  by (simp add: describes_def replica_header_def unsigned_of_nat take_bit_nat_eq_self)

lemma replicate_chunk_cases:
  assumes "replicate_chunk net rm chunk data rf policy w = (res, w')" "ms_inv (w_meta w)"
  obtains (none) "\<not> rr_success res" "rr_replicas res = []" "w_storage w' = w_storage w" "w_meta w' = w_meta w"
      "w_calls w' = Suc (w_calls w)"
  | (sent) ev nodes where "SelectNodes (n_cfg net) ev rf ''least_used'' (w_meta w) = (nodes, w_meta w)" "nodes \<noteq> []"
      "replicate_nodes net rm (ci_version chunk) (replica_header net chunk data (Suc (w_calls w))) data nodes []
         (w\<lparr>w_calls := Suc (w_calls w)\<rparr>) = (rr_replicas res, w')"
      "rr_success res \<longleftrightarrow> required_acks policy rf \<le> word_of_nat (length (rr_replicas res))"
proof -
  obtain nodes m where sel: "SelectNodes (n_cfg net) (n_env net (w_calls w)) rf ''least_used'' (w_meta w) = (nodes, m)"
    by force
  have m: "m = w_meta w" using SelectNodes_least_used(1) [OF assms(2) sel] .
  have r: "rpc net (\<lambda>ev. SelectNodes (n_cfg net) ev rf ''least_used'') w
      = (if n_fate net (w_calls w) = Delivered then Some nodes else None, w\<lparr>w_calls := Suc (w_calls w)\<rparr>)"
    by (cases "n_fate net (w_calls w)") (simp_all add: rpc_def sel m)
  show ?thesis
  proof (cases "n_fate net (w_calls w) = Delivered \<and> nodes \<noteq> []")
    case True
    obtain reps w2 where l: "replicate_nodes net rm (ci_version chunk) (replica_header net chunk data (Suc (w_calls w))) data nodes []
         (w\<lparr>w_calls := Suc (w_calls w)\<rparr>) = (reps, w2)" by force
    with assms(1) True r have "rr_replicas res = reps" "w' = w2"
        "rr_success res \<longleftrightarrow> required_acks policy rf \<le> word_of_nat (length reps)"
      by (auto simp: replicate_chunk_def Let_def replica_header_def)
    with sent [OF sel [unfolded m]] True l show ?thesis by simp
  next
    case False
    with assms(1) r none show ?thesis by (auto simp: replicate_chunk_def split: if_splits)
  qed
qed

context replica_storage
begin

lemma replicate_chunk_stored:
  assumes "n_api net = api" "ms_inv (w_meta w)" "length data < 2 ^ 64"
    and "length (ci_chunk_id chunk) < 2 ^ 32" "length (ci_object_id chunk) < 2 ^ 32"
    and "replicate_chunk net rm chunk data rf policy w = (res, w')"
  shows "placed stored rm (w_storage w') (ci_chunk_id chunk) data (rr_replicas res)"
    and "cid \<noteq> ci_chunk_id chunk \<Longrightarrow> stored (w_storage w') addr cid = stored (w_storage w) addr cid"
    and "stored (w_storage w') addr (ci_chunk_id chunk)
      \<in> {stored (w_storage w) addr (ci_chunk_id chunk), Some (sha256 data, data)}"
    and "w_meta w' = w_meta w"
proof -
  have all: "placed stored rm (w_storage w') (ci_chunk_id chunk) data (rr_replicas res)
    \<and> (cid \<noteq> ci_chunk_id chunk \<longrightarrow> stored (w_storage w') addr cid = stored (w_storage w) addr cid)
    \<and> stored (w_storage w') addr (ci_chunk_id chunk)
        \<in> {stored (w_storage w) addr (ci_chunk_id chunk), Some (sha256 data, data)}
    \<and> w_meta w' = w_meta w"
  proof (rule replicate_chunk_cases [OF assms(6,2)], goal_cases)
    case 1
    then show ?thesis by (simp add: placed_def)
  next
    case (2 ev nodes)
    have id: "ch_chunk_id (replica_header net chunk data i) = ci_chunk_id chunk" for i by (simp add: replica_header_def)
    have "placed stored rm (w_storage (w\<lparr>w_calls := Suc (w_calls w)\<rparr>)) (ci_chunk_id chunk) data []" by (simp add: placed_def)
    from replicate_nodes_placed [OF assms(1) describes_replica_header [OF assms(3-5)] _ 2(3), unfolded id, OF this]
    have "placed stored rm (w_storage w') (ci_chunk_id chunk) data (rr_replicas res)
      \<and> (\<forall>addr cid. cid \<noteq> ci_chunk_id chunk \<longrightarrow> stored (w_storage w') addr cid = stored (w_storage w) addr cid)
      \<and> (\<forall>addr. stored (w_storage w') addr (ci_chunk_id chunk)
          \<in> {stored (w_storage w) addr (ci_chunk_id chunk), Some (sha256 data, data)})" by simp
    moreover have "w_meta w' = w_meta w"
      using replicate_nodes_shape [OF 2(3)] by (simp add: one_primary_def)
    ultimately show ?thesis by blast
  qed
  then show "placed stored rm (w_storage w') (ci_chunk_id chunk) data (rr_replicas res)"
    and "cid \<noteq> ci_chunk_id chunk \<Longrightarrow> stored (w_storage w') addr cid = stored (w_storage w) addr cid"
    and "stored (w_storage w') addr (ci_chunk_id chunk)
      \<in> {stored (w_storage w) addr (ci_chunk_id chunk), Some (sha256 data, data)}"
    and "w_meta w' = w_meta w" by blast+
qed

end

text \<open>What the answer says of the nodes, independent of the storage service.\<close>

lemma replicate_chunk_answer:
  assumes "ms_inv (w_meta w)" "replicate_chunk net rm chunk data rf policy w = (res, w')"
  shows "rr_success res \<longleftrightarrow> rf \<noteq> 0 \<and> unat (required_acks policy rf) \<le> length (rr_replicas res)"
    and "length (rr_replicas res) \<le> unat rf" "distinct (map ri_node_id (rr_replicas res))"
    and "one_primary (rr_replicas res)" "\<forall>r \<in> set (rr_replicas res). ri_version r = ci_version chunk"
    and "\<forall>r \<in> set (rr_replicas res). \<exists>n. get_node (ri_node_id r) (w_meta w) = Some n
      \<and> ni_online n \<and> ni_address n = ri_address r"
    and "w_meta w' = w_meta w"
proof -
  let ?reps = "rr_replicas res"
  have all: "(rr_success res \<longleftrightarrow> rf \<noteq> 0 \<and> unat (required_acks policy rf) \<le> length ?reps)
    \<and> length ?reps \<le> unat rf \<and> distinct (map ri_node_id ?reps) \<and> one_primary ?reps
    \<and> (\<forall>r \<in> set ?reps. ri_version r = ci_version chunk)
    \<and> (\<forall>r \<in> set ?reps. \<exists>n. get_node (ri_node_id r) (w_meta w) = Some n \<and> ni_online n \<and> ni_address n = ri_address r)
    \<and> w_meta w' = w_meta w"
  proof (rule replicate_chunk_cases [OF assms(2,1)], goal_cases)
    case 1
    then show ?thesis using required_acks_pos [of rf policy]
      by (auto simp: one_primary_def word_gt_0 unat_eq_0)
  next
    case (2 ev nodes)
    note sel = SelectNodes_least_used [OF assms(1) 2(1)]
    have shape: "w_meta w' = w_meta w" "one_primary ?reps" "\<forall>r \<in> set ?reps. ri_version r = ci_version chunk"
        "subseq (map (\<lambda>r. (ri_node_id r, ri_address r)) ?reps) (map (\<lambda>n. (cn_node_id n, cn_address n)) nodes)"
      using replicate_nodes_shape [OF 2(3)] by (auto simp: one_primary_def)
    have "subseq (map ri_node_id ?reps) (map cn_node_id nodes)"
      using subseq_map [OF shape(4), of fst] by (simp add: comp_def)
    then have dist: "distinct (map ri_node_id ?reps)" using sel(2) subseq_distinct by blast
    have len: "length ?reps \<le> unat rf"
      using list_emb_length [OF shape(4)] sel(3) by simp
    moreover have "unat rf < 2 ^ 32" using unsigned_less [of rf] by simp
    ultimately have "unat (word_of_nat (length ?reps) :: u32) = length ?reps"
      by (simp add: unsigned_of_nat take_bit_nat_eq_self)
    then have "rr_success res \<longleftrightarrow> unat (required_acks policy rf) \<le> length ?reps"
      using 2(4) by (simp add: word_le_nat_alt)
    moreover have "rf \<noteq> 0" using 2(2) sel(3) by auto
    moreover have "\<exists>n. get_node (ri_node_id r) (w_meta w) = Some n \<and> ni_online n \<and> ni_address n = ri_address r"
      if "r \<in> set ?reps" for r
    proof -
      have "(ri_node_id r, ri_address r) \<in> set (map (\<lambda>n. (cn_node_id n, cn_address n)) nodes)"
        using that list_emb_set [OF shape(4)] by force
      then show ?thesis using sel(4) by auto
    qed
    ultimately show ?thesis using shape dist len by blast
  qed
  then show "rr_success res \<longleftrightarrow> rf \<noteq> 0 \<and> unat (required_acks policy rf) \<le> length ?reps"
    and "length ?reps \<le> unat rf" "distinct (map ri_node_id ?reps)" "one_primary ?reps"
    and "\<forall>r \<in> set ?reps. ri_version r = ci_version chunk"
    and "\<forall>r \<in> set ?reps. \<exists>n. get_node (ri_node_id r) (w_meta w) = Some n \<and> ni_online n \<and> ni_address n = ri_address r"
    and "w_meta w' = w_meta w" by blast+
qed

section \<open>Properties of replication\<close>

text \<open>C16. The replication manager reports success exactly when the acknowledgement policy is met (a majority
  of the replication factor, or all of it) by distinct registered online nodes, of which the first
  is the primary; every replica it reports holds the payload with its digest, no other chunk is
  touched on any node, and the metadata is left as it was. Lost calls are included.\<close>

theorem replication_quorum:
  assumes "replica_storage (n_api net) stored" "ms_inv (w_meta w)" "length data < 2 ^ 64"
    and "length (ci_chunk_id chunk) < 2 ^ 32" "length (ci_object_id chunk) < 2 ^ 32"
    and "replicate_chunk net rm chunk data rf policy w = (res, w')"
  shows "(rr_success res \<longleftrightarrow> rf \<noteq> 0
        \<and> (case policy of All \<Rightarrow> unat rf | Majority \<Rightarrow> unat rf div 2 + 1) \<le> length (rr_replicas res))
    \<and> distinct (map ri_node_id (rr_replicas res)) \<and> one_primary (rr_replicas res)
    \<and> (\<forall>r \<in> set (rr_replicas res). (\<exists>n. get_node (ri_node_id r) (w_meta w) = Some n
          \<and> ni_online n \<and> ni_address n = ri_address r)
        \<and> stored (w_storage w') (replica_place rm r) (ci_chunk_id chunk) = Some (sha256 data, data))
    \<and> (\<forall>addr cid. cid \<noteq> ci_chunk_id chunk \<longrightarrow> stored (w_storage w') addr cid = stored (w_storage w) addr cid)
    \<and> w_meta w' = w_meta w"
proof -
  note answer = replicate_chunk_answer [OF assms(2,6)]
    and held = replica_storage.replicate_chunk_stored [OF assms(1) refl assms(2-6)]
  show ?thesis using answer held(1,2,4) unfolding placed_def unat_required_acks by simp
qed

definition example_manager :: ReplicationManager where
  "example_manager = \<lparr>rm_local_node_id = ''n1'', rm_local_address = ''hn1''\<rparr>"

lemma example_node_selected:
  "SelectNodes cfg ev 1 ''least_used'' (w_meta example_world)
   = ([node_to_proto False ((example_node ''n1'' 0)\<lparr>ni_online := True, ni_last_heartbeat := 5\<rparr>)], w_meta example_world)"
  by (simp add: SelectNodes_def requested_strategy_def select_nodes_def Let_def example_world_def register_node_def
      MetadataStore_def load_def um_assign_def example_node_def NodeInfo_default_def example_env_def)

lemma example_replication:
  "rr_success (fst (replicate_chunk example_net example_manager ChunkInfo_default [1, 2] 1 Majority example_world))"
  by (simp add: replicate_chunk_def rpc_def example_node_selected Let_def write_local_replica_def example_manager_def
      split_def replicate_to_node_def node_to_proto_def example_node_def store_api_def write_chunk_result write_accepted_def full_io_def
      required_acks_def ChunkInfo_default_def NodeInfo_default_def example_net_def)

theorem replication_quorum_witness:
  "\<exists>r. rr_replicas (fst (replicate_chunk example_net example_manager ChunkInfo_default [1, 2] 1 Majority example_world)) = [r]
    \<and> store_stored (w_storage (snd (replicate_chunk example_net example_manager ChunkInfo_default [1, 2] 1 Majority
          example_world))) (replica_place example_manager r) [] = Some (sha256 [1, 2], [1, 2])"
proof -
  let ?r = "replicate_chunk example_net example_manager ChunkInfo_default [1, 2] 1 Majority example_world"
  have api: "replica_storage (n_api example_net) store_stored"
    unfolding example_facts(5) by (rule store_replicas.replica_storage_axioms)
  note q = replication_quorum [OF api ms_inv_world _ _ _ prod.collapse [symmetric],
      of "[1, 2]" ChunkInfo_default example_manager 1 Majority]
  have "length (rr_replicas (fst ?r)) = 1"
    using q example_replication
      replicate_chunk_answer(2) [OF ms_inv_world prod.collapse [symmetric], of example_net example_manager
        ChunkInfo_default "[1, 2]" 1 Majority]
    by (simp add: ChunkInfo_default_def)
  then obtain r where r: "rr_replicas (fst ?r) = [r]" by (auto simp: length_Suc_conv)
  with q show ?thesis by (simp add: ChunkInfo_default_def)
qed

end
