(* ===== verification/Recovery.thy ===== *)
theory Recovery
  imports Replication
begin

text \<open>
  \<open>src/recovery/recovery_manager.cpp\<close>: the recovery of chunks with too few live replicas. A pass asks
  the metadata service for them, reads each from one of its recorded replicas, replicates it anew and
  records the new replicas. \<open>cfg\<close> is the configuration of the recovering process. The lemmas carry an
  invariant over the loop: every recorded replica of every chunk holds the chunk's payload.
\<close>

section \<open>Definitions\<close>

record RecoveryResult =
  rcv_success :: bool
  rcv_chunks_recovered :: u32
  rcv_message :: string

fun fetch_chunk_from_replica ::
  "'n net \<Rightarrow> string \<Rightarrow> string \<Rightarrow> ReplicaInfo list \<Rightarrow> 'n world \<Rightarrow> bytes option \<times> 'n world" where
  "fetch_chunk_from_replica net chunk_id exclude_node [] w = (None, w)"
| "fetch_chunk_from_replica net chunk_id exclude_node (rep # reps) w =
     (if ri_node_id rep = exclude_node then fetch_chunk_from_replica net chunk_id exclude_node reps w
      else case read_from_replica net rep chunk_id w of
        (Some data, w1) \<Rightarrow> (Some data, w1)
      | (None, w1) \<Rightarrow> fetch_chunk_from_replica net chunk_id exclude_node reps w1)"

text \<open>One iteration of the loop both operations have; the result counts a recovered chunk. The answer to
  \<open>UpdateChunk\<close> is not looked at.\<close>

definition recover_chunk ::
  "'n net \<Rightarrow> ClusterConfig \<Rightarrow> ReplicationManager \<Rightarrow> string \<Rightarrow> ChunkInfo \<Rightarrow> 'n world \<Rightarrow> bool \<times> 'n world" where
  "recover_chunk net cfg rm exclude_node chunk w =
     (case fetch_chunk_from_replica net (ci_chunk_id chunk) exclude_node (ci_replicas chunk) w of
        (None, w1) \<Rightarrow> (False, w1)
      | (Some data, w1) \<Rightarrow>
          (let (rep_result, w2) = replicate_chunk net rm chunk data (cc_replication_factor cfg) (cc_write_ack cfg) w1
           in if rr_success rep_result
              then let pb = chunk_to_proto (chunk\<lparr>ci_version := ci_version chunk + 1,
                              ci_replicas := rr_replicas rep_result\<rparr>)
                   in (True, snd (rpc net (\<lambda>ev. UpdateChunk ev (ci_object_id chunk) pb) w2))
              else (False, w2)))"

fun recover_chunks ::
  "'n net \<Rightarrow> ClusterConfig \<Rightarrow> ReplicationManager \<Rightarrow> string \<Rightarrow> ChunkMetadata list \<Rightarrow> u32 \<Rightarrow> 'n world \<Rightarrow> u32 \<times> 'n world" where
  "recover_chunks net cfg rm exclude_node [] recovered w = (recovered, w)"
| "recover_chunks net cfg rm exclude_node (pb_chunk # rest) recovered w =
     (let (ok, w1) = recover_chunk net cfg rm exclude_node (from_proto pb_chunk) w
      in recover_chunks net cfg rm exclude_node rest (if ok then recovered + 1 else recovered) w1)"

text \<open>The answers to the two queries are not checked; an unanswered one leaves an empty list of chunks.\<close>

definition recover_failed_node ::
  "'n net \<Rightarrow> ClusterConfig \<Rightarrow> ReplicationManager \<Rightarrow> string \<Rightarrow> 'n world \<Rightarrow> RecoveryResult \<times> 'n world" where
  "recover_failed_node net cfg rm failed_node_id w =
     (let w1 = snd (rpc net (\<lambda>ev. MarkNodeOffline ev failed_node_id) w);
          (r, w2) = rpc net (readonly (GetUnderReplicatedChunks (n_cfg net))) w1;
          (recovered, w3) = recover_chunks net cfg rm failed_node_id (case r of None \<Rightarrow> [] | Some cs \<Rightarrow> cs) 0 w2
      in (\<lparr>rcv_success = True, rcv_chunks_recovered = recovered, rcv_message = ''Recovery complete''\<rparr>, w3))"

definition repair_under_replicated_chunks ::
  "'n net \<Rightarrow> ClusterConfig \<Rightarrow> ReplicationManager \<Rightarrow> 'n world \<Rightarrow> RecoveryResult \<times> 'n world" where
  "repair_under_replicated_chunks net cfg rm w =
     (case rpc net (readonly (GetUnderReplicatedChunks (n_cfg net))) w of
        (None, w1) \<Rightarrow> (\<lparr>rcv_success = False, rcv_chunks_recovered = 0,
                         rcv_message = ''Failed to query under-replicated chunks''\<rparr>, w1)
      | (Some cs, w1) \<Rightarrow>
          (let (recovered, w2) = recover_chunks net cfg rm [] cs 0 w1
           in (\<lparr>rcv_success = True, rcv_chunks_recovered = recovered, rcv_message = ''Repair complete''\<rparr>, w2)))"

text \<open>The background thread. The list holds what the loop reads of \<open>running_\<close> at its head.\<close>

record recovery_thread =
  rt_running :: bool
  rt_interval_sec :: u32
  rt_started :: nat

definition start_background_recovery :: "u32 \<Rightarrow> recovery_thread \<Rightarrow> recovery_thread" where
  "start_background_recovery interval_sec t =
     (let t1 = t\<lparr>rt_interval_sec := interval_sec\<rparr>
      in if rt_running t then t1 else t1\<lparr>rt_running := True, rt_started := rt_started t + 1\<rparr>)"

definition stop_recovery :: "recovery_thread \<Rightarrow> recovery_thread" where
  "stop_recovery t = t\<lparr>rt_running := False\<rparr>"

fun recovery_loop :: "'n net \<Rightarrow> ClusterConfig \<Rightarrow> ReplicationManager \<Rightarrow> bool list \<Rightarrow> 'n world \<Rightarrow> 'n world" where
  "recovery_loop net cfg rm [] w = w"
| "recovery_loop net cfg rm (running # rest) w =
     (if running then recovery_loop net cfg rm rest (snd (repair_under_replicated_chunks net cfg rm w)) else w)"

section \<open>The invariant\<close>

text \<open>\<open>payload\<close> gives each chunk id its bytes. A chunk descriptor is sound when its digest is that of its
  payload and every replica it names holds it; the metadata is intact when every recorded chunk is.\<close>

definition sound_chunk ::
  "('n \<Rightarrow> string \<Rightarrow> string \<Rightarrow> (string \<times> bytes) option) \<Rightarrow> (string \<Rightarrow> bytes) \<Rightarrow> 'n \<Rightarrow> ChunkInfo \<Rightarrow> bool" where
  "sound_chunk stored payload n c \<longleftrightarrow> chunk_stored stored n c (payload (ci_chunk_id c))
     \<and> length (payload (ci_chunk_id c)) < 2 ^ 64 \<and> length (ci_chunk_id c) < 2 ^ 32 \<and> length (ci_object_id c) < 2 ^ 32"

definition all_chunks :: "metadata_store \<Rightarrow> ChunkInfo set" where
  "all_chunks m = {c. \<exists>i obj. um_find (ms_objects_by_id m) i = Some obj \<and> c \<in> set (oi_chunks obj)}"

definition intact ::
  "('n \<Rightarrow> string \<Rightarrow> string \<Rightarrow> (string \<times> bytes) option) \<Rightarrow> (string \<Rightarrow> bytes) \<Rightarrow> 'n world \<Rightarrow> bool" where
  "intact stored payload w \<longleftrightarrow> (\<forall>c \<in> all_chunks (w_meta w). sound_chunk stored payload (w_storage w) c)"

text \<open>Storage changes only by writing payloads.\<close>

definition payload_writes ::
  "('n \<Rightarrow> string \<Rightarrow> string \<Rightarrow> (string \<times> bytes) option) \<Rightarrow> (string \<Rightarrow> bytes) \<Rightarrow> 'n \<Rightarrow> 'n \<Rightarrow> bool" where
  "payload_writes stored payload n n' \<longleftrightarrow>
     (\<forall>addr cid. stored n' addr cid = stored n addr cid \<or> stored n' addr cid = Some (sha256 (payload cid), payload cid))"

lemma payload_writes_trans:
  "payload_writes stored payload n n1 \<Longrightarrow> payload_writes stored payload n1 n2 \<Longrightarrow> payload_writes stored payload n n2"
  unfolding payload_writes_def by metis

lemma payload_writes_refl: "stored n' = stored n \<Longrightarrow> payload_writes stored payload n n'"
  by (simp add: payload_writes_def)

lemma sound_chunk_mono:
  assumes "payload_writes stored payload n n'" "sound_chunk stored payload n c"
  shows "sound_chunk stored payload n' c"
proof -
  have "stored n' (ri_address r) (ci_chunk_id c) = Some (sha256 (payload (ci_chunk_id c)), payload (ci_chunk_id c))"
    if "r \<in> set (ci_replicas c)" for r
    using assms that unfolding payload_writes_def sound_chunk_def chunk_stored_def replicas_hold_def by metis
  with assms(2) show ?thesis by (simp add: sound_chunk_def chunk_stored_def replicas_hold_def)
qed

lemma set_under_replicated:
  assumes "ms_inv m"
  shows "set (get_under_replicated_chunks rf m) = {c \<in> all_chunks m. live_replicas m c < unat rf}"
proof -
  have "um_inv (ms_objects_by_id m)" using assms by (simp add: ms_inv_def namespace_inv_def)
  then show ?thesis
    by (auto simp: get_under_replicated_chunks_def all_chunks_def um_find_mem) (metis um_find_mem)+
qed

text \<open>The file's chunks, as their ids in order.\<close>

definition layout :: "metadata_store \<Rightarrow> string \<Rightarrow> string list option" where
  "layout m f = map_option (\<lambda>obj. map ci_chunk_id (oi_chunks obj)) (locate_by_filename f m)"

lemma replace_chunk_Some:
  "replace_chunk c cs = Some cs' \<Longrightarrow> map ci_chunk_id cs' = map ci_chunk_id cs \<and> set cs' \<subseteq> insert c (set cs)"
  by (induction cs arbitrary: cs') (auto split: if_splits)

lemma update_chunk_effect:
  assumes inv: "ms_inv m" and u: "update_chunk ev i chunk m = (b, m')"
  shows "ms_inv m'" "layout m' = layout m" "all_chunks m' \<subseteq> insert chunk (all_chunks m)" "ms_nodes m' = ms_nodes m"
proof -
  show "ms_inv m'" using update_chunk_step [OF inv u] by simp
  have um: "um_inv (ms_objects_by_id m)" using inv by (simp add: ms_inv_def namespace_inv_def)
  consider "m' = m"
    | obj chunks where "um_find (ms_objects_by_id m) i = Some obj" "replace_chunk chunk (oi_chunks obj) = Some chunks"
      "m' = snd (persist ev (m\<lparr>ms_objects_by_id := um_assign (ev_rank ev) i
          (obj\<lparr>oi_chunks := chunks, oi_updated_at := ev_now ev\<rparr>) (ms_objects_by_id m)\<rparr>))"
    using u by (auto simp: update_chunk_def Let_def split: option.splits)
  then have "layout m' = layout m \<and> all_chunks m' \<subseteq> insert chunk (all_chunks m) \<and> ms_nodes m' = ms_nodes m"
  proof cases
    case (2 obj chunks)
    note rep = replace_chunk_Some [OF 2(2)]
    have "layout m' f = layout m f" for f
      using rep 2(1) um by (auto simp: layout_def 2(3) locate_by_filename_def um_simps split: option.splits)
    moreover have "all_chunks m' \<subseteq> insert chunk (all_chunks m)"
      using rep 2(1) um by (fastforce simp: all_chunks_def 2(3) um_simps split: if_splits)
    ultimately show ?thesis by (auto simp: 2(3))
  qed auto
  then show "layout m' = layout m" "all_chunks m' \<subseteq> insert chunk (all_chunks m)" "ms_nodes m' = ms_nodes m" by blast+
qed

text \<open>A chunk that meets the acknowledgement policy with distinct live replicas.\<close>

definition quorum_chunk :: "ClusterConfig \<Rightarrow> metadata_store \<Rightarrow> ChunkInfo \<Rightarrow> bool" where
  "quorum_chunk cfg m c \<longleftrightarrow> unat (required_acks (cc_write_ack cfg) (cc_replication_factor cfg)) \<le> live_replicas m c
     \<and> distinct (map ri_node_id (ci_replicas c))
     \<and> (\<forall>r \<in> set (ci_replicas c). \<exists>n. get_node (ri_node_id r) m = Some n \<and> ni_online n \<and> ni_address n = ri_address r)"

lemma quorum_chunk_live: "quorum_chunk cfg m c \<Longrightarrow> r \<in> set (ci_replicas c) \<Longrightarrow> replica_live m r"
  by (auto simp: quorum_chunk_def replica_live_def get_node_def)

lemma replica_live_nodes: "ms_nodes m' = ms_nodes m \<Longrightarrow> replica_live m' = replica_live m"
  by (simp add: replica_live_def fun_eq_iff)

lemma quorum_chunk_nodes: "ms_nodes m' = ms_nodes m \<Longrightarrow> quorum_chunk cfg m' = quorum_chunk cfg m"
  unfolding quorum_chunk_def live_replicas_def get_node_def by (frule replica_live_nodes) simp

text \<open>What the loop keeps. The node of the manager is registered under the manager's own address.\<close>

definition local_known :: "ReplicationManager \<Rightarrow> metadata_store \<Rightarrow> bool" where
  "local_known rm m \<longleftrightarrow> (\<forall>n. get_node (rm_local_node_id rm) m = Some n \<longrightarrow> ni_address n = rm_local_address rm)"

lemma local_known_nodes: "ms_nodes m' = ms_nodes m \<Longrightarrow> local_known rm m' = local_known rm m"
  by (simp add: local_known_def get_node_def)

definition recoverable ::
  "('n \<Rightarrow> string \<Rightarrow> string \<Rightarrow> (string \<times> bytes) option) \<Rightarrow> (string \<Rightarrow> bytes) \<Rightarrow> ReplicationManager \<Rightarrow> 'n world \<Rightarrow> bool" where
  "recoverable stored payload rm w \<longleftrightarrow> ms_inv (w_meta w) \<and> local_known rm (w_meta w) \<and> intact stored payload w"

text \<open>What one recovery does: it keeps the invariant, the layout of the files and the registry, writes only
  payloads, and every chunk it records anew meets the policy.\<close>

definition recovers ::
  "('n \<Rightarrow> string \<Rightarrow> string \<Rightarrow> (string \<times> bytes) option) \<Rightarrow> (string \<Rightarrow> bytes) \<Rightarrow> ReplicationManager \<Rightarrow> ClusterConfig
   \<Rightarrow> 'n world \<Rightarrow> 'n world \<Rightarrow> bool" where
  "recovers stored payload rm cfg w w' \<longleftrightarrow> recoverable stored payload rm w'
     \<and> payload_writes stored payload (w_storage w) (w_storage w') \<and> layout (w_meta w') = layout (w_meta w)
     \<and> ms_nodes (w_meta w') = ms_nodes (w_meta w)
     \<and> all_chunks (w_meta w') \<subseteq> all_chunks (w_meta w) \<union> Collect (quorum_chunk cfg (w_meta w))"

lemma recovers_trans:
  assumes "recovers stored payload rm cfg w w1" "recovers stored payload rm cfg w1 w2"
  shows "recovers stored payload rm cfg w w2"
  using assms quorum_chunk_nodes [of "w_meta w1" "w_meta w"] unfolding recovers_def
  by (auto intro: payload_writes_trans)

lemma recovers_frame:
  assumes "recoverable stored payload rm w" "w_meta w' = w_meta w"
    "payload_writes stored payload (w_storage w) (w_storage w')"
  shows "recovers stored payload rm cfg w w'"
  using assms sound_chunk_mono [OF assms(3)] by (auto simp: recovers_def recoverable_def intact_def)

lemma recoversD: "recovers stored payload rm cfg w w' \<Longrightarrow> recoverable stored payload rm w'"
  by (simp add: recovers_def)

lemma rpc_readonly:
  "rpc net (readonly q) w = (if n_fate net (w_calls w) = Delivered then Some (q (w_meta w)) else None,
     w\<lparr>w_calls := Suc (w_calls w)\<rparr>)"
  by (cases "n_fate net (w_calls w)") (simp_all add: rpc_def readonly_def)

context replica_storage
begin

lemma fetch_sound:
  assumes "n_api net = api" "\<And>r. r \<in> set reps \<Longrightarrow> stored (w_storage w) (ri_address r) cid = Some (sha256 d, d)"
    and "fetch_chunk_from_replica net cid exclude reps w = (r, w')"
  shows "stored (w_storage w') = stored (w_storage w) \<and> w_meta w' = w_meta w \<and> (r = None \<or> r = Some d)"
  using assms(2,3)
proof (induction reps arbitrary: w)
  case (Cons rep reps)
  show ?case
  proof (cases "ri_node_id rep = exclude")
    case True
    from Cons.IH [of w] Cons.prems True show ?thesis by simp
  next
    case False
    obtain rr n where rd: "sa_ReadChunk api (ri_address rep) cid (w_storage w) = (rr, n)" by force
    note frame = read_frame [OF rd]
    show ?thesis
    proof (cases "\<exists>h d. rr = Some (True, h, d)")
      case True
      then obtain h d' where rr: "rr = Some (True, h, d')" by blast
      then have "d' = d" using read_sound [of "ri_address rep" cid "w_storage w" h d' n] rd Cons.prems(1) [of rep] by simp
      with Cons.prems(2) False rd rr frame assms(1) show ?thesis by (auto simp: read_from_replica_def)
    next
      case ne: False
      have "fetch_chunk_from_replica net cid exclude reps (w\<lparr>w_storage := n\<rparr>) = (r, w')"
        using Cons.prems(2) False rd ne assms(1)
        by (cases rr) (auto simp: read_from_replica_def Let_def split: prod.splits bool.splits)
      from Cons.IH [OF _ this] Cons.prems(1) frame show ?thesis by simp
    qed
  qed
qed simp

lemma recorded_replicas_hold:
  assumes "local_known rm m" "placed stored rm n cid d reps"
    and "\<forall>r \<in> set reps. \<exists>k. get_node (ri_node_id r) m = Some k \<and> ni_online k \<and> ni_address k = ri_address r"
  shows "replicas_hold stored n cid d reps"
proof -
  have "replica_place rm r = ri_address r" if "r \<in> set reps" for r
    using assms(1,3) that by (auto simp: local_known_def replica_place_def)
  with assms(2) show ?thesis by (simp add: placed_def replicas_hold_def)
qed

lemma recover_chunk_cases:
  assumes "n_api net = api" "sound_chunk stored payload (w_storage w) chunk" "recover_chunk net cfg rm exclude chunk w = (b, w')"
  obtains (unread) "fst (fetch_chunk_from_replica net (ci_chunk_id chunk) exclude (ci_replicas chunk) w) = None"
      "\<not> b" "w_meta w' = w_meta w" "stored (w_storage w') = stored (w_storage w)"
  | (sent) w1 res w2 where "w_meta w1 = w_meta w" "stored (w_storage w1) = stored (w_storage w)"
      "replicate_chunk net rm chunk (payload (ci_chunk_id chunk)) (cc_replication_factor cfg) (cc_write_ack cfg) w1 = (res, w2)"
      "b \<longleftrightarrow> rr_success res"
      "w' = (if rr_success res then snd (rpc net (\<lambda>ev. UpdateChunk ev (ci_object_id chunk) (chunk_to_proto
         (chunk\<lparr>ci_version := ci_version chunk + 1, ci_replicas := rr_replicas res\<rparr>))) w2) else w2)"
proof -
  let ?d = "payload (ci_chunk_id chunk)"
  obtain r w1 where f: "fetch_chunk_from_replica net (ci_chunk_id chunk) exclude (ci_replicas chunk) w = (r, w1)" by force
  obtain res w2 where rep: "replicate_chunk net rm chunk ?d (cc_replication_factor cfg) (cc_write_ack cfg) w1 = (res, w2)" by force
  have fetch: "stored (w_storage w1) = stored (w_storage w)" "w_meta w1 = w_meta w" "r = None \<or> r = Some ?d"
    using fetch_sound [OF assms(1) _ f, of ?d] assms(2) by (auto simp: sound_chunk_def chunk_stored_def replicas_hold_def)
  show ?thesis
  proof (cases "r = None")
    case True
    with assms(3) f fetch unread show ?thesis by (simp add: recover_chunk_def)
  next
    case False
    then have "r = Some ?d" using fetch(3) by blast
    with assms(3) f rep have "b \<longleftrightarrow> rr_success res"
      "w' = (if rr_success res then snd (rpc net (\<lambda>ev. UpdateChunk ev (ci_object_id chunk) (chunk_to_proto
         (chunk\<lparr>ci_version := ci_version chunk + 1, ci_replicas := rr_replicas res\<rparr>))) w2) else w2)"
      by (auto simp: recover_chunk_def Let_def split: if_splits)
    with sent [OF fetch(2,1) rep] show ?thesis by blast
  qed
qed

lemma record_replicas:
  assumes rec: "recoverable stored payload rm w" and c: "sound_chunk stored payload (w_storage w) c" "quorum_chunk cfg (w_meta w) c"
  shows "recovers stored payload rm cfg w (snd (rpc net (\<lambda>ev. UpdateChunk ev i (chunk_to_proto c)) w))"
proof -
  let ?w' = "snd (rpc net (\<lambda>ev. UpdateChunk ev i (chunk_to_proto c)) w)"
  have inv: "ms_inv (w_meta w)" "local_known rm (w_meta w)" "intact stored payload w" using rec by (simp_all add: recoverable_def)
  obtain ok m' where u: "update_chunk (n_env net (w_calls w)) i c (w_meta w) = (ok, m')" by force
  note eff = update_chunk_effect [OF inv(1) u]
  have "w_meta ?w' = w_meta w \<or> w_meta ?w' = m'"
    using u by (auto simp: rpc_def Let_def UpdateChunk_def split: fate.splits)
  then show ?thesis
    using eff inv c quorum_chunk_nodes [OF eff(4)] local_known_nodes [OF eff(4)]
    by (auto simp: recovers_def recoverable_def intact_def payload_writes_refl)
qed

lemma replicated_chunk:
  assumes api: "n_api net = api" and rec: "recoverable stored payload rm w"
    and c: "sound_chunk stored payload (w_storage w) chunk"
    and rep: "replicate_chunk net rm chunk (payload (ci_chunk_id chunk)) (cc_replication_factor cfg) (cc_write_ack cfg) w = (res, w')"
  shows "recovers stored payload rm cfg w w'"
    and "sound_chunk stored payload (w_storage w') (chunk\<lparr>ci_version := v, ci_replicas := rr_replicas res\<rparr>)"
    and "rr_success res \<Longrightarrow> quorum_chunk cfg (w_meta w') (chunk\<lparr>ci_version := v, ci_replicas := rr_replicas res\<rparr>)"
proof -
  let ?d = "payload (ci_chunk_id chunk)"
  have inv: "ms_inv (w_meta w)" "local_known rm (w_meta w)" using rec by (simp_all add: recoverable_def)
  have lens: "length ?d < 2 ^ 64" "length (ci_chunk_id chunk) < 2 ^ 32" "length (ci_object_id chunk) < 2 ^ 32"
      and csum: "ci_checksum chunk = sha256 ?d"
    using c by (simp_all add: sound_chunk_def chunk_stored_def)
  note held = replicate_chunk_stored [OF api inv(1) lens rep] and answer = replicate_chunk_answer [OF inv(1) rep]
  have "payload_writes stored payload (w_storage w) (w_storage w')"
    unfolding payload_writes_def using held(2,3) by (metis insertE singletonD)
  then show "recovers stored payload rm cfg w w'" using rec held(4) by (intro recovers_frame)
  have "replicas_hold stored (w_storage w') (ci_chunk_id chunk) ?d (rr_replicas res)"
    using recorded_replicas_hold [OF inv(2) held(1) answer(6)] .
  then show "sound_chunk stored payload (w_storage w') (chunk\<lparr>ci_version := v, ci_replicas := rr_replicas res\<rparr>)"
    using lens csum by (simp add: sound_chunk_def chunk_stored_def)
  have "\<forall>x \<in> set (rr_replicas res). replica_live (w_meta w') x"
    using answer(6) held(4) by (auto simp: replica_live_def get_node_def)
  moreover note answer(6) [folded held(4)]
  ultimately show "rr_success res \<Longrightarrow> quorum_chunk cfg (w_meta w') (chunk\<lparr>ci_version := v, ci_replicas := rr_replicas res\<rparr>)"
    using answer(1,3) by (simp add: quorum_chunk_def live_replicas_def)
qed

lemma recover_chunk_step:
  assumes api: "n_api net = api" and rec: "recoverable stored payload rm w"
    and c: "sound_chunk stored payload (w_storage w) chunk"
    and run: "recover_chunk net cfg rm exclude chunk w = (b, w')"
  shows "recovers stored payload rm cfg w w'"
proof (rule recover_chunk_cases [OF api c run], goal_cases)
  case 1
  then show ?thesis using recovers_frame [OF rec _ payload_writes_refl] by simp
next
  case (2 w1 res w2)
  have r1: "recovers stored payload rm cfg w w1" using recovers_frame [OF rec 2(1) payload_writes_refl [of stored, OF 2(2)]] .
  then have "sound_chunk stored payload (w_storage w1) chunk"
    using c sound_chunk_mono [of stored payload "w_storage w" "w_storage w1"] by (simp add: recovers_def)
  note rep = replicated_chunk [OF api recoversD [OF r1] this 2(3)]
  have r2: "recovers stored payload rm cfg w w2" using r1 rep(1) by (rule recovers_trans)
  show ?thesis
  proof (cases "rr_success res")
    case True
    then show ?thesis using recovers_trans [OF r2 record_replicas [OF recoversD [OF r2] rep(2) rep(3)]] 2(5) by simp
  next
    case False
    then show ?thesis using r2 2(5) by simp
  qed
qed

lemma recover_chunks_loop:
  assumes api: "n_api net = api"
    and "recoverable stored payload rm w" "\<forall>pb \<in> set pbs. sound_chunk stored payload (w_storage w) (from_proto pb)"
    and "recover_chunks net cfg rm exclude pbs start w = (recovered, w')"
  shows "recovers stored payload rm cfg w w'"
  using assms(2-4)
proof (induction pbs arbitrary: start w)
  case Nil
  then show ?case using recovers_frame [OF Nil(1) refl payload_writes_refl] by simp
next
  case (Cons pb pbs)
  obtain b w1 where s: "recover_chunk net cfg rm exclude (from_proto pb) w = (b, w1)" by force
  have r1: "recovers stored payload rm cfg w w1" using recover_chunk_step [OF api Cons.prems(1) _ s] Cons.prems(2) by simp
  then have "recoverable stored payload rm w1" "payload_writes stored payload (w_storage w) (w_storage w1)"
    by (simp_all add: recovers_def)
  with Cons.prems(2,3) s have "recovers stored payload rm cfg w1 w'"
    by (intro Cons.IH) (auto intro: sound_chunk_mono)
  with r1 show ?case by (rule recovers_trans)
qed

lemma recover_under_replicated:
  assumes "n_api net = api" "recoverable stored payload rm w"
    and "recover_chunks net cfg rm exclude (GetUnderReplicatedChunks scfg (w_meta w)) 0 w = (recovered, w')"
  shows "recovers stored payload rm cfg w w'"
proof -
  have "sound_chunk stored payload (w_storage w) (from_proto pb)"
    if pb: "pb \<in> set (GetUnderReplicatedChunks scfg (w_meta w))" for pb
  proof -
    obtain c where "pb = chunk_to_proto c" "c \<in> all_chunks (w_meta w)"
      using pb assms(2) by (auto simp: GetUnderReplicatedChunks_def set_under_replicated recoverable_def)
    with assms(2) show ?thesis by (simp add: recoverable_def intact_def)
  qed
  then show ?thesis using recover_chunks_loop [OF assms(1,2) _ assms(3)] by blast
qed

lemma repair_recovers:
  assumes "n_api net = api" "recoverable stored payload rm w"
    and "repair_under_replicated_chunks net cfg rm w = (res, w')"
  shows "recovers stored payload rm cfg w w'"
proof -
  let ?cs = "GetUnderReplicatedChunks (n_cfg net) (w_meta w)" and ?w1 = "w\<lparr>w_calls := Suc (w_calls w)\<rparr>"
  have r1: "recovers stored payload rm cfg w ?w1"
    using recovers_frame [OF assms(2) _ payload_writes_refl, of ?w1] by simp
  show ?thesis
  proof (cases "n_fate net (w_calls w) = Delivered")
    case True
    obtain recovered w2 where l: "recover_chunks net cfg rm [] ?cs 0 ?w1 = (recovered, w2)" by force
    then have "w' = w2" using assms(3) True by (simp add: repair_under_replicated_chunks_def rpc_readonly)
    moreover have "recovers stored payload rm cfg ?w1 w2"
      using recover_under_replicated [OF assms(1) recoversD [OF r1], of cfg "[]" "n_cfg net"] l by simp
    ultimately show ?thesis using r1 recovers_trans by blast
  next
    case False
    with assms(3) r1 show ?thesis by (simp add: repair_under_replicated_chunks_def rpc_readonly)
  qed
qed

lemma recovery_loop_recovers:
  assumes "n_api net = api" "recoverable stored payload rm w"
  shows "recovers stored payload rm cfg w (recovery_loop net cfg rm running w)"
  using assms(2)
proof (induction running arbitrary: w)
  case Nil
  then show ?case using recovers_frame [OF Nil refl payload_writes_refl] by simp
next
  case (Cons b running)
  have r1: "recovers stored payload rm cfg w (snd (repair_under_replicated_chunks net cfg rm w))"
    using repair_recovers [OF assms(1) Cons.prems prod.collapse [symmetric]] .
  with Cons show ?case
    using recovers_trans [OF r1] recovers_frame [OF Cons.prems refl payload_writes_refl]
    by (cases b) (simp_all add: recovers_def)
qed

lemma get_intact:
  assumes "n_api net = api" "recoverable stored payload rm w" "f \<noteq> []" "get net f w = (g, w')" "gr_success g"
  shows "\<exists>ids. layout (w_meta w) f = Some ids \<and> gr_data g = concat (map payload ids)"
proof -
  have inv: "ms_inv (w_meta w)" using assms(2) by (simp add: recoverable_def)
  have fate: "n_fate net (w_calls w) = Delivered" using get_lost [OF _ assms(4)] assms(5) by blast
  have "\<not> gr_success g" if "locate_by_filename f (w_meta w) = None"
    using assms(3,4) fate that by (auto simp: get_def rpc_def readonly_def LocateObject_def get_failed_def)
  with assms(5) have "locate_by_filename f (w_meta w) \<noteq> None" by blast
  then obtain obj where obj: "locate_by_filename f (w_meta w) = Some obj" by blast
  then have "um_find (ms_objects_by_id (w_meta w)) (oi_object_id obj) = Some obj" by (simp add: locate_iff [OF inv])
  then have "chunk_stored stored (w_storage w) c (payload (ci_chunk_id c))" if "c \<in> set (oi_chunks obj)" for c
    using assms(2) that by (auto simp: recoverable_def intact_def all_chunks_def sound_chunk_def)
  then have st: "list_all2 (chunk_stored stored (w_storage w)) (oi_chunks obj)
      (map (\<lambda>c. payload (ci_chunk_id c)) (oi_chunks obj))"
    by (simp add: list_all2_conv_all_nth)
  obtain err d where g: "get_chunks net (map chunk_to_proto (oi_chunks obj)) [] (w\<lparr>w_calls := Suc (w_calls w)\<rparr>) = (err, d, w')"
      "gr_success g \<longleftrightarrow> err = None" "gr_data g = d"
    using get_located [OF assms(3) fate obj assms(4)] by blast
  have "list_all2 (chunk_stored stored (w_storage (w\<lparr>w_calls := Suc (w_calls w)\<rparr>))) (oi_chunks obj)
      (map (\<lambda>c. payload (ci_chunk_id c)) (oi_chunks obj))" using st by simp
  from get_chunks_pieces [OF assms(1) this, of "[]"] g assms(5) obj show ?thesis
    by (simp add: layout_def comp_def)
qed

end

text \<open>Marking a node offline changes its flag only.\<close>

lemma mark_node_offline_effect:
  assumes inv: "ms_inv m" and u: "mark_node_offline ev i m = (b, m')"
  shows "ms_inv m'" "ms_objects_by_id m' = ms_objects_by_id m" "ms_filename_to_id m' = ms_filename_to_id m"
    "get_node j m' = (if j = i then map_option (\<lambda>n. n\<lparr>ni_online := False\<rparr>) (get_node j m) else get_node j m)"
proof -
  show "ms_inv m'" using registry_steps(3) [OF inv u] by simp
  have um: "um_inv (ms_nodes m)" using inv by (simp add: ms_inv_def)
  show "ms_objects_by_id m' = ms_objects_by_id m" "ms_filename_to_id m' = ms_filename_to_id m"
    "get_node j m' = (if j = i then map_option (\<lambda>n. n\<lparr>ni_online := False\<rparr>) (get_node j m) else get_node j m)"
    using u um by (auto simp: mark_node_offline_def Let_def get_node_def um_simps split: option.splits)
qed

lemma marked_offline:
  assumes "recoverable stored payload rm w" and w1: "snd (rpc net (\<lambda>ev. MarkNodeOffline ev i) w) = w1"
  shows "recoverable stored payload rm w1"
    "layout (w_meta w1) = layout (w_meta w)" "all_chunks (w_meta w1) = all_chunks (w_meta w)"
    "w_storage w1 = w_storage w"
    "n_fate net (w_calls w) \<noteq> RequestLost \<Longrightarrow> ri_node_id r = i \<Longrightarrow> \<not> replica_live (w_meta w1) r"
proof -
  have inv: "ms_inv (w_meta w)" using assms(1) by (simp add: recoverable_def)
  obtain b m' where u: "mark_node_offline (n_env net (w_calls w)) i (w_meta w) = (b, m')" by force
  note eff = mark_node_offline_effect [OF inv u]
  have meta: "w_meta w1 = (if n_fate net (w_calls w) = RequestLost then w_meta w else m')"
    using u w1 by (auto simp: rpc_def MarkNodeOffline_def Let_def split: fate.splits)
  have st: "w_storage w1 = w_storage w" using w1 by auto
  have same: "layout m' = layout (w_meta w)" "all_chunks m' = all_chunks (w_meta w)" "local_known rm m' = local_known rm (w_meta w)"
    using eff(4) [of "rm_local_node_id rm"]
    by (auto simp: layout_def [abs_def] locate_by_filename_def all_chunks_def local_known_def eff(2,3) cong: option.case_cong)
  then show "layout (w_meta w1) = layout (w_meta w)" "all_chunks (w_meta w1) = all_chunks (w_meta w)"
    by (simp_all add: meta)
  show "w_storage w1 = w_storage w" by (fact st)
  show "recoverable stored payload rm w1" using assms(1) same eff(1) by (simp add: recoverable_def meta intact_def st)
  show "\<not> replica_live (w_meta w1) r" if "n_fate net (w_calls w) \<noteq> RequestLost" "ri_node_id r = i"
    using that eff(4) [of i] by (cases "get_node i (w_meta w)") (simp_all add: meta replica_live_def get_node_def)
qed

context replica_storage
begin

lemma recover_failed_recovers:
  assumes "n_api net = api" "recoverable stored payload rm w"
    and "recover_failed_node net cfg rm failed w = (res, w')"
  shows "recovers stored payload rm cfg (snd (rpc net (\<lambda>ev. MarkNodeOffline ev failed) w)) w'"
proof -
  define w1 where "w1 = snd (rpc net (\<lambda>ev. MarkNodeOffline ev failed) w)"
  let ?cs = "GetUnderReplicatedChunks (n_cfg net) (w_meta w1)" and ?w2 = "w1\<lparr>w_calls := Suc (w_calls w1)\<rparr>"
  have rec: "recoverable stored payload rm w1" using marked_offline(1) [OF assms(2) w1_def [symmetric]] .
  have r1: "recovers stored payload rm cfg w1 ?w2"
    using recovers_frame [OF rec _ payload_writes_refl, of ?w2] by simp
  obtain recovered w3 where l: "recover_chunks net cfg rm failed
      (if n_fate net (w_calls w1) = Delivered then ?cs else []) 0 ?w2 = (recovered, w3)" by force
  have "w' = w3"
    using assms(3) l unfolding recover_failed_node_def w1_def [symmetric] rpc_readonly Let_def prod.case
    by (cases "n_fate net (w_calls w1) = Delivered") simp_all
  moreover have "recovers stored payload rm cfg ?w2 w3"
  proof (cases "n_fate net (w_calls w1) = Delivered")
    case True
    then show ?thesis using recover_under_replicated [OF assms(1) recoversD [OF r1], of cfg failed "n_cfg net"] l by simp
  next
    case False
    then have "w3 = ?w2" using l by simp
    then show ?thesis using recovers_frame [OF recoversD [OF r1] refl payload_writes_refl] by simp
  qed
  ultimately show ?thesis using r1 recovers_trans unfolding w1_def by blast
qed

end

section \<open>One pass restores the replication factor\<close>

text \<open>The chunk recorded under an object id and a chunk id.\<close>

definition chunk_at :: "metadata_store \<Rightarrow> string \<times> string \<Rightarrow> ChunkInfo option" where
  "chunk_at m key = Option.bind (um_find (ms_objects_by_id m) (fst key))
     (\<lambda>obj. find (\<lambda>c. ci_chunk_id c = snd key) (oi_chunks obj))"

text \<open>An object's chunks have different ids and carry the object's.\<close>

definition owned :: "metadata_store \<Rightarrow> bool" where
  "owned m \<longleftrightarrow> (\<forall>i obj. um_find (ms_objects_by_id m) i = Some obj \<longrightarrow>
     distinct (map ci_chunk_id (oi_chunks obj)) \<and> (\<forall>c \<in> set (oi_chunks obj). ci_object_id c = i))"

lemma find_distinct:
  "distinct (map f xs) \<Longrightarrow> find (\<lambda>x. f x = y) xs = Some x \<longleftrightarrow> x \<in> set xs \<and> f x = y"
  by (induction xs) (auto simp: rev_image_eqI)

lemma chunk_at_iff:
  assumes "owned m"
  shows "chunk_at m (i, cid) = Some c \<longleftrightarrow> c \<in> all_chunks m \<and> ci_object_id c = i \<and> ci_chunk_id c = cid"
proof
  assume "chunk_at m (i, cid) = Some c"
  then obtain obj where "um_find (ms_objects_by_id m) i = Some obj" "find (\<lambda>c. ci_chunk_id c = cid) (oi_chunks obj) = Some c"
    by (auto simp: chunk_at_def bind_eq_Some_conv)
  moreover from this assms have "distinct (map ci_chunk_id (oi_chunks obj))" "\<forall>c \<in> set (oi_chunks obj). ci_object_id c = i"
    by (simp_all add: owned_def)
  ultimately show "c \<in> all_chunks m \<and> ci_object_id c = i \<and> ci_chunk_id c = cid"
    by (auto simp: all_chunks_def find_distinct)
next
  assume c: "c \<in> all_chunks m \<and> ci_object_id c = i \<and> ci_chunk_id c = cid"
  then obtain j obj where o: "um_find (ms_objects_by_id m) j = Some obj" "c \<in> set (oi_chunks obj)"
    by (auto simp: all_chunks_def)
  with assms c have "j = i" "distinct (map ci_chunk_id (oi_chunks obj))" by (auto simp: owned_def)
  with o c show "chunk_at m (i, cid) = Some c" by (simp add: chunk_at_def find_distinct)
qed

lemma replace_chunk_find:
  "replace_chunk c cs = Some cs' \<Longrightarrow> find (\<lambda>x. ci_chunk_id x = j) cs' = (if j = ci_chunk_id c then Some c else find (\<lambda>x. ci_chunk_id x = j) cs)"
  by (induction cs arbitrary: cs') (auto split: if_splits)

lemma update_chunk_at:
  assumes inv: "ms_inv m" and own: "owned m" and key: "chunk_at m (i, ci_chunk_id chunk) \<noteq> None" "ci_object_id chunk = i"
    and u: "update_chunk ev i chunk m = (b, m')"
  shows "chunk_at m' = (chunk_at m)((i, ci_chunk_id chunk) \<mapsto> chunk)" "owned m'"
proof -
  have um: "um_inv (ms_objects_by_id m)" using inv by (simp add: ms_inv_def namespace_inv_def)
  obtain obj c where obj: "um_find (ms_objects_by_id m) i = Some obj" "find (\<lambda>c. ci_chunk_id c = ci_chunk_id chunk) (oi_chunks obj) = Some c"
    using key by (auto simp: chunk_at_def bind_eq_Some_conv)
  have "replace_chunk chunk (oi_chunks obj) \<noteq> None"
    using obj(2) by (auto simp: replace_chunk_None find_Some_iff) (metis image_eqI nth_mem)
  then obtain chunks where r: "replace_chunk chunk (oi_chunks obj) = Some chunks" by blast
  have objs: "um_find (ms_objects_by_id m')
      = (um_find (ms_objects_by_id m))(i \<mapsto> obj\<lparr>oi_chunks := chunks, oi_updated_at := ev_now ev\<rparr>)"
    using u obj(1) r um by (auto simp: update_chunk_def Let_def um_simps)
  show "chunk_at m' = (chunk_at m)((i, ci_chunk_id chunk) \<mapsto> chunk)"
    using obj(1) replace_chunk_find [OF r] by (auto simp: chunk_at_def objs fun_eq_iff)
  show "owned m'"
    using own key(2) obj(1) replace_chunk_Some [OF r] by (auto simp: owned_def objs)
qed

text \<open>A chunk at full strength.\<close>

definition full_chunk :: "ClusterConfig \<Rightarrow> metadata_store \<Rightarrow> ChunkInfo \<Rightarrow> bool" where
  "full_chunk cfg m c \<longleftrightarrow> unat (cc_replication_factor cfg) \<le> live_replicas m c"

text \<open>What a repair needs of the cluster: every call is answered, the online nodes are up, and there are
  enough of them; of a chunk: that one of its replicas can be read.\<close>

definition healthy :: "(string \<Rightarrow> bool) \<Rightarrow> 'n net \<Rightarrow> ClusterConfig \<Rightarrow> ReplicationManager \<Rightarrow> metadata_store \<Rightarrow> bool" where
  "healthy up net cfg rm m \<longleftrightarrow> (\<forall>i. n_fate net i = Delivered) \<and> cc_replication_factor cfg \<noteq> 0
     \<and> unat (cc_replication_factor cfg) \<le> length (online_nodes m) \<and> up (rm_local_address rm)
     \<and> (\<forall>n \<in> set (online_nodes m). up (ni_address n))"

definition reachable_replica :: "(string \<Rightarrow> bool) \<Rightarrow> ChunkInfo \<Rightarrow> bool" where
  "reachable_replica up c \<longleftrightarrow> (\<exists>r \<in> set (ci_replicas c). ri_node_id r \<noteq> [] \<and> up (ri_address r))"

lemma healthy_nodes: "ms_nodes m' = ms_nodes m \<Longrightarrow> healthy up net cfg rm m' = healthy up net cfg rm m"
  by (simp add: healthy_def online_nodes_def)

lemma full_chunk_nodes: "ms_nodes m' = ms_nodes m \<Longrightarrow> full_chunk cfg m' = full_chunk cfg m"
  unfolding full_chunk_def live_replicas_def by (drule replica_live_nodes) simp

abbreviation key_of :: "ChunkInfo \<Rightarrow> string \<times> string" where
  "key_of c \<equiv> (ci_object_id c, ci_chunk_id c)"

context available_storage
begin

lemma send_replica_up:
  "n_api net = api \<Longrightarrow> describes h d \<Longrightarrow> up (node_place rm node) \<Longrightarrow> fst (send_replica net rm h d node w)"
  using available_write [of "rm_local_address rm" d "h\<lparr>ch_created_at_ms := 0\<rparr>" "w_storage w"]
    available_replicate [of "cn_address node" d h "rm_local_node_id rm" "w_storage w"]
  by (auto simp: send_replica_def node_place_def describes_def write_local_replica_def replicate_to_node_def split: if_splits)

lemma replicate_nodes_up:
  assumes "n_api net = api" "describes h d" "\<forall>node \<in> set nodes. up (node_place rm node)"
  shows "length (fst (replicate_nodes net rm version h d nodes reps w)) = length reps + length nodes"
  using assms(3)
proof (induction nodes arbitrary: reps w)
  case (Cons node nodes)
  obtain w1 where "send_replica net rm h d node w = (True, w1)"
    using send_replica_up [OF assms(1,2), of rm node w] Cons.prems by (cases "send_replica net rm h d node w") auto
  then show ?case using Cons by (simp add: send_replica_def [symmetric])
qed simp

lemma fetch_up:
  assumes "n_api net = api" "\<And>r. r \<in> set reps \<Longrightarrow> stored (w_storage w) (ri_address r) cid = Some (sha256 d, d)"
    and "r \<in> set reps" "ri_node_id r \<noteq> exclude" "up (ri_address r)"
  shows "fst (fetch_chunk_from_replica net cid exclude reps w) \<noteq> None"
  using assms(2,3)
proof (induction reps arbitrary: w)
  case (Cons rep reps)
  obtain rr w1 where rd: "read_from_replica net rep cid w = (rr, w1)" by force
  obtain x n where x: "sa_ReadChunk api (ri_address rep) cid (w_storage w) = (x, n)" by force
  have w1: "w1 = w\<lparr>w_storage := n\<rparr>" using rd x assms(1) by (auto simp: read_from_replica_def)
  have frame: "stored n = stored (w_storage w)" using x by (rule read_frame)
  show ?case
  proof (cases "r \<in> set reps")
    case True
    have IH: "fst (fetch_chunk_from_replica net cid exclude reps v) \<noteq> None" if "stored (w_storage v) = stored (w_storage w)" for v
      using Cons.IH [OF _ True, of v] Cons.prems(1) that by simp
    then show ?thesis using IH [of w] IH [of w1] rd frame w1 by (auto split: option.splits)
  next
    case False
    then have r: "r = rep" using Cons.prems(2) by simp
    then obtain h n' where "sa_ReadChunk api (ri_address rep) cid (w_storage w) = (Some (True, h, d), n')"
      using available_read [OF assms(5), of "w_storage w" cid "sha256 d" d] Cons.prems(1) [of rep] by auto
    then have "rr = Some d" using rd assms(1) by (auto simp: read_from_replica_def)
    then show ?thesis using rd assms(4) r by simp
  qed
qed simp

lemma replicate_chunk_up:
  assumes "n_api net = api" "ms_inv (w_meta w)" "length data < 2 ^ 64"
    and "length (ci_chunk_id chunk) < 2 ^ 32" "length (ci_object_id chunk) < 2 ^ 32"
    and "n_fate net (w_calls w) = Delivered" "rf \<noteq> 0" "unat rf \<le> length (online_nodes (w_meta w))"
    and "up (rm_local_address rm)" "\<And>n. n \<in> set (online_nodes (w_meta w)) \<Longrightarrow> up (ni_address n)"
    and "replicate_chunk net rm chunk data rf policy w = (res, w')"
  shows "rr_success res" "length (rr_replicas res) = unat rf"
proof -
  note desc = describes_replica_header [OF assms(3-5)]
  obtain nodes m where sel: "SelectNodes (n_cfg net) (n_env net (w_calls w)) rf ''least_used'' (w_meta w) = (nodes, m)"
    by force
  note s = SelectNodes_least_used [OF assms(2) sel]
  have len: "length nodes = unat rf" using s(3) assms(8) by simp
  then have ne: "nodes \<noteq> []" using assms(7) by (auto simp: unat_eq_0)
  have "up (node_place rm node)" if node: "node \<in> set nodes" for node
  proof -
    obtain n where n: "get_node (cn_node_id node) (w_meta w) = Some n" "ni_online n" "ni_address n = cn_address node"
      using s(4) [OF node] by blast
    then have "(cn_node_id node, n) \<in> set (ms_nodes (w_meta w))"
      using assms(2) by (simp add: get_node_def um_find_mem ms_inv_def)
    then have "n \<in> set (online_nodes (w_meta w))" using n(2) by (force simp: online_nodes_def)
    with assms(9,10) n(3) show ?thesis by (simp add: node_place_def) (metis)
  qed
  then have "\<forall>node \<in> set nodes. up (node_place rm node)" by blast
  from replicate_nodes_up [OF assms(1) desc this, of "ci_version chunk" net "Suc (w_calls w)" "[]" "w\<lparr>w_calls := Suc (w_calls w)\<rparr>"]
  have "length (fst (replicate_nodes net rm (ci_version chunk) (replica_header net chunk data (Suc (w_calls w))) data nodes []
      (w\<lparr>w_calls := Suc (w_calls w)\<rparr>))) = unat rf" using len by simp
  moreover have "rr_replicas res = fst (replicate_nodes net rm (ci_version chunk)
      (replica_header net chunk data (Suc (w_calls w))) data nodes [] (w\<lparr>w_calls := Suc (w_calls w)\<rparr>))"
    using assms(6,11) sel s(1) ne
    by (auto simp: replicate_chunk_def rpc_delivered Let_def replica_header_def split: prod.splits)
  ultimately show "length (rr_replicas res) = unat rf" by simp
  then show "rr_success res"
    using replicate_chunk_answer(1) [OF assms(2,11)] assms(7) unat_required_acks [of policy rf]
    by (cases policy) (auto simp: unat_eq_0 [symmetric])
qed

lemma fetch_reachable:
  assumes "n_api net = api" "sound_chunk stored payload (w_storage w) chunk" "reachable_replica up chunk"
  shows "fst (fetch_chunk_from_replica net (ci_chunk_id chunk) [] (ci_replicas chunk) w) \<noteq> None"
proof -
  obtain x where "x \<in> set (ci_replicas chunk)" "ri_node_id x \<noteq> []" "up (ri_address x)"
    using assms(3) by (auto simp: reachable_replica_def)
  with fetch_up [OF assms(1), of "ci_replicas chunk" w "ci_chunk_id chunk" "payload (ci_chunk_id chunk)"] assms(2)
  show ?thesis by (auto simp: sound_chunk_def chunk_stored_def replicas_hold_def)
qed

lemma recover_chunk_full:
  assumes api: "n_api net = api" and rec: "recoverable stored payload rm w" and own: "owned (w_meta w)"
    and ok: "healthy up net cfg rm (w_meta w)" and c: "sound_chunk stored payload (w_storage w) chunk"
    and key: "chunk_at (w_meta w) (key_of chunk) \<noteq> None"
    and run: "recover_chunk net cfg rm [] chunk w = (b, w')"
  shows "owned (w_meta w') \<and> (\<forall>key. key \<noteq> key_of chunk \<longrightarrow> chunk_at (w_meta w') key = chunk_at (w_meta w) key)
    \<and> (reachable_replica up chunk \<or> b \<longrightarrow>
        (\<exists>c'. chunk_at (w_meta w') (key_of chunk) = Some c' \<and> full_chunk cfg (w_meta w') c'))
    \<and> (\<not> b \<longrightarrow> w_meta w' = w_meta w)"
proof (rule recover_chunk_cases [OF api c run], goal_cases)
  case 1
  then show ?thesis using fetch_reachable [OF api c] own by auto
next
  case (2 w1 res w2)
  have inv: "ms_inv (w_meta w)" using rec by (simp add: recoverable_def)
  then have inv1: "ms_inv (w_meta w1)" by (simp add: 2(1))
  have fate: "n_fate net i = Delivered" for i using ok by (simp add: healthy_def)
  have lens: "length (payload (ci_chunk_id chunk)) < 2 ^ 64" "length (ci_chunk_id chunk) < 2 ^ 32" "length (ci_object_id chunk) < 2 ^ 32"
    using c by (simp_all add: sound_chunk_def)
  have up: "rr_success res" "length (rr_replicas res) = unat (cc_replication_factor cfg)"
    using replicate_chunk_up [OF api inv1 lens fate _ _ _ _ 2(3)] ok by (simp_all add: healthy_def 2(1))
  note answer = replicate_chunk_answer [OF inv1 2(3)]
  let ?c = "chunk\<lparr>ci_version := ci_version chunk + 1, ci_replicas := rr_replicas res\<rparr>"
  obtain ok' m' where u: "update_chunk (n_env net (w_calls w2)) (ci_object_id chunk) ?c (w_meta w) = (ok', m')" by force
  have w': "w_meta w' = m'" "b"
    using 2 answer(7) up(1) u by (simp_all add: rpc_delivered fate UpdateChunk_def)
  have upd: "chunk_at m' = (chunk_at (w_meta w))(key_of chunk \<mapsto> ?c)" "owned m'"
    using update_chunk_at [OF inv own _ _ u] key by simp_all
  have "replica_live m' = replica_live (w_meta w)" by (rule replica_live_nodes [OF update_chunk_effect(4) [OF inv u]])
  then have "filter (replica_live m') (rr_replicas res) = rr_replicas res"
    using answer(6) by (auto simp: filter_id_conv replica_live_def get_node_def 2(1))
  then have "full_chunk cfg m' ?c" using up(2) by (simp add: full_chunk_def live_replicas_def)
  then show ?thesis using upd w' by simp
qed

lemma recover_chunks_full:
  assumes api: "n_api net = api"
    and "recoverable stored payload rm w" "owned (w_meta w)" "healthy up net cfg rm (w_meta w)"
    and "\<forall>c \<in> set cs. sound_chunk stored payload (w_storage w) c \<and> chunk_at (w_meta w) (key_of c) \<noteq> None"
    and "recover_chunks net cfg rm [] (map chunk_to_proto cs) start w = (recovered, w')"
  shows "owned (w_meta w') \<and> (\<forall>key. chunk_at (w_meta w') key = None \<longleftrightarrow> chunk_at (w_meta w) key = None)
    \<and> (\<forall>key c. chunk_at (w_meta w') key = Some c \<longrightarrow> chunk_at (w_meta w) key = Some c \<or> full_chunk cfg (w_meta w) c)
    \<and> (\<forall>c \<in> set cs. reachable_replica up c \<longrightarrow>
        (\<exists>c'. chunk_at (w_meta w') (key_of c) = Some c' \<and> full_chunk cfg (w_meta w) c'))"
  using assms(2-6)
proof (induction cs arbitrary: start w)
  case (Cons c cs)
  obtain b w1 where s: "recover_chunk net cfg rm [] c w = (b, w1)" by force
  have c: "sound_chunk stored payload (w_storage w) c" "chunk_at (w_meta w) (key_of c) \<noteq> None"
    using Cons.prems(4) by simp_all
  have full: "owned (w_meta w1)"
      "\<And>key. key \<noteq> key_of c \<Longrightarrow> chunk_at (w_meta w1) key = chunk_at (w_meta w) key"
      "reachable_replica up c \<or> b \<Longrightarrow>
        \<exists>c'. chunk_at (w_meta w1) (key_of c) = Some c' \<and> full_chunk cfg (w_meta w1) c'"
      "\<not> b \<Longrightarrow> w_meta w1 = w_meta w"
    using recover_chunk_full [OF api Cons.prems(1-3) c s] by blast+
  have r1: "recovers stored payload rm cfg w w1" by (rule recover_chunk_step [OF api Cons.prems(1) c(1) s])
  then have nodes: "ms_nodes (w_meta w1) = ms_nodes (w_meta w)"
      and pw: "payload_writes stored payload (w_storage w) (w_storage w1)" by (simp_all add: recovers_def)
  have at: "(chunk_at (w_meta w1) key = None \<longleftrightarrow> chunk_at (w_meta w) key = None)
      \<and> (\<forall>c'. chunk_at (w_meta w1) key = Some c' \<longrightarrow> chunk_at (w_meta w) key = Some c' \<or> full_chunk cfg (w_meta w) c')" for key
    using full(2-4) c(2) full_chunk_nodes [OF nodes, of cfg] by (cases "key = key_of c"; cases b) auto
  have "\<forall>c \<in> set cs. sound_chunk stored payload (w_storage w1) c \<and> chunk_at (w_meta w1) (key_of c) \<noteq> None"
    using Cons.prems(4) at sound_chunk_mono [OF pw] by simp
  moreover have "recover_chunks net cfg rm [] (map chunk_to_proto cs) (if b then start + 1 else start) w1 = (recovered, w')"
    using Cons.prems(5) s by simp
  moreover have "healthy up net cfg rm (w_meta w1)" using Cons.prems(3) by (simp add: healthy_nodes [OF nodes])
  ultimately have IH: "owned (w_meta w') \<and> (\<forall>key. chunk_at (w_meta w') key = None \<longleftrightarrow> chunk_at (w_meta w1) key = None)
    \<and> (\<forall>key c. chunk_at (w_meta w') key = Some c \<longrightarrow> chunk_at (w_meta w1) key = Some c \<or> full_chunk cfg (w_meta w) c)
    \<and> (\<forall>c \<in> set cs. reachable_replica up c \<longrightarrow>
        (\<exists>c'. chunk_at (w_meta w') (key_of c) = Some c' \<and> full_chunk cfg (w_meta w) c'))"
    using Cons.IH [OF recoversD [OF r1] full(1)] full_chunk_nodes [OF nodes, of cfg] by simp
  have "\<exists>c'. chunk_at (w_meta w') (key_of c) = Some c' \<and> full_chunk cfg (w_meta w) c'" if reach: "reachable_replica up c"
  proof -
    obtain c1 where "chunk_at (w_meta w1) (key_of c) = Some c1" "full_chunk cfg (w_meta w) c1"
      using full(3) reach full_chunk_nodes [OF nodes, of cfg] by auto
    moreover from this IH obtain c' where "chunk_at (w_meta w') (key_of c) = Some c'" by (metis option.exhaust)
    ultimately show ?thesis using IH by (metis option.inject)
  qed
  then have "\<forall>x \<in> set (c # cs). reachable_replica up x \<longrightarrow>
      (\<exists>c'. chunk_at (w_meta w') (key_of x) = Some c' \<and> full_chunk cfg (w_meta w) c')"
    using IH by simp
  moreover have "\<forall>key x. chunk_at (w_meta w') key = Some x \<longrightarrow> chunk_at (w_meta w) key = Some x \<or> full_chunk cfg (w_meta w) x"
    using IH at by blast
  ultimately show ?case using IH at by (intro conjI) blast+
qed simp

end

section \<open>A cluster with an under-replicated chunk\<close>

text \<open>Two nodes; the only chunk of the file has one replica, on the second.\<close>

definition example_chunk :: ChunkInfo where
  "example_chunk = \<lparr>ci_chunk_id = ''c'', ci_object_id = ''o'', ci_chunk_index = 0, ci_size = 2,
     ci_checksum = sha256 [1, 2], ci_version = 1,
     ci_replicas = [\<lparr>ri_node_id = ''n2'', ri_address = ''hn2'', ri_is_primary = True, ri_version = 1\<rparr>]\<rparr>"

definition example_header :: ChunkHeaderData where
  "example_header = \<lparr>ch_chunk_id = ''c'', ch_object_id = ''o'', ch_version = 1, ch_size = 2,
     ch_checksum = sha256 [1, 2], ch_created_at_ms = 0\<rparr>"

definition online_node :: "string \<Rightarrow> NodeInfo" where
  "online_node nid = (example_node nid 0)\<lparr>ni_online := True\<rparr>"

definition degraded_world :: "(string \<Rightarrow> chunk_store) world" where
  "degraded_world = \<lparr>w_meta = (MetadataStore ''p'' True None)\<lparr>
       ms_objects_by_id := [(''o'', ObjectInfo_default\<lparr>oi_object_id := ''o'', oi_filename := ''f'', oi_size := 2,
          oi_chunks := [example_chunk]\<rparr>)],
       ms_filename_to_id := [''f'' \<mapsto> ''o''],
       ms_nodes := [(''n1'', online_node ''n1''), (''n2'', online_node ''n2'')]\<rparr>,
     w_storage = snd (sa_WriteChunk store_api ''hn2'' example_header [1, 2] (\<lambda>_. ChunkStore ''/d'' [])), w_calls = 0\<rparr>"

definition example_cfg :: ClusterConfig where
  "example_cfg = ClusterConfig_default\<lparr>cc_replication_factor := 2\<rparr>"

definition recovery_net :: "(string \<Rightarrow> chunk_store) net" where
  "recovery_net = example_net\<lparr>n_cfg := example_cfg\<rparr>"

lemma degraded_objects:
  "um_find (ms_objects_by_id (w_meta degraded_world)) i = (if i = ''o'' then Some (ObjectInfo_default\<lparr>oi_object_id := ''o'',
     oi_filename := ''f'', oi_size := 2, oi_chunks := [example_chunk]\<rparr>) else None)"
  by (simp add: degraded_world_def um_find_def)

lemma degraded_nodes:
  "get_node i (w_meta degraded_world) = (if i = ''n1'' then Some (online_node ''n1'') else if i = ''n2'' then Some (online_node ''n2'') else None)"
  by (simp add: degraded_world_def um_find_def get_node_def)

lemma degraded_chunks: "all_chunks (w_meta degraded_world) = {example_chunk}"
  by (auto simp: all_chunks_def degraded_objects)

lemma degraded_stored: "store_stored (w_storage degraded_world) ''hn2'' ''c'' = Some (sha256 [1, 2], [1, 2])"
proof -
  obtain n where n: "sa_WriteChunk store_api ''hn2'' example_header [1, 2] (\<lambda>_. ChunkStore ''/d'' []) = (Some True, n)"
    using store_write_up [of "[1, 2]" example_header] by (auto simp: example_header_def)
  then have "store_stored n ''hn2'' (ch_chunk_id example_header) = Some (sha256 [1, 2], [1, 2])"
    by (rule store_cluster.write_done) (simp_all add: example_header_def)
  with n show ?thesis by (simp add: degraded_world_def example_header_def)
qed

lemma degraded_recoverable: "recoverable store_stored (\<lambda>_. [1, 2]) example_manager degraded_world"
proof -
  have inv: "ms_inv (w_meta degraded_world)"
    unfolding ms_inv_def namespace_inv_def degraded_objects
    by (auto simp: degraded_world_def um_inv_def um_find_def online_node_def example_node_def NodeInfo_default_def
        ObjectInfo_default_def MetadataStore_def load_def split: if_splits)
  have "sound_chunk store_stored (\<lambda>_. [1, 2]) (w_storage degraded_world) example_chunk"
    using degraded_stored by (simp add: sound_chunk_def chunk_stored_def replicas_hold_def example_chunk_def)
  moreover have "local_known example_manager (w_meta degraded_world)"
    by (simp add: local_known_def degraded_nodes example_manager_def online_node_def example_node_def NodeInfo_default_def)
  ultimately show ?thesis using inv by (simp add: recoverable_def intact_def degraded_chunks)
qed

lemma recovery_net_api: "n_api recovery_net = store_api"
  by (simp add: recovery_net_def example_net_def)

section \<open>Properties of recovery\<close>

text \<open>C15. Recovery never loses a file: from a state in which every recorded replica holds its chunk's
  payload, a recovery of a failed node, and any number of passes of the background repair, with any
  metadata call or its answer lost and any write refused, end in such a state again, with the same
  files made of the same chunks; a file downloaded before and after has the same bytes. The manager's
  own node is registered under the manager's address.\<close>

theorem recovery_keeps_files:
  assumes "replica_storage (n_api net) stored" "recoverable stored payload rm w"
    and "w' = snd (recover_failed_node net cfg rm failed w) \<or> w' = recovery_loop net cfg rm running w"
  shows "recoverable stored payload rm w' \<and> layout (w_meta w') = layout (w_meta w)
    \<and> (n_api net1 = n_api net \<and> n_api net2 = n_api net \<and> f \<noteq> []
        \<and> gr_success (fst (get net1 f w)) \<and> gr_success (fst (get net2 f w'))
        \<longrightarrow> gr_data (fst (get net2 f w')) = gr_data (fst (get net1 f w)))"
proof -
  note marked = marked_offline(2) [OF assms(2) refl, of net failed]
  have "recoverable stored payload rm w' \<and> layout (w_meta w') = layout (w_meta w)"
    using assms(3) replica_storage.recovery_loop_recovers [OF assms(1) refl assms(2), of cfg running]
      replica_storage.recover_failed_recovers [OF assms(1) refl assms(2) prod.collapse [symmetric], of cfg failed] marked
    by (auto simp: recovers_def)
  moreover from this have "gr_data (fst (get net2 f w')) = gr_data (fst (get net1 f w))"
    if "n_api net1 = n_api net" "n_api net2 = n_api net" "f \<noteq> []" "gr_success (fst (get net1 f w))" "gr_success (fst (get net2 f w'))"
    using that replica_storage.get_intact [OF assms(1) that(1) assms(2) that(3) prod.collapse [symmetric] that(4)]
      replica_storage.get_intact [OF assms(1) that(2) _ that(3) prod.collapse [symmetric] that(5), of payload rm] by auto
  ultimately show ?thesis by blast
qed

theorem recovery_keeps_files_witness:
  "recoverable store_stored (\<lambda>_. [1, 2]) example_manager
     (snd (recover_failed_node recovery_net example_cfg example_manager ''n3'' degraded_world))"
proof -
  have "replica_storage (n_api recovery_net) store_stored"
    unfolding recovery_net_api by (rule store_replicas.replica_storage_axioms)
  from recovery_keeps_files [OF this degraded_recoverable disjI1 [OF refl]] show ?thesis by blast
qed

text \<open>C5. What a recovery records meets the policy. From a state in which every recorded replica is true
  and the manager's own node, if registered, is registered at its address, with the contract of the storage
  nodes and whatever metadata calls are lost: after the recovery of a failed node every recorded chunk is as it
  was before, or was recorded anew with at least as many live replicas as the acknowledgement policy demands, on
  distinct nodes, all of them online; and where the failure reached the metadata service, none of these is the
  failed node. The operation always reports success.\<close>

theorem recovered_chunks_meet_policy:
  assumes "replica_storage (n_api net) stored" "recoverable stored payload rm w"
    and "recover_failed_node net cfg rm failed w = (res, w')"
  shows "rcv_success res \<and> (\<forall>c \<in> all_chunks (w_meta w'). c \<in> all_chunks (w_meta w)
    \<or> (case cc_write_ack cfg of All \<Rightarrow> unat (cc_replication_factor cfg)
        | Majority \<Rightarrow> unat (cc_replication_factor cfg) div 2 + 1) \<le> live_replicas (w_meta w') c
      \<and> distinct (map ri_node_id (ci_replicas c)) \<and> (\<forall>r \<in> set (ci_replicas c). replica_live (w_meta w') r)
      \<and> (n_fate net (w_calls w) \<noteq> RequestLost \<longrightarrow> failed \<notin> ri_node_id ` set (ci_replicas c)))"
proof -
  define w1 where "w1 = snd (rpc net (\<lambda>ev. MarkNodeOffline ev failed) w)"
  note marked = marked_offline [OF assms(2) w1_def [symmetric]]
  have rec: "recovers stored payload rm cfg w1 w'"
    using replica_storage.recover_failed_recovers [OF assms(1) refl assms(2,3)] by (simp only: w1_def)
  then have q: "quorum_chunk cfg (w_meta w')  = quorum_chunk cfg (w_meta w1)"
      "replica_live (w_meta w') = replica_live (w_meta w1)"
    by (auto simp: recovers_def intro: quorum_chunk_nodes replica_live_nodes)
  have "c \<in> all_chunks (w_meta w) \<or> quorum_chunk cfg (w_meta w') c" if "c \<in> all_chunks (w_meta w')" for c
    using that rec marked(3) by (auto simp: recovers_def q)
  moreover have "failed \<notin> ri_node_id ` set (ci_replicas c)"
    if "n_fate net (w_calls w) \<noteq> RequestLost" "quorum_chunk cfg (w_meta w') c" for c
    using that marked(5) quorum_chunk_live [OF that(2)] by (auto simp: q(2))
  moreover have "rcv_success res"
    using assms(3) by (auto simp: recover_failed_node_def Let_def split: prod.splits)
  ultimately show ?thesis using quorum_chunk_live unfolding quorum_chunk_def unat_required_acks by blast
qed

theorem recovered_chunks_meet_policy_witness:
  "all_chunks (w_meta (snd (recover_failed_node recovery_net example_cfg example_manager ''n3'' degraded_world)))
     \<subseteq> {example_chunk} \<union> {c. 2 \<le> live_replicas (w_meta (snd (recover_failed_node recovery_net example_cfg example_manager ''n3'' degraded_world))) c
       \<and> distinct (map ri_node_id (ci_replicas c)) \<and> ''n3'' \<notin> ri_node_id ` set (ci_replicas c)}"
proof -
  have "replica_storage (n_api recovery_net) store_stored"
    unfolding recovery_net_api by (rule store_replicas.replica_storage_axioms)
  note met = recovered_chunks_meet_policy [OF this degraded_recoverable prod.collapse [symmetric], of example_cfg "''n3''"]
  have "cc_write_ack example_cfg = Majority" "unat (cc_replication_factor example_cfg) div 2 + 1 = 2"
      "n_fate recovery_net (w_calls degraded_world) \<noteq> RequestLost"
    by (simp_all add: example_cfg_def ClusterConfig_default_def recovery_net_def example_net_def)
  with met show ?thesis by (auto simp: degraded_chunks)
qed

lemma repair_restores:
  assumes "available_storage (n_api net) stored up" "recoverable stored payload rm w" "owned (w_meta w)"
    and "healthy up net cfg rm (w_meta w)" "cc_replication_factor (n_cfg net) = cc_replication_factor cfg"
    and "\<And>c r. c \<in> all_chunks (w_meta w) \<Longrightarrow> r \<in> set (ci_replicas c) \<Longrightarrow> replica_live (w_meta w) r
      \<Longrightarrow> ri_node_id r \<noteq> [] \<and> up (ri_address r)"
    and "repair_under_replicated_chunks net cfg rm w = (res, w')"
  shows "rcv_success res \<and> (\<forall>c \<in> set (get_under_replicated_chunks (cc_replication_factor cfg) (w_meta w')).
    live_replicas (w_meta w') c = 0)"
proof -
  have rs: "replica_storage (n_api net) stored" using assms(1) by (simp add: available_storage_def)
  let ?w1 = "w\<lparr>w_calls := Suc (w_calls w)\<rparr>" and ?cs = "get_under_replicated_chunks (cc_replication_factor cfg) (w_meta w)"
  have inv: "ms_inv (w_meta w)" using assms(2) by (simp add: recoverable_def)
  have cs: "c \<in> all_chunks (w_meta w) \<and> live_replicas (w_meta w) c < unat (cc_replication_factor cfg) \<longleftrightarrow> c \<in> set ?cs" for c
    by (simp add: set_under_replicated [OF inv])
  have fate: "n_fate net (w_calls w) = Delivered" using assms(4) by (simp add: healthy_def)
  obtain recovered where res: "rcv_success res"
      and run: "recover_chunks net cfg rm [] (map chunk_to_proto ?cs) 0 ?w1 = (recovered, w')"
    using assms(5,7) fate
    by (auto simp: repair_under_replicated_chunks_def rpc_readonly GetUnderReplicatedChunks_def Let_def split: prod.splits)
  have rec1: "recoverable stored payload rm ?w1" using assms(2) by (simp add: recoverable_def intact_def)
  have key: "c \<in> all_chunks (w_meta w)" "chunk_at (w_meta w) (ci_object_id c, ci_chunk_id c) = Some c" if "c \<in> set ?cs" for c
    using cs [of c] that by (simp_all add: chunk_at_iff [OF assms(3)])
  have "\<forall>c \<in> set ?cs. sound_chunk stored payload (w_storage ?w1) c \<and> chunk_at (w_meta ?w1) (ci_object_id c, ci_chunk_id c) \<noteq> None"
    using assms(2) key by (auto simp: recoverable_def intact_def)
  note full = available_storage.recover_chunks_full [OF assms(1) refl rec1 _ _ this run]
  have own': "owned (w_meta w')"
      and kept: "\<And>i j c. chunk_at (w_meta w') (i, j) = Some c \<Longrightarrow> chunk_at (w_meta w) (i, j) = Some c \<or> full_chunk cfg (w_meta w) c"
      and restored: "\<And>c. c \<in> set ?cs \<Longrightarrow> reachable_replica up c \<Longrightarrow>
        \<exists>c'. chunk_at (w_meta w') (ci_object_id c, ci_chunk_id c) = Some c' \<and> full_chunk cfg (w_meta w) c'"
    using full assms(3,4) by simp_all
  have "recovers stored payload rm cfg w w'" by (rule replica_storage.repair_recovers [OF rs refl assms(2,7)])
  then have nodes: "ms_nodes (w_meta w') = ms_nodes (w_meta w)" and inv': "ms_inv (w_meta w')"
    by (simp_all add: recovers_def recoverable_def)
  note same = full_chunk_nodes [OF nodes, of cfg] replica_live_nodes [OF nodes]
  have "live_replicas (w_meta w') c = 0" if c: "c \<in> all_chunks (w_meta w')" "\<not> full_chunk cfg (w_meta w') c" for c
  proof -
    let ?key = "(ci_object_id c, ci_chunk_id c)"
    have at': "chunk_at (w_meta w') ?key = Some c" using c(1) by (simp add: chunk_at_iff [OF own'])
    then have at: "chunk_at (w_meta w) ?key = Some c" using kept [OF at'] c(2) same(1) by simp
    then have "c \<in> set ?cs" using c(2) cs [of c] same(1) by (simp add: chunk_at_iff [OF assms(3)] full_chunk_def)
    then have "\<not> reachable_replica up c" using restored [of c] at' c(2) same(1) by auto
    then have "\<forall>r \<in> set (ci_replicas c). \<not> replica_live (w_meta w) r"
      using assms(6) [of c] at by (auto simp: reachable_replica_def chunk_at_iff [OF assms(3)])
    then show ?thesis by (simp add: live_replicas_def same(2) filter_empty_conv)
  qed
  then show ?thesis using res by (auto simp: set_under_replicated [OF inv'] full_chunk_def)
qed

text \<open>C22. One pass of the repair restores the replication factor: where all calls are answered, the online
  nodes are up and there are as many of them as the factor asks for, no chunk with a replica that is
  still live is under-replicated afterwards. The two configurations agree on the factor; live replicas
  are recorded under addresses that are up, and no node has the empty id.\<close>

theorem repair_restores_replication:
  assumes "available_storage (n_api net) stored up" "recoverable stored payload rm w" "owned (w_meta w)"
    and "healthy up net cfg rm (w_meta w)" "cc_replication_factor (n_cfg net) = cc_replication_factor cfg"
    and "\<And>c r. c \<in> all_chunks (w_meta w) \<Longrightarrow> r \<in> set (ci_replicas c) \<Longrightarrow> replica_live (w_meta w) r
      \<Longrightarrow> ri_node_id r \<noteq> [] \<and> up (ri_address r)"
    and "repair_under_replicated_chunks net cfg rm w = (res, w')"
  shows "rcv_success res \<and> (\<forall>c \<in> set (get_under_replicated_chunks (cc_replication_factor cfg) (w_meta w')).
    live_replicas (w_meta w') c = 0)"
  by (rule repair_restores [OF assms])

theorem repair_restores_replication_witness:
  "filter (\<lambda>c. live_replicas (w_meta (snd (repair_under_replicated_chunks recovery_net example_cfg example_manager
      degraded_world))) c \<noteq> 0) (get_under_replicated_chunks 2 (w_meta (snd (repair_under_replicated_chunks recovery_net
      example_cfg example_manager degraded_world)))) = []"
proof -
  have api: "available_storage (n_api recovery_net) store_stored (\<lambda>_. True)"
    unfolding recovery_net_api by (rule store_available.available_storage_axioms)
  have "owned (w_meta degraded_world)"
    by (simp add: owned_def degraded_objects example_chunk_def)
  moreover have "healthy (\<lambda>_. True) recovery_net example_cfg example_manager (w_meta degraded_world)"
    by (simp add: healthy_def recovery_net_def example_net_def example_cfg_def ClusterConfig_default_def
        online_nodes_def degraded_world_def online_node_def)
  moreover have "ri_node_id r \<noteq> [] \<and> True" if "c \<in> all_chunks (w_meta degraded_world)" "r \<in> set (ci_replicas c)" for c r
    using that by (auto simp: degraded_chunks example_chunk_def)
  ultimately show ?thesis
    using repair_restores_replication [OF api degraded_recoverable _ _ _ _ prod.collapse [symmetric], of example_cfg]
    by (simp add: recovery_net_def filter_empty_conv) (simp add: example_cfg_def)
qed

end
