(* ===== verification/Heartbeat.thy ===== *)
theory Heartbeat
  imports Cluster
begin

text \<open>
  \<open>src/heartbeat/heartbeat_manager.cpp\<close>: a storage node registers with the metadata service and then
  sends heartbeats until it is stopped. The timeout and the failure callback are stored and used
  nowhere, and \<open>monitor_loop\<close> is declared but not defined. The lemmas say what a beat does to the registry.
\<close>

section \<open>Definitions\<close>

record heartbeat_manager =
  hb_node_id :: string
  hb_metadata_address :: string
  hb_interval_sec :: u32
  hb_timeout_sec :: u32
  hb_running :: bool
  hb_threads :: nat
  hb_callback_set :: bool
  hb_free_bytes :: u64
  hb_chunk_count :: u64

definition HeartbeatManager :: "string \<Rightarrow> string \<Rightarrow> u32 \<Rightarrow> u32 \<Rightarrow> heartbeat_manager" where
  "HeartbeatManager node_id metadata_address interval_sec timeout_sec =
     \<lparr>hb_node_id = node_id, hb_metadata_address = metadata_address, hb_interval_sec = interval_sec,
      hb_timeout_sec = timeout_sec, hb_running = False, hb_threads = 0, hb_callback_set = False,
      hb_free_bytes = 0, hb_chunk_count = 0\<rparr>"

definition set_failure_callback :: "heartbeat_manager \<Rightarrow> heartbeat_manager" where
  "set_failure_callback h = h\<lparr>hb_callback_set := True\<rparr>"

text \<open>The answer is not looked at.\<close>

definition register_with_metadata ::
  "'n net \<Rightarrow> string \<Rightarrow> u64 \<Rightarrow> heartbeat_manager \<Rightarrow> 'n world \<Rightarrow> 'n world" where
  "register_with_metadata net address total_bytes h w =
     snd (rpc net (\<lambda>ev. RegisterNode ev (ev_now ev) (hb_node_id h) address total_bytes) w)"

text \<open>A second start changes nothing; the thread is started once.\<close>

definition heartbeat_start :: "u64 \<Rightarrow> u64 \<Rightarrow> heartbeat_manager \<Rightarrow> heartbeat_manager" where
  "heartbeat_start free_bytes chunk_count h =
     (if hb_running h then h
      else h\<lparr>hb_running := True, hb_free_bytes := free_bytes, hb_chunk_count := chunk_count,
             hb_threads := hb_threads h + 1\<rparr>)"

definition heartbeat_stop :: "heartbeat_manager \<Rightarrow> heartbeat_manager" where
  "heartbeat_stop h = (if hb_running h then h\<lparr>hb_running := False, hb_threads := 0\<rparr> else h)"

text \<open>One heartbeat; the result says whether the status was \<open>OK\<close> (a warning is logged otherwise).\<close>

definition heartbeat_beat :: "'n net \<Rightarrow> heartbeat_manager \<Rightarrow> 'n world \<Rightarrow> bool \<times> 'n world" where
  "heartbeat_beat net h w =
     (let (r, w1) = rpc net (\<lambda>ev. NodeHeartbeat ev (hb_node_id h) (hb_free_bytes h) (hb_chunk_count h)) w
      in (r \<noteq> None, w1))"

text \<open>The list holds what the loop reads of \<open>running_\<close> at its head.\<close>

fun heartbeat_loop :: "'n net \<Rightarrow> heartbeat_manager \<Rightarrow> bool list \<Rightarrow> 'n world \<Rightarrow> 'n world" where
  "heartbeat_loop net h [] w = w"
| "heartbeat_loop net h (running # rest) w =
     (if running then heartbeat_loop net h rest (snd (heartbeat_beat net h w)) else w)"

section \<open>Lemmas\<close>

lemma heartbeat_node:
  assumes "ms_inv m" "update_node_heartbeat ev i free cnt m = (b, m')"
  shows "ms_inv m'" "get_node j m' = (if j = i then map_option (\<lambda>n. n\<lparr>ni_online := True, ni_free_bytes := free,
      ni_chunk_count := cnt, ni_last_heartbeat := ev_now ev\<rparr>) (get_node i m) else get_node j m)"
proof -
  show "ms_inv m'" using registry_steps(2) [OF assms] by simp
  have "um_inv (ms_nodes m)" using assms(1) by (simp add: ms_inv_def)
  with assms(2) show "get_node j m' = (if j = i then map_option (\<lambda>n. n\<lparr>ni_online := True, ni_free_bytes := free,
      ni_chunk_count := cnt, ni_last_heartbeat := ev_now ev\<rparr>) (get_node i m) else get_node j m)"
    by (auto simp: update_node_heartbeat_def Let_def get_node_def um_simps split: option.splits)
qed

text \<open>A heartbeat that reaches the service brings a registered node online, also one that was marked
  offline, with the counts given at the start; other nodes are not touched.\<close>

lemma heartbeat_brings_online:
  assumes "ms_inv (w_meta w)" "n_fate net (w_calls w) \<noteq> RequestLost" "get_node (hb_node_id h) (w_meta w) = Some n"
    and "heartbeat_beat net h w = (ok, w')"
  shows "ms_inv (w_meta w')" "ok \<longleftrightarrow> n_fate net (w_calls w) = Delivered"
    "\<exists>n'. get_node (hb_node_id h) (w_meta w') = Some n' \<and> ni_online n' \<and> ni_free_bytes n' = hb_free_bytes h
      \<and> ni_chunk_count n' = hb_chunk_count h \<and> ni_address n' = ni_address n"
    "j \<noteq> hb_node_id h \<Longrightarrow> get_node j (w_meta w') = get_node j (w_meta w)"
proof -
  obtain b m' where u: "update_node_heartbeat (n_env net (w_calls w)) (hb_node_id h) (hb_free_bytes h) (hb_chunk_count h)
      (w_meta w) = (b, m')" by force
  have w': "w_meta w' = m'" "ok \<longleftrightarrow> n_fate net (w_calls w) = Delivered"
    using assms(2,4) u by (auto simp: heartbeat_beat_def rpc_def NodeHeartbeat_def Let_def split: fate.splits)
  note node = heartbeat_node [OF assms(1) u]
  show "ms_inv (w_meta w')" "ok \<longleftrightarrow> n_fate net (w_calls w) = Delivered" using node(1) w' by simp_all
  show "\<exists>n'. get_node (hb_node_id h) (w_meta w') = Some n' \<and> ni_online n' \<and> ni_free_bytes n' = hb_free_bytes h
      \<and> ni_chunk_count n' = hb_chunk_count h \<and> ni_address n' = ni_address n"
    using node(2) [of "hb_node_id h"] assms(3) w'(1) by simp
  show "j \<noteq> hb_node_id h \<Longrightarrow> get_node j (w_meta w') = get_node j (w_meta w)" using node(2) [of j] w'(1) by simp
qed

end
