(* ===== verification/Engine.thy ===== *)
theory Engine
  imports Recovery Heartbeat
begin

text \<open>
  The engine as its users see it: clients, storage nodes, managers and the metadata service together, one
  operation after the other, with any call lost, any chunk lost by a disk and recovery at any time. Its
  traces are traces of a map from file names to contents (\<open>file_step\<close>). The proof needs no replica
  to be in place: whatever a storage node holds under a chunk id is the payload that id stands for,
  and no operation changes which ids a file consists of.
\<close>

section \<open>Definitions\<close>

text \<open>What an observer sees of an operation.\<close>

datatype event =
    Uploaded string bytes bool
  | Downloaded string "bytes option"
  | Deleted string bool
  | Listed string "(string \<times> u64) list"
  | Headed string "u64 option"
  | Internal

text \<open>The ids an upload draws: the object's and its chunks'. They are new where they differ from each other
  and from all ids drawn before.\<close>

definition drawn_ids :: "'n net \<Rightarrow> bytes \<Rightarrow> 'n world \<Rightarrow> string set" where
  "drawn_ids net data w = env_uuid (n_env net (w_calls w)) `
     {0..max 1 (chunk_total (length data) (unat (mb_to_bytes (cc_chunk_size_mb (n_cfg net)))))}"

definition fresh_ids :: "string set \<Rightarrow> 'n net \<Rightarrow> bytes \<Rightarrow> 'n world \<Rightarrow> bool" where
  "fresh_ids used net data w \<longleftrightarrow> ids_distinct net data w \<and> drawn_ids net data w \<inter> used = {}"

text \<open>The steps: the client's operations, the recovery of a node and a repair, the registration and the
  heartbeat of a node, an announced leader, and the loss of stored chunks. The state is the set of ids
  drawn so far and the cluster.\<close>

inductive engine_step ::
  "'n storage_api \<Rightarrow> ('n \<Rightarrow> string \<Rightarrow> string \<Rightarrow> (string \<times> bytes) option)
   \<Rightarrow> string set \<times> 'n world \<Rightarrow> event \<Rightarrow> string set \<times> 'n world \<Rightarrow> bool"
  for api stored where
  Put: "n_api net = api \<Longrightarrow> length data < 2 ^ 64 \<Longrightarrow> fresh_ids used net data w \<Longrightarrow>
    put net f data owner w = Some (res, w') \<Longrightarrow>
    engine_step api stored (used, w) (Uploaded f data (pr_success res)) (used \<union> drawn_ids net data w, w')"
| Get: "n_api net = api \<Longrightarrow> get net f w = (g, w') \<Longrightarrow>
    engine_step api stored (used, w) (Downloaded f (if gr_success g then Some (gr_data g) else None)) (used, w')"
| Delete: "n_api net = api \<Longrightarrow> client_delete_object net f w = (ok, w') \<Longrightarrow>
    engine_step api stored (used, w) (Deleted f ok) (used, w')"
| List: "n_api net = api \<Longrightarrow> client_list net p w = (objs, w') \<Longrightarrow>
    engine_step api stored (used, w) (Listed p (map (\<lambda>obj. (oi_filename obj, oi_size obj)) objs)) (used, w')"
| Head: "n_api net = api \<Longrightarrow> client_head net f w = (obj, w') \<Longrightarrow>
    engine_step api stored (used, w) (Headed f (map_option oi_size obj)) (used, w')"
| Recover: "n_api net = api \<Longrightarrow> recover_failed_node net cfg rm failed w = (res, w') \<Longrightarrow>
    engine_step api stored (used, w) Internal (used, w')"
| Repair: "n_api net = api \<Longrightarrow> repair_under_replicated_chunks net cfg rm w = (res, w') \<Longrightarrow>
    engine_step api stored (used, w) Internal (used, w')"
| Register: "n_api net = api \<Longrightarrow> register_with_metadata net address total_bytes h w = w' \<Longrightarrow>
    engine_step api stored (used, w) Internal (used, w')"
| Beat: "n_api net = api \<Longrightarrow> heartbeat_beat net h w = (ok, w') \<Longrightarrow>
    engine_step api stored (used, w) Internal (used, w')"
| Lead: "engine_step api stored (used, w) Internal (used, w\<lparr>w_meta := set_leader ev leader gen (w_meta w)\<rparr>)"
| Lose: "(\<And>addr cid. stored n addr cid \<in> {stored (w_storage w) addr cid, None}) \<Longrightarrow>
    engine_step api stored (used, w) Internal (used, w\<lparr>w_storage := n\<rparr>)"

text \<open>The specification: a map from names to contents. An upload needs a free name, and one that reports
  failure may have taken effect; so may a deletion. A listing is sorted by name.\<close>

definition listing :: "string \<Rightarrow> (string \<Rightarrow> bytes option) \<Rightarrow> (string \<times> u64) list" where
  "listing p F = map (\<lambda>f. (f, word_of_nat (length (the (F f)))))
     (sorted_list_of_set {f \<in> dom F. take (length p) f = p})"

inductive file_step :: "(string \<Rightarrow> bytes option) \<Rightarrow> event \<Rightarrow> (string \<Rightarrow> bytes option) \<Rightarrow> bool" where
  Upload: "F f = None \<Longrightarrow> file_step F (Uploaded f data ok) (F(f \<mapsto> data))"
| Upload_fails: "file_step F (Uploaded f data False) F"
| Download: "F f = Some data \<Longrightarrow> file_step F (Downloaded f (Some data)) F"
| Download_fails: "file_step F (Downloaded f None) F"
| Remove: "F f \<noteq> None \<Longrightarrow> file_step F (Deleted f ok) (F(f := None))"
| Remove_fails: "file_step F (Deleted f False) F"
| Listing: "file_step F (Listed p (take 10000 (listing p F))) F"
| Listing_fails: "file_step F (Listed p []) F"
| Size: "F f = Some data \<Longrightarrow> file_step F (Headed f (Some (word_of_nat (length data)))) F"
| Size_fails: "file_step F (Headed f None) F"
| Nothing: "file_step F Internal F"

inductive_simps file_step_simps:
  "file_step F (Uploaded f data ok) F'" "file_step F (Downloaded f r) F'" "file_step F (Deleted f ok) F'"
  "file_step F (Listed p xs) F'" "file_step F (Headed f n) F'" "file_step F Internal F'"

section \<open>The invariant\<close>

text \<open>A file's object, size and chunk ids; \<open>payload\<close> says what each id drawn so far stands for.\<close>

definition file_shape :: "metadata_store \<Rightarrow> string \<Rightarrow> (string \<times> u64 \<times> string list) option" where
  "file_shape m f = map_option (\<lambda>obj. (oi_object_id obj, oi_size obj, map ci_chunk_id (oi_chunks obj)))
     (locate_by_filename f m)"

definition content :: "(string \<Rightarrow> bytes option) \<Rightarrow> string list \<Rightarrow> bytes" where
  "content payload ids = concat (map (\<lambda>i. the (payload i)) ids)"

definition files :: "(string \<Rightarrow> bytes option) \<Rightarrow> metadata_store \<Rightarrow> string \<Rightarrow> bytes option" where
  "files payload m f = map_option (\<lambda>(i, sz, ids). content payload ids) (file_shape m f)"

definition truthful ::
  "('n \<Rightarrow> string \<Rightarrow> string \<Rightarrow> (string \<times> bytes) option) \<Rightarrow> (string \<Rightarrow> bytes option) \<Rightarrow> 'n \<Rightarrow> bool" where
  "truthful stored payload n \<longleftrightarrow>
     (\<forall>addr cid x. stored n addr cid = Some x \<longrightarrow> (\<exists>p. payload cid = Some p \<and> x = (sha256 p, p)))"

definition meta_ok :: "metadata_store \<Rightarrow> bool" where
  "meta_ok m \<longleftrightarrow> ms_inv m \<and> (\<forall>c \<in> all_chunks m. length (ci_object_id c) < 2 ^ 32)"

definition sound ::
  "('n \<Rightarrow> string \<Rightarrow> string \<Rightarrow> (string \<times> bytes) option) \<Rightarrow> (string \<Rightarrow> bytes option) \<Rightarrow> 'n world \<Rightarrow> bool" where
  "sound stored payload w \<longleftrightarrow> meta_ok (w_meta w) \<and> truthful stored payload (w_storage w)"

text \<open>An operation is quiet when it keeps the two and every file.\<close>

definition quiet ::
  "('n \<Rightarrow> string \<Rightarrow> string \<Rightarrow> (string \<times> bytes) option) \<Rightarrow> (string \<Rightarrow> bytes option) \<Rightarrow> 'n world \<Rightarrow> 'n world \<Rightarrow> bool" where
  "quiet stored payload w w' \<longleftrightarrow> sound stored payload w' \<and> file_shape (w_meta w') = file_shape (w_meta w)"

lemma quiet_trans: "quiet stored payload w w1 \<Longrightarrow> quiet stored payload w1 w2 \<Longrightarrow> quiet stored payload w w2"
  by (simp add: quiet_def)

lemma quiet_refl: "sound stored payload w \<Longrightarrow> quiet stored payload w w"
  by (simp add: quiet_def)

lemma quiet_sound: "quiet stored payload w w' \<Longrightarrow> sound stored payload w'"
  by (simp add: quiet_def)

section \<open>Metadata calls\<close>

lemma shape_objects:
  assumes "ms_inv m" "ms_inv m'" "ms_objects_by_id m' = ms_objects_by_id m"
  shows "file_shape m' = file_shape m"
proof -
  have "locate_by_filename f m' = locate_by_filename f m" for f
    by (rule option.expand) (metis assms locate_iff not_None_eq option.collapse)+
  then show ?thesis by (simp add: file_shape_def fun_eq_iff)
qed

lemma meta_ok_objects:
  assumes "meta_ok m" "ms_inv m'" "ms_objects_by_id m' = ms_objects_by_id m"
  shows "meta_ok m' \<and> file_shape m' = file_shape m"
  using assms shape_objects [of m m'] by (simp add: meta_ok_def all_chunks_def)

lemma meta_SelectNodes:
  assumes "meta_ok m"
  shows "meta_ok (snd (SelectNodes cfg ev cnt strategy m)) \<and> file_shape (snd (SelectNodes cfg ev cnt strategy m)) = file_shape m"
proof -
  obtain sel m' where s: "select_nodes ev cnt (requested_strategy cfg strategy) m = (sel, m')" by force
  with select_nodes_frame(1,4) [OF s] meta_ok_objects [OF assms, of m'] assms show ?thesis
    by (simp add: SelectNodes_def meta_ok_def)
qed

lemma meta_registry:
  assumes "meta_ok m"
  shows "meta_ok (snd (RegisterNode ev now i address tot m)) \<and> file_shape (snd (RegisterNode ev now i address tot m)) = file_shape m"
    "meta_ok (snd (NodeHeartbeat ev i free cnt m)) \<and> file_shape (snd (NodeHeartbeat ev i free cnt m)) = file_shape m"
    "meta_ok (snd (MarkNodeOffline ev i m)) \<and> file_shape (snd (MarkNodeOffline ev i m)) = file_shape m"
    "meta_ok (set_leader ev l g m) \<and> file_shape (set_leader ev l g m) = file_shape m"
proof -
  have inv: "ms_inv m" using assms by (simp add: meta_ok_def)
  let ?n = "NodeInfo_default\<lparr>ni_id := i, ni_address := address, ni_total_bytes := tot, ni_online := True, ni_last_heartbeat := now\<rparr>"
  obtain b1 m1 where 1: "register_node ev ?n m = (b1, m1)" by force
  obtain b2 m2 where 2: "update_node_heartbeat ev i free cnt m = (b2, m2)" by force
  obtain b3 m3 where 3: "mark_node_offline ev i m = (b3, m3)" by force
  have "ms_inv m1" "ms_inv m2" "ms_inv m3"
    using registry_steps(1) [OF inv 1] registry_steps(2) [OF inv 2] registry_steps(3) [OF inv 3] by simp_all
  moreover have "ms_objects_by_id m1 = ms_objects_by_id m" "ms_objects_by_id m2 = ms_objects_by_id m"
      "ms_objects_by_id m3 = ms_objects_by_id m"
    using 1 2 3 by (auto simp: register_node_def update_node_heartbeat_def mark_node_offline_def Let_def split: option.splits)
  ultimately show "meta_ok (snd (RegisterNode ev now i address tot m)) \<and> file_shape (snd (RegisterNode ev now i address tot m)) = file_shape m"
    "meta_ok (snd (NodeHeartbeat ev i free cnt m)) \<and> file_shape (snd (NodeHeartbeat ev i free cnt m)) = file_shape m"
    "meta_ok (snd (MarkNodeOffline ev i m)) \<and> file_shape (snd (MarkNodeOffline ev i m)) = file_shape m"
    using 1 2 3 meta_ok_objects [OF assms, of m1] meta_ok_objects [OF assms, of m2] meta_ok_objects [OF assms, of m3]
    by (simp_all add: RegisterNode_def NodeHeartbeat_def MarkNodeOffline_def Let_def)
  have "ms_inv (set_leader ev l g m)" using inv by (simp add: set_leader_def ms_inv_def)
  then show "meta_ok (set_leader ev l g m) \<and> file_shape (set_leader ev l g m) = file_shape m"
    using meta_ok_objects [OF assms] by (simp add: set_leader_def)
qed

lemma meta_UpdateChunk:
  assumes ok: "meta_ok m" and len: "length (cm_object_id pb) < 2 ^ 32"
  shows "meta_ok (snd (UpdateChunk ev i pb m)) \<and> file_shape (snd (UpdateChunk ev i pb m)) = file_shape m"
proof -
  obtain b m' where u: "update_chunk ev i (from_proto pb) m = (b, m')" by force
  have inv: "ms_inv m" and um: "um_inv (ms_objects_by_id m)" using ok by (simp_all add: meta_ok_def ms_inv_def namespace_inv_def)
  note eff = update_chunk_effect(1,3) [OF inv u]
  consider "m' = m"
    | obj chunks where "um_find (ms_objects_by_id m) i = Some obj" "replace_chunk (from_proto pb) (oi_chunks obj) = Some chunks"
      "m' = snd (persist ev (m\<lparr>ms_objects_by_id := um_assign (ev_rank ev) i
          (obj\<lparr>oi_chunks := chunks, oi_updated_at := ev_now ev\<rparr>) (ms_objects_by_id m)\<rparr>))"
    using u by (auto simp: update_chunk_def Let_def split: option.splits)
  then have "file_shape m' = file_shape m"
  proof cases
    case (2 obj chunks)
    have "file_shape m' f = file_shape m f" for f
      using replace_chunk_Some [OF 2(2)] 2(1) um
      by (auto simp: file_shape_def 2(3) locate_by_filename_def um_simps split: option.splits)
    then show ?thesis by blast
  qed simp
  moreover have "meta_ok m'" using eff ok len by (auto simp: meta_ok_def from_proto_def)
  ultimately show ?thesis using u by (simp add: UpdateChunk_def)
qed

text \<open>Deletions remove the name of one object.\<close>

lemma all_chunks_delete:
  assumes "ms_inv m" "delete_object ev i m = (b, m')"
  shows "all_chunks m' \<subseteq> all_chunks m"
proof -
  have um: "um_inv (ms_objects_by_id m)" using assms(1) by (simp add: ms_inv_def namespace_inv_def)
  have "ms_objects_by_id m' = ms_objects_by_id m \<or> ms_objects_by_id m' = um_erase i (ms_objects_by_id m)"
    using assms(2) by (auto simp: delete_object_def Let_def split: option.splits)
  then have "um_find (ms_objects_by_id m) j = Some obj" if "um_find (ms_objects_by_id m') j = Some obj" for j obj
    using that um by (auto simp: um_simps split: if_splits)
  then show ?thesis unfolding all_chunks_def by blast
qed

lemma meta_delete:
  assumes ok: "meta_ok m" and d: "delete_object ev i m = (b, m')"
  shows "meta_ok m'" "file_shape m' f = (case file_shape m f of None \<Rightarrow> None | Some (j, x) \<Rightarrow> if j = i then None else Some (j, x))"
    "b \<longleftrightarrow> (\<exists>f x. file_shape m f = Some (i, x))"
proof -
  have inv: "ms_inv m" using ok by (simp add: meta_ok_def)
  note step = delete_object_step [OF inv d]
  then show "meta_ok m'" using ok all_chunks_delete [OF inv d] by (auto simp: meta_ok_def)
  have "sp_names (ms_view m') = on_object i (\<lambda>_. None) (sp_names (ms_view m))"
    using step by (auto dest: arg_cong [of _ "ms_view m'" sp_names])
  then have "locate_by_filename f m' = on_object i (\<lambda>_. None) (\<lambda>f. locate_by_filename f m) f"
    by (simp add: ms_view_def fun_eq_iff)
  then show "file_shape m' f = (case file_shape m f of None \<Rightarrow> None | Some (j, x) \<Rightarrow> if j = i then None else Some (j, x))"
    by (simp add: file_shape_def on_object_def split: option.split)
  have "b \<longleftrightarrow> has_object i (\<lambda>_. True) (sp_names (ms_view m))" using step by simp
  then show "b \<longleftrightarrow> (\<exists>f x. file_shape m f = Some (i, x))"
    by (auto simp: has_object_def ms_view_def file_shape_def ran_def)
qed

lemma shape_unique:
  assumes "ms_inv m" "file_shape m f = Some (i, x)" "file_shape m g = Some (i, y)"
  shows "f = g"
proof -
  obtain a b where "locate_by_filename f m = Some a" "locate_by_filename g m = Some b" "oi_object_id a = i" "oi_object_id b = i"
    using assms(2,3) by (auto simp: file_shape_def)
  then show ?thesis using locate_iff [OF assms(1), of f a] locate_iff [OF assms(1), of g b] by auto
qed

lemma meta_delete_named:
  assumes ok: "meta_ok m" and d: "delete_object ev i m = (b, m')" and f: "file_shape m f = Some (i, x)"
  shows "meta_ok m'" "file_shape m' = (file_shape m)(f := None)" "b"
proof -
  note del = meta_delete [OF ok d]
  have inv: "ms_inv m" using ok by (simp add: meta_ok_def)
  show "meta_ok m'" by (rule del)
  show "b" unfolding del(3) using f by blast
  show "file_shape m' = (file_shape m)(f := None)"
  proof
    fix g
    show "file_shape m' g = ((file_shape m)(f := None)) g"
    proof (cases "file_shape m g")
      case None
      then show ?thesis by (simp add: del(2))
    next
      case (Some y)
      then obtain j x' where y: "file_shape m g = Some (j, x')" by (cases y) auto
      then have "j = i \<Longrightarrow> g = f" using shape_unique [OF inv f] by blast
      then show ?thesis using f y by (auto simp: del(2))
    qed
  qed
qed

lemma meta_DeleteObject_name:
  assumes ok: "meta_ok m" and d: "DeleteObject ev [] f m = (r, m')"
  shows "meta_ok m' \<and> (if sr_success r then file_shape m f \<noteq> None \<and> file_shape m' = (file_shape m)(f := None)
    else file_shape m' = file_shape m)"
proof (cases "f = [] \<or> ms_filename_to_id m f = None")
  case True
  then have "m' = m" "\<not> sr_success r" using d by (auto simp: DeleteObject_def delete_object_by_filename_def split: if_splits)
  with ok show ?thesis by simp
next
  case False
  then obtain i where i: "f \<noteq> []" "ms_filename_to_id m f = Some i" by blast
  have inv: "ms_inv m" using ok by (simp add: meta_ok_def)
  obtain b where b: "delete_object ev i m = (b, m')" "sr_success r = b"
    using d i by (auto simp: DeleteObject_def delete_object_by_filename_def Let_def split: prod.splits)
  obtain obj where "um_find (ms_objects_by_id m) i = Some obj" "oi_filename obj = f"
    using namespace_nameD [OF ms_inv_namespace [OF inv] i(2)] .
  then have "file_shape m f = Some (i, oi_size obj, map ci_chunk_id (oi_chunks obj))"
    using i namespace_invD(1) [OF ms_inv_namespace [OF inv]] by (simp add: file_shape_def locate_by_filename_def)
  with meta_delete_named [OF ok b(1) this] b(2) show ?thesis by simp
qed

lemma meta_create:
  assumes ok: "meta_ok m" and fresh: "um_find (ms_objects_by_id m) (env_uuid ev 0) = None"
    and c: "create_object ev f sz rf owner cs m = Some (Some obj, m')"
  shows "meta_ok m'" "file_shape m f = None" "oi_object_id obj = env_uuid ev 0"
    "file_shape m' = (file_shape m)(f \<mapsto> (env_uuid ev 0, sz, map ci_chunk_id (oi_chunks obj)))"
proof -
  have inv: "ms_inv m" using ok by (simp add: meta_ok_def)
  note cr = created [OF inv fresh c] and new = create_object_SomeD [OF c]
  show oid: "oi_object_id obj = env_uuid ev 0" using new(3) by (simp add: new_object_def)
  show "file_shape m f = None" using new(1) by (simp add: file_shape_def locate_by_filename_def)
  show "file_shape m' = (file_shape m)(f \<mapsto> (env_uuid ev 0, sz, map ci_chunk_id (oi_chunks obj)))"
    using fun_cong [OF cr(3)] oid new(3) by (auto simp: file_shape_def fun_eq_iff new_object_def)
  have um: "um_inv (ms_objects_by_id m)" using inv by (simp add: ms_inv_def namespace_inv_def)
  have objs: "ms_objects_by_id m' = um_assign (ev_rank ev) (env_uuid ev 0) obj (ms_objects_by_id m)"
    using c create_object_simp [OF new(1,2), of ev rf owner] by auto
  have "length (ci_object_id x) < 2 ^ 32" if x: "x \<in> all_chunks m'" for x
  proof -
    obtain j ob where j: "um_find (ms_objects_by_id m') j = Some ob" "x \<in> set (oi_chunks ob)"
      using x by (auto simp: all_chunks_def)
    show ?thesis
    proof (cases "j = env_uuid ev 0")
      case True
      then have "x \<in> set (spec_plan (\<lambda>i. env_uuid ev (i + 1)) (env_uuid ev 0) sz cs)"
        using j um new(3) by (auto simp: objs um_simps new_object_def)
      then show ?thesis by (auto simp: spec_plan_def plan_chunk_def)
    next
      case False
      then have "x \<in> all_chunks m" using j um by (auto simp: objs um_simps all_chunks_def)
      with ok show ?thesis by (simp add: meta_ok_def)
    qed
  qed
  with cr(1) show "meta_ok m'" by (simp add: meta_ok_def)
qed

lemma rpc_cases:
  assumes "rpc net h w = (r, w')"
  obtains (unsent) "w' = w\<lparr>w_calls := Suc (w_calls w)\<rparr>" "r = None"
  | (sent) x m where "h (n_env net (w_calls w)) (w_meta w) = (x, m)" "w' = w\<lparr>w_calls := Suc (w_calls w), w_meta := m\<rparr>"
      "r = None \<or> r = Some x"
  using assms by (auto simp: rpc_def Let_def split: prod.splits fate.splits)

lemma quiet_rpc:
  assumes "sound stored payload w"
    and "\<And>ev. meta_ok (snd (h ev (w_meta w))) \<and> file_shape (snd (h ev (w_meta w))) = file_shape (w_meta w)"
    and "rpc net h w = (r, w')"
  shows "quiet stored payload w w'"
  using assms(3)
proof (cases rule: rpc_cases)
  case unsent
  then show ?thesis using assms(1) by (simp add: quiet_def sound_def)
next
  case (sent x m)
  then show ?thesis using assms(1) assms(2) [of "n_env net (w_calls w)"] by (simp add: quiet_def sound_def)
qed

lemma quiet_readonly:
  assumes "sound stored payload w" "rpc net (readonly q) w = (r, w')"
  shows "quiet stored payload w w'" "w_meta w' = w_meta w" "w_storage w' = w_storage w"
    "r = None \<or> r = Some (q (w_meta w))"
  using assms by (auto simp: rpc_readonly quiet_def sound_def split: if_splits)

section \<open>Storage calls\<close>

definition truthful_step ::
  "('n \<Rightarrow> string \<Rightarrow> string \<Rightarrow> (string \<times> bytes) option) \<Rightarrow> (string \<Rightarrow> bytes option) \<Rightarrow> 'n \<Rightarrow> 'n \<Rightarrow> bool" where
  "truthful_step stored payload n n' \<longleftrightarrow> (\<forall>addr cid. stored n' addr cid = stored n addr cid \<or> stored n' addr cid = None
     \<or> (\<exists>p. payload cid = Some p \<and> stored n' addr cid = Some (sha256 p, p)))"

lemma quiet_storage:
  assumes "sound stored payload w" "truthful_step stored payload (w_storage w) (w_storage w')" "w_meta w' = w_meta w"
  shows "quiet stored payload w w'"
proof -
  have "truthful stored payload (w_storage w')"
    unfolding truthful_def
  proof (intro allI impI)
    fix addr cid x assume x: "stored (w_storage w') addr cid = Some x"
    have "stored (w_storage w') addr cid = stored (w_storage w) addr cid \<or> stored (w_storage w') addr cid = None
      \<or> (\<exists>p. payload cid = Some p \<and> stored (w_storage w') addr cid = Some (sha256 p, p))"
      using assms(2) by (simp add: truthful_step_def)
    then show "\<exists>p. payload cid = Some p \<and> x = (sha256 p, p)"
      using x assms(1) unfolding sound_def truthful_def by (metis option.discI option.inject)
  qed
  with assms(1,3) show ?thesis by (simp add: quiet_def sound_def)
qed

lemma quiet_same_storage:
  "sound stored payload w \<Longrightarrow> stored (w_storage w') = stored (w_storage w) \<Longrightarrow> w_meta w' = w_meta w \<Longrightarrow> quiet stored payload w w'"
  by (rule quiet_storage) (simp_all add: truthful_step_def)

text \<open>The chunk ids in use have payloads and fit the format's fields.\<close>

definition payloads_small :: "(string \<Rightarrow> bytes option) \<Rightarrow> bool" where
  "payloads_small payload \<longleftrightarrow> (\<forall>cid p. payload cid = Some p \<longrightarrow> length p < 2 ^ 64 \<and> length cid < 2 ^ 32)"

context storage_contract
begin

lemma quiet_write:
  assumes "n_api net = api" "payloads_small payload" "payload (ci_chunk_id chunk) = Some data" "length oid < 2 ^ 32"
    and "sound stored payload w" "write_chunk_to_node net addr chunk data oid w = (b, w')"
  shows "quiet stored payload w w'"
proof -
  have "length data < 2 ^ 64" "length (ci_chunk_id chunk) < 2 ^ 32" using assms(2,3) by (auto simp: payloads_small_def)
  note wn = write_node [OF assms(1) this assms(4,6)]
  have "truthful_step stored payload (w_storage w) (w_storage w')"
    unfolding truthful_step_def
  proof (intro allI)
    fix a cid
    show "stored (w_storage w') a cid = stored (w_storage w) a cid \<or> stored (w_storage w') a cid = None
      \<or> (\<exists>p. payload cid = Some p \<and> stored (w_storage w') a cid = Some (sha256 p, p))"
    proof (cases "cid = ci_chunk_id chunk \<and> a = addr")
      case True
      then show ?thesis using wn(3,4) assms(3) by (cases b) auto
    next
      case False
      then show ?thesis using wn(5) by blast
    qed
  qed
  with assms(5) wn(1) show ?thesis by (intro quiet_storage)
qed

lemma quiet_put_replicas:
  assumes "n_api net = api" "payloads_small payload" "payload (ci_chunk_id chunk) = Some data" "length oid < 2 ^ 32"
    and "sound stored payload w" "put_replicas net chunk data oid nodes reps w = (reps', w')"
  shows "quiet stored payload w w'"
  using assms(5,6)
proof (induction nodes arbitrary: reps w)
  case Nil
  then show ?case by (simp add: quiet_refl)
next
  case (Cons node nodes)
  obtain b w1 where w1: "write_chunk_to_node net (cn_address node) chunk data oid w = (b, w1)" by force
  have q: "quiet stored payload w w1" using quiet_write [OF assms(1-4) Cons.prems(1) w1] .
  show ?case
    using Cons.prems(2) w1 by (auto intro: quiet_trans [OF q] Cons.IH [OF quiet_sound [OF q]])
qed

lemma truthful_read:
  assumes "truthful stored payload (w_storage w)" "n_api net = api"
    and "read_chunk_from_replicas net cid c reps w = (r, w')"
  shows "stored (w_storage w') = stored (w_storage w) \<and> w_meta w' = w_meta w \<and> (r = None \<or> r = payload cid)"
  using assms(1,3)
proof (induction reps arbitrary: w)
  case (Cons rep reps)
  obtain rr n where rd: "sa_ReadChunk api (ri_address rep) cid (w_storage w) = (rr, n)" by force
  have frame: "stored n = stored (w_storage w)" using rd by (rule read_frame)
  show ?case
  proof (cases "\<exists>h d. rr = Some (True, h, d) \<and> \<not> (c \<noteq> [] \<and> ch_checksum h \<noteq> c)")
    case True
    then obtain h d where rr: "rr = Some (True, h, d)" "\<not> (c \<noteq> [] \<and> ch_checksum h \<noteq> c)" by blast
    have "payload cid = Some d"
      using read_sound [of "ri_address rep" cid "w_storage w" h d n] rd rr(1) Cons.prems(1) by (auto simp: truthful_def)
    with Cons.prems(2) rd rr assms(2) frame show ?thesis by (auto split: if_splits)
  next
    case False
    then have "read_chunk_from_replicas net cid c reps (w\<lparr>w_storage := n\<rparr>) = (r, w')"
      using Cons.prems(2) rd assms(2)
      by (cases rr) (auto simp: Let_def split: prod.splits bool.splits if_splits)
    from Cons.IH [OF _ this] Cons.prems(1) frame show ?thesis by (simp add: truthful_def)
  qed
qed simp

lemma truthful_get_chunks:
  assumes "n_api net = api" "truthful stored payload (w_storage w)"
    and "get_chunks net cps acc w = (err, data, w')"
  shows "stored (w_storage w') = stored (w_storage w) \<and> w_meta w' = w_meta w
    \<and> (err = None \<longrightarrow> data = acc @ content payload (map cm_chunk_id cps))"
  using assms(2,3)
proof (induction cps arbitrary: acc w)
  case (Cons cp cps)
  obtain r w1 where rd: "read_chunk_from_replicas net (cm_chunk_id cp) (ci_checksum (from_proto cp)) (ci_replicas (from_proto cp)) w = (r, w1)"
    by force
  note tr = truthful_read [OF Cons.prems(1) assms(1) rd]
  have id: "ci_chunk_id (from_proto cp) = cm_chunk_id cp" by (simp add: from_proto_def)
  show ?case
  proof (cases r)
    case None
    then show ?thesis using Cons.prems(2) rd tr by (auto simp: id)
  next
    case (Some d)
    then have "get_chunks net cps (acc @ d) w1 = (err, data, w')" using Cons.prems(2) rd by (simp add: id)
    from Cons.IH [OF _ this] tr Cons.prems(1) Some show ?thesis
      by (auto simp: truthful_def content_def) (metis option.sel)
  qed
qed (simp add: content_def)

end

section \<open>Uploads\<close>

lemma put_cases:
  assumes "put net f data owner w = Some (res, w')"
  obtains (unchanged) "w' = w\<lparr>w_calls := Suc (w_calls w)\<rparr>" "\<not> pr_success res"
  | (created) obj m rf where "create_object (n_env net (w_calls w)) f (word_of_nat (length data)) rf owner
        (mb_to_bytes (cc_chunk_size_mb (n_cfg net))) (w_meta w) = Some (Some obj, m)"
      "w' = w\<lparr>w_calls := Suc (w_calls w), w_meta := m\<rparr> \<and> \<not> pr_success res \<or>
       (\<exists>err. put_chunks net (oi_object_id obj) data 0 (map chunk_to_proto (oi_chunks obj))
         (w\<lparr>w_calls := Suc (w_calls w), w_meta := m\<rparr>) = (err, w') \<and> (pr_success res \<longleftrightarrow> err = None))"
proof (cases "n_fate net (w_calls w) = RequestLost")
  case True
  then have "w' = w\<lparr>w_calls := Suc (w_calls w)\<rparr>" "\<not> pr_success res"
    using assms by (auto simp: put_def rpc_partial_def Let_def)
  then show ?thesis by (rule unchanged)
next
  case sent: False
  let ?cfg = "n_cfg net" and ?ev = "n_env net (w_calls w)"
  let ?w1 = "\<lambda>m. w\<lparr>w_calls := Suc (w_calls w), w_meta := m\<rparr>"
  obtain resp m where r: "CreateObject ?cfg ?ev f (word_of_nat (length data))
      (cc_replication_factor ?cfg) owner (cc_chunk_size_mb ?cfg) (w_meta w) = Some (resp, m)"
    using assms sent by (auto simp: put_def rpc_partial_def Let_def split: option.splits fate.splits)
  show ?thesis
  proof (cases "or_success resp")
    case False
    then have "m = w_meta w" using r
      by (auto simp: CreateObject_def create_object_def Let_def split: option.splits prod.splits if_splits bind_splits)
    then have "w' = w\<lparr>w_calls := Suc (w_calls w)\<rparr>" "\<not> pr_success res"
      using assms sent r False by (cases "n_fate net (w_calls w)"; auto simp: put_def rpc_partial_def Let_def)+
    then show ?thesis by (rule unchanged)
  next
    case True
    then obtain obj where c: "create_object ?ev f (word_of_nat (length data))
          (cc_replication_factor ?cfg) owner (mb_to_bytes (cc_chunk_size_mb ?cfg)) (w_meta w) = Some (Some obj, m)"
        and resp: "resp = \<lparr>or_success = True, or_message = [], or_object = Some (to_proto obj)\<rparr>"
      using r by (auto elim: CreateObject_cases)
    obtain err w2 where pc: "put_chunks net (oi_object_id obj) data 0 (map chunk_to_proto (oi_chunks obj)) (?w1 m) = (err, w2)"
      by force
    have "w' = ?w1 m \<and> \<not> pr_success res \<or> w' = w2 \<and> (pr_success res \<longleftrightarrow> err = None)"
      using assms sent r pc by (cases "n_fate net (w_calls w)")
        (auto simp: put_def rpc_partial_def resp to_proto_def Let_def split: option.splits)
    with created [OF c] pc show ?thesis by blast
  qed
qed

context storage_contract
begin

text \<open>The loop of an upload: a run to its end is quiet, one that misses the quorum may remove the file.\<close>

lemma put_chunks_files:
  assumes api: "n_api net = api" and small: "payloads_small payload" and oid: "length oid < 2 ^ 32" "oid \<noteq> []"
    and "sound stored payload w" "file_shape (w_meta w) f = Some (oid, x)"
    and "list_all2 (\<lambda>cm p. payload (cm_chunk_id cm) = Some p) cms (pieces data offset cms)"
    and "put_chunks net oid data offset cms w = (err, w')"
  shows "quiet stored payload w w' \<or> err \<noteq> None \<and> sound stored payload w'
    \<and> file_shape (w_meta w') = (file_shape (w_meta w))(f := None)"
  using assms(5-8)
proof (induction cms arbitrary: offset w)
  case Nil
  then show ?case by (simp add: quiet_refl)
next
  case (Cons cm rest)
  let ?rf = "cc_replication_factor (n_cfg net)"
  define piece where "piece = (if 0 < cm_size cm then take (unat (cm_size cm)) (drop (unat offset) data) else [])"
  let ?c = "\<lparr>ci_chunk_id = cm_chunk_id cm, ci_object_id = oid, ci_chunk_index = cm_chunk_index cm,
    ci_size = cm_size cm, ci_checksum = sha256 piece, ci_version = 1, ci_replicas = []\<rparr>"
  obtain sel w1 where r1: "rpc net (\<lambda>ev. SelectNodes (n_cfg net) ev ?rf []) w = (sel, w1)" by force
  have q1: "quiet stored payload w w1"
    by (rule quiet_rpc [OF Cons.prems(1) meta_SelectNodes r1]) (use Cons.prems(1) in \<open>simp add: sound_def\<close>)
  note step = Cons.prems(4) [unfolded put_chunks.simps Let_def piece_def [symmetric] r1 prod.case]
  show ?case
  proof (cases sel)
    case None
    then show ?thesis using step q1 by simp
  next
    case (Some nodes)
    obtain reps w2 where r2: "put_replicas net ?c piece oid nodes [] w1 = (reps, w2)" by force
    have pl: "payload (cm_chunk_id cm) = Some piece" using Cons.prems(3) by (simp add: piece_def)
    have q2: "quiet stored payload w w2"
      using quiet_trans [OF q1 quiet_put_replicas [OF api small _ oid(1) quiet_sound [OF q1] r2]] pl by simp
    then have s2: "sound stored payload w2" "meta_ok (w_meta w2)" "file_shape (w_meta w2) f = Some (oid, x)"
      using Cons.prems(2) by (simp_all add: quiet_def sound_def)
    show ?thesis
    proof (cases "word_of_nat (length reps) < required_acks (cc_write_ack (n_cfg net)) ?rf")
      case True
      obtain r w3 where r3: "rpc net (\<lambda>ev. DeleteObject ev oid []) w2 = (r, w3)" by force
      have err: "err \<noteq> None" "w' = w3" using step Some r2 True r3 by auto
      from r3 show ?thesis
      proof (cases rule: rpc_cases)
        case unsent
        then have "quiet stored payload w2 w3" using s2(1) by (simp add: quiet_def sound_def)
        then show ?thesis using quiet_trans [OF q2] err by simp
      next
        case (sent st m)
        obtain b where "delete_object (n_env net (w_calls w2)) oid (w_meta w2) = (b, m)"
          using sent(1) oid(2) by (auto simp: DeleteObject_def Let_def split: prod.splits)
        from meta_delete_named [OF s2(2) this s2(3)] sent(2) s2(1) q2 err show ?thesis
          by (simp add: quiet_def sound_def)
      qed
    next
      case False
      let ?pb = "chunk_to_proto (?c\<lparr>ci_replicas := reps\<rparr>)"
      define w3 where "w3 = snd (rpc net (\<lambda>ev. UpdateChunk ev oid ?pb) w2)"
      have "quiet stored payload w2 w3"
        unfolding w3_def by (rule quiet_rpc [OF s2(1) _ prod.collapse [symmetric]], rule meta_UpdateChunk [OF s2(2)])
          (use oid in \<open>simp add: chunk_to_proto_def\<close>)
      then have q3: "quiet stored payload w w3" using quiet_trans [OF q2] by blast
      then have shape: "file_shape (w_meta w3) f = Some (oid, x)" using Cons.prems(2) by (simp add: quiet_def)
      have "put_chunks net oid data (offset + cm_size cm) rest w3 = (err, w')"
        using step Some r2 False by (simp add: w3_def)
      from Cons.IH [OF quiet_sound [OF q3] shape _ this] Cons.prems(3) q3 show ?thesis
        by (auto simp: quiet_def)
    qed
  qed
qed

end

text \<open>The whole invariant: what is drawn, what it stands for, what the files consist of.\<close>

definition shapes_ok ::
  "string set \<Rightarrow> (string \<Rightarrow> bytes option) \<Rightarrow> (string \<Rightarrow> (string \<times> u64 \<times> string list) option) \<Rightarrow> bool" where
  "shapes_ok used payload sh \<longleftrightarrow> (\<forall>f oid sz ids. sh f = Some (oid, sz, ids) \<longrightarrow>
     oid \<in> used \<and> set ids \<subseteq> dom payload \<and> sz = word_of_nat (length (content payload ids)))"

definition engine_inv ::
  "('n \<Rightarrow> string \<Rightarrow> string \<Rightarrow> (string \<times> bytes) option) \<Rightarrow> string set \<Rightarrow> (string \<Rightarrow> bytes option) \<Rightarrow> 'n world \<Rightarrow> bool" where
  "engine_inv stored used payload w \<longleftrightarrow> sound stored payload w \<and> payloads_small payload \<and> dom payload \<subseteq> used
     \<and> shapes_ok used payload (file_shape (w_meta w))"

lemma engine_inv_quiet:
  assumes "engine_inv stored used payload w" "quiet stored payload w w'"
  shows "engine_inv stored used payload w'" "files payload (w_meta w') = files payload (w_meta w)"
  using assms by (simp_all add: engine_inv_def quiet_def files_def [abs_def])

lemma content_extend:
  assumes "set ids \<subseteq> dom payload" "payload \<subseteq>\<^sub>m payload'"
  shows "content payload' ids = content payload ids"
proof -
  have "map (\<lambda>i. the (payload' i)) ids = map (\<lambda>i. the (payload i)) ids"
    using assms by (auto simp: map_le_def dom_def)
  then show ?thesis by (simp only: content_def)
qed

lemma engine_inv_extend:
  assumes inv: "engine_inv stored used payload w" and le: "payload \<subseteq>\<^sub>m payload'" and used: "used \<subseteq> used'"
    and small: "payloads_small payload'" and dom: "dom payload' \<subseteq> used'"
  shows "engine_inv stored used' payload' w" "files payload' (w_meta w) = files payload (w_meta w)"
proof -
  have ext: "payload' cid = Some p" if "payload cid = Some p" for cid p
    using le that by (auto simp: map_le_def dom_def)
  have sh: "oid \<in> used'" "set ids \<subseteq> dom payload" "set ids \<subseteq> dom payload'" "content payload' ids = content payload ids"
      "sz = word_of_nat (length (content payload ids))"
    if "file_shape (w_meta w) f = Some (oid, sz, ids)" for f oid sz ids
  proof -
    have s: "oid \<in> used" "set ids \<subseteq> dom payload" "sz = word_of_nat (length (content payload ids))"
      using inv that unfolding engine_inv_def shapes_ok_def by blast+
    then show "oid \<in> used'" "set ids \<subseteq> dom payload" "sz = word_of_nat (length (content payload ids))" using used by blast+
    show "content payload' ids = content payload ids" using content_extend [OF s(2) le] .
    show "set ids \<subseteq> dom payload'" using s(2) ext by (auto simp: dom_def)
  qed
  have "truthful stored payload' (w_storage w)"
    using inv ext unfolding engine_inv_def sound_def truthful_def by blast
  then show "engine_inv stored used' payload' w"
    using inv small dom sh unfolding engine_inv_def sound_def shapes_ok_def by simp
  show "files payload' (w_meta w) = files payload (w_meta w)"
  proof
    show "files payload' (w_meta w) f = files payload (w_meta w) f" for f
      using sh(4) [of f] by (cases "file_shape (w_meta w) f") (auto simp: files_def)
  qed
qed

lemma files_None: "files payload m f = None \<longleftrightarrow> file_shape m f = None"
  by (simp add: files_def)

lemma files_upd:
  "file_shape m' = (file_shape m)(f := y) \<Longrightarrow>
   files payload m' = (files payload m)(f := map_option (\<lambda>(i, sz, ids). content payload ids) y)"
  by (auto simp: files_def fun_eq_iff)

lemma fresh_object:
  assumes "engine_inv stored used payload w" "i \<notin> used"
  shows "um_find (ms_objects_by_id (w_meta w)) i = None"
proof (rule ccontr)
  have inv: "ms_inv (w_meta w)" using assms(1) by (simp add: engine_inv_def sound_def meta_ok_def)
  assume "um_find (ms_objects_by_id (w_meta w)) i \<noteq> None"
  then obtain obj where obj: "um_find (ms_objects_by_id (w_meta w)) i = Some obj" by blast
  then have "oi_object_id obj = i" using namespace_invD(1) [OF ms_inv_namespace [OF inv]] by blast
  with obj have "locate_by_filename (oi_filename obj) (w_meta w) = Some obj" by (simp add: locate_iff [OF inv])
  then have "file_shape (w_meta w) (oi_filename obj) = Some (i, oi_size obj, map ci_chunk_id (oi_chunks obj))"
    using \<open>oi_object_id obj = i\<close> by (simp add: file_shape_def)
  then show False using assms unfolding engine_inv_def shapes_ok_def by blast
qed

text \<open>The ids and the pieces of a new object.\<close>

lemma new_object_ids:
  assumes c: "create_object (n_env net (w_calls w)) f (word_of_nat (length data)) rf owner
      (mb_to_bytes (cc_chunk_size_mb (n_cfg net))) m = Some (Some obj, m')"
    and len: "length data < 2 ^ 64" and fresh: "fresh_ids used net data w"
  defines "ids \<equiv> map ci_chunk_id (oi_chunks obj)" and "ps \<equiv> pieces data 0 (map chunk_to_proto (oi_chunks obj))"
  shows "distinct ids" "set ids \<subseteq> drawn_ids net data w" "\<forall>i \<in> set ids. length i < 2 ^ 32" "length ps = length ids"
    "concat ps = data" "env_uuid (n_env net (w_calls w)) 0 \<in> drawn_ids net data w"
proof -
  let ?ev = "n_env net (w_calls w)" and ?cs = "mb_to_bytes (cc_chunk_size_mb (n_cfg net))" and ?sz = "word_of_nat (length data) :: u64"
  let ?n = "max 1 (chunk_total (length data) (unat ?cs))"
  note new = create_object_SomeD [OF c]
  have sz: "unat ?sz = length data" using len by (simp add: unsigned_of_nat take_bit_nat_eq_self)
  have ids: "ids = map (\<lambda>i. env_uuid ?ev (Suc i)) [0..<?n]"
    using new(3) by (simp add: ids_def new_object_def spec_plan_def plan_chunk_def comp_def sz)
  have "inj_on (env_uuid ?ev) {1..?n}" using fresh by (simp add: fresh_ids_def ids_distinct_def)
  then have "inj_on (env_uuid ?ev \<circ> Suc) {0..<?n}"
    by (intro comp_inj_on) (simp_all add: atLeastLessThanSuc_atLeastAtMost)
  then show "distinct ids" by (simp add: ids distinct_map comp_def)
  show "set ids \<subseteq> drawn_ids net data w" by (auto simp: ids drawn_ids_def)
  show "\<forall>i \<in> set ids. length i < 2 ^ 32" by (auto simp: ids)
  have "length (pieces data off cms) = length cms" for off cms by (induction cms arbitrary: off) simp_all
  then show "length ps = length ids" by (simp add: ps_def ids_def)
  have "sum_list (map (\<lambda>c. unat (cm_size c)) (map chunk_to_proto (oi_chunks obj))) = unat ?sz"
    using sum_spec_plan [OF new(2)] new(3) by (simp add: new_object_def chunk_to_proto_def comp_def)
  with sz show "concat ps = data" unfolding ps_def using len by (subst concat_pieces) simp_all
  show "env_uuid ?ev 0 \<in> drawn_ids net data w" by (auto simp: drawn_ids_def)
qed

lemma assigned_pieces:
  assumes "distinct ids" "length ps = length ids" "set ids \<inter> dom payload = {}"
  defines "payload' \<equiv> payload ++ map_of (zip ids ps)"
  shows "payload \<subseteq>\<^sub>m payload'" "dom payload' = dom payload \<union> set ids" "map payload' ids = map Some ps"
    "content payload' ids = concat ps"
proof -
  have dom: "dom (map_of (zip ids ps)) = set ids" using assms(2) by (simp add: dom_map_of_zip)
  show "payload \<subseteq>\<^sub>m payload'"
    unfolding map_le_def payload'_def using dom assms(3) by (auto simp: map_add_def split: option.splits)
  show "dom payload' = dom payload \<union> set ids" by (auto simp: payload'_def dom)
  have "payload' (ids ! i) = Some (ps ! i)" if "i < length ids" for i
    using map_of_zip_nth [OF assms(2) [symmetric] assms(1), of i] that assms(2) by (simp add: payload'_def map_add_def)
  then show m: "map payload' ids = map Some ps" using assms(2) by (auto intro: nth_equalityI)
  have "map (\<lambda>i. the (payload' i)) ids = map the (map payload' ids)" by simp
  then show "content payload' ids = concat ps" by (simp only: content_def m) (simp add: comp_def)
qed

lemma upload_payloads:
  assumes inv: "engine_inv stored used payload w" and len: "length data < 2 ^ 64" and fresh: "fresh_ids used net data w"
    and c: "create_object (n_env net (w_calls w)) f (word_of_nat (length data)) rf owner
      (mb_to_bytes (cc_chunk_size_mb (n_cfg net))) m = Some (Some obj, m')"
  obtains payload' where "engine_inv stored (used \<union> drawn_ids net data w) payload' w"
    "files payload' (w_meta w) = files payload (w_meta w)"
    "list_all2 (\<lambda>cm p. payload' (cm_chunk_id cm) = Some p) (map chunk_to_proto (oi_chunks obj))
      (pieces data 0 (map chunk_to_proto (oi_chunks obj)))"
    "set (map ci_chunk_id (oi_chunks obj)) \<subseteq> dom payload'" "content payload' (map ci_chunk_id (oi_chunks obj)) = data"
    "payload \<subseteq>\<^sub>m payload'"
proof -
  let ?cms = "map chunk_to_proto (oi_chunks obj)"
  let ?ids = "map ci_chunk_id (oi_chunks obj)" and ?ps = "pieces data 0 ?cms" and ?used = "used \<union> drawn_ids net data w"
  let ?pl = "payload ++ map_of (zip ?ids ?ps)"
  note new = new_object_ids [OF c len fresh]
  have small: "payloads_small payload" and dom: "dom payload \<subseteq> used" using inv by (simp_all add: engine_inv_def)
  have "set ?ids \<inter> dom payload = {}" using new(2) dom fresh by (auto simp: fresh_ids_def)
  note pl = assigned_pieces [OF new(1,4) this]
  have "length p < 2 ^ 64 \<and> length cid < 2 ^ 32" if p: "?pl cid = Some p" for cid p
  proof (cases "map_of (zip ?ids ?ps) cid")
    case None
    then show ?thesis using p small by (auto simp: payloads_small_def map_add_def)
  next
    case (Some q)
    then have z: "(cid, p) \<in> set (zip ?ids ?ps)" using p by (auto dest!: map_of_SomeD)
    show ?thesis using bspec [OF new(3) set_zip_leftD [OF z]] length_pieces_less [OF len set_zip_rightD [OF z]] by simp
  qed
  then have "payloads_small ?pl" by (simp add: payloads_small_def)
  moreover have "dom ?pl \<subseteq> ?used" unfolding pl(2) using new(2) dom by (intro Un_mono)
  ultimately have "engine_inv stored ?used ?pl w" "files ?pl (w_meta w) = files payload (w_meta w)"
    using engine_inv_extend [OF inv pl(1), of ?used] by simp_all
  moreover have "list_all2 (\<lambda>cm p. ?pl (cm_chunk_id cm) = Some p) ?cms ?ps"
    using pl(3) unfolding list_all2_conv_all_nth by (auto simp: chunk_to_proto_def list_eq_iff_nth_eq)
  moreover have "set ?ids \<subseteq> dom ?pl" unfolding pl(2) by simp
  moreover have "content ?pl ?ids = data" using pl(4) new(5) by simp
  ultimately show ?thesis using that pl(1) by blast
qed

context storage_contract
begin

lemma put_files:
  assumes inv: "engine_inv stored used payload w" and api: "n_api net = api" and len: "length data < 2 ^ 64"
    and fresh: "fresh_ids used net data w" and put: "put net f data owner w = Some (res, w')"
  shows "\<exists>payload'. engine_inv stored (used \<union> drawn_ids net data w) payload' w'
    \<and> file_step (files payload (w_meta w)) (Uploaded f data (pr_success res)) (files payload' (w_meta w'))"
  using put
proof (cases rule: put_cases)
  case unchanged
  have "payloads_small payload" "dom payload \<subseteq> used" using inv by (simp_all add: engine_inv_def)
  then have "engine_inv stored (used \<union> drawn_ids net data w) payload w"
    using engine_inv_extend(1) [OF inv map_le_refl] by blast
  then have "engine_inv stored (used \<union> drawn_ids net data w) payload w'"
    unfolding unchanged(1) by (simp add: engine_inv_def sound_def)
  moreover have "file_step (files payload (w_meta w)) (Uploaded f data (pr_success res)) (files payload (w_meta w'))"
    using unchanged(2) unfolding unchanged(1) by (simp add: file_step.Upload_fails)
  ultimately show ?thesis by blast
next
  case (created obj m rf)
  let ?oid = "env_uuid (n_env net (w_calls w)) 0" and ?used = "used \<union> drawn_ids net data w"
  let ?ids = "map ci_chunk_id (oi_chunks obj)" and ?cms = "map chunk_to_proto (oi_chunks obj)"
  let ?w1 = "w\<lparr>w_calls := Suc (w_calls w), w_meta := m\<rparr>" and ?F = "files payload (w_meta w)"
  obtain pl where ext: "engine_inv stored ?used pl w" "files pl (w_meta w) = ?F"
      and pieces: "list_all2 (\<lambda>cm p. pl (cm_chunk_id cm) = Some p) ?cms (pieces data 0 ?cms)"
      and ids: "set ?ids \<subseteq> dom pl" "content pl ?ids = data" and "payload \<subseteq>\<^sub>m pl"
    by (rule upload_payloads [OF inv len fresh created(1)])
  have oid: "?oid \<in> ?used" "?oid \<notin> used"
    using new_object_ids(6) [OF created(1) len fresh] fresh by (auto simp: fresh_ids_def)
  have "meta_ok (w_meta w)" using inv by (simp add: engine_inv_def sound_def)
  note cr = meta_create [OF this fresh_object [OF inv oid(2)] created(1)]
  have "shapes_ok ?used pl (file_shape m)"
    using ext(1) ids oid(1) by (auto simp: engine_inv_def shapes_ok_def cr(4) split: if_splits)
  then have inv1: "engine_inv stored ?used pl ?w1" using ext(1) cr(1) by (simp add: engine_inv_def sound_def)
  have F1: "files pl m = ?F(f \<mapsto> data)" using files_upd [OF cr(4), of pl] ids(2) ext(2) by simp
  have up: "file_step ?F (Uploaded f data b) (?F(f \<mapsto> data))" for b
    using cr(2) by (intro file_step.Upload) (simp add: files_None)
  consider (lost) "w' = ?w1" | (ran) err where "put_chunks net ?oid data 0 ?cms ?w1 = (err, w')" "pr_success res \<longleftrightarrow> err = None"
    using created(2) cr(3) by auto
  then show ?thesis
  proof cases
    case lost
    with inv1 F1 up show ?thesis by (auto intro!: exI [of _ pl])
  next
    case (ran err)
    have "sound stored pl ?w1" "payloads_small pl" using inv1 by (simp_all add: engine_inv_def)
    moreover have "file_shape (w_meta ?w1) f = Some (?oid, word_of_nat (length data), ?ids)" by (simp add: cr(4))
    ultimately consider "quiet stored pl ?w1 w'"
      | "err \<noteq> None" "sound stored pl w'" "file_shape (w_meta w') = (file_shape m)(f := None)"
      using put_chunks_files [OF api _ _ _ _ _ pieces ran(1)] by fastforce
    then show ?thesis
    proof cases
      case 1
      from engine_inv_quiet [OF inv1 1] F1 up show ?thesis by (auto intro!: exI [of _ pl])
    next
      case 2
      then have "file_shape (w_meta w') = file_shape (w_meta w)" using cr(2,4) by (simp add: fun_upd_idem)
      then have "engine_inv stored ?used pl w'" "files pl (w_meta w') = ?F"
        using ext 2(2) by (simp_all add: engine_inv_def files_def [abs_def])
      then show ?thesis using ran(2) 2(1) by (auto intro!: exI [of _ pl] file_step.Upload_fails)
    qed
  qed
qed

end

section \<open>Downloads, queries and deletions\<close>

lemma LocateObject_shape:
  assumes "or_success (LocateObject [] f m)"
  obtains obj where "LocateObject [] f m = \<lparr>or_success = True, or_message = [], or_object = Some (to_proto obj)\<rparr>"
    "locate_by_filename f m = Some obj"
    "file_shape m f = Some (oi_object_id obj, oi_size obj, map ci_chunk_id (oi_chunks obj))"
  using assms by (auto simp: LocateObject_def file_shape_def split: option.splits if_splits)

context storage_contract
begin

lemma get_files:
  assumes "sound stored payload w" "n_api net = api" "get net f w = (g, w')"
  shows "quiet stored payload w w'" "gr_success g \<Longrightarrow> files payload (w_meta w) f = Some (gr_data g)"
proof -
  obtain r w1 where r: "rpc net (readonly (LocateObject [] f)) w = (r, w1)" by force
  note ro = quiet_readonly [OF assms(1) r]
  have "quiet stored payload w w' \<and> (gr_success g \<longrightarrow> files payload (w_meta w) f = Some (gr_data g))"
  proof (cases "\<exists>x. r = Some x \<and> or_success x")
    case False
    then show ?thesis using assms(3) r ro(1) by (auto simp: get_def get_failed_def split: option.splits)
  next
    case True
    then have r': "r = Some (LocateObject [] f (w_meta w))" "or_success (LocateObject [] f (w_meta w))" using ro(4) by auto
    obtain obj where obj: "LocateObject [] f (w_meta w) = \<lparr>or_success = True, or_message = [], or_object = Some (to_proto obj)\<rparr>"
        "file_shape (w_meta w) f = Some (oi_object_id obj, oi_size obj, map ci_chunk_id (oi_chunks obj))"
      using LocateObject_shape [OF r'(2)] by metis
    obtain err d w2 where gc: "get_chunks net (map chunk_to_proto (oi_chunks obj)) [] w1 = (err, d, w2)" by (metis prod_cases3)
    have g: "w' = w2" "gr_success g \<longleftrightarrow> err = None" "gr_data g = d"
      using assms(3) r r' obj(1) gc by (auto simp: get_def to_proto_def Let_def split: option.splits)
    have s1: "sound stored payload w1" by (rule quiet_sound [OF ro(1)])
    then have tr: "stored (w_storage w2) = stored (w_storage w1)" "w_meta w2 = w_meta w1"
        "err = None \<Longrightarrow> d = content payload (map ci_chunk_id (oi_chunks obj))"
      using truthful_get_chunks [OF assms(2) _ gc] by (auto simp: sound_def chunk_to_proto_def comp_def)
    then have "quiet stored payload w w'" using quiet_trans [OF ro(1) quiet_same_storage [OF s1]] g(1) by simp
    then show ?thesis using g tr(3) obj(2) by (auto simp: files_def)
  qed
  then show "quiet stored payload w w'" "gr_success g \<Longrightarrow> files payload (w_meta w) f = Some (gr_data g)" by blast+
qed

end

lemma head_files:
  assumes "engine_inv stored used payload w" "client_head net f w = (r, w')"
  shows "quiet stored payload w w' \<and> file_step (files payload (w_meta w)) (Headed f (map_option oi_size r)) (files payload (w_meta w))"
proof -
  have s: "sound stored payload w" using assms(1) by (simp add: engine_inv_def)
  obtain q w1 where q: "rpc net (readonly (LocateObject [] f)) w = (q, w1)" by force
  note ro = quiet_readonly [OF s q]
  show ?thesis
  proof (cases "\<exists>x. q = Some x \<and> or_success x")
    case False
    then have "r = None" "w' = w1" using assms(2) q by (auto simp: client_head_def split: option.splits)
    then show ?thesis using ro(1) by (simp add: file_step.Size_fails)
  next
    case True
    then have q': "q = Some (LocateObject [] f (w_meta w))" "or_success (LocateObject [] f (w_meta w))" using ro(4) by auto
    obtain obj where obj: "LocateObject [] f (w_meta w) = \<lparr>or_success = True, or_message = [], or_object = Some (to_proto obj)\<rparr>"
        "file_shape (w_meta w) f = Some (oi_object_id obj, oi_size obj, map ci_chunk_id (oi_chunks obj))"
      using LocateObject_shape [OF q'(2)] by metis
    have "map_option oi_size r = Some (oi_size obj)" "w' = w1"
      using assms(2) q q' obj(1) by (auto simp: client_head_def to_proto_def)
    moreover have "oi_size obj = word_of_nat (length (content payload (map ci_chunk_id (oi_chunks obj))))"
      using assms(1) obj(2) unfolding engine_inv_def shapes_ok_def by blast
    moreover have "files payload (w_meta w) f = Some (content payload (map ci_chunk_id (oi_chunks obj)))"
      using obj(2) by (simp add: files_def)
    ultimately show ?thesis using ro(1) file_step.Size [of "files payload (w_meta w)" f] by auto
  qed
qed

lemma listing_matching:
  assumes inv: "engine_inv stored used payload w"
  shows "listing p (files payload (w_meta w)) = map (\<lambda>obj. (oi_filename obj, oi_size obj)) (matching p (w_meta w))"
proof -
  let ?m = "w_meta w" and ?F = "files payload (w_meta w)"
  have ms: "ms_inv ?m" using inv by (simp add: engine_inv_def sound_def meta_ok_def)
  have "set (map oi_filename (matching p ?m)) = {f \<in> dom ?F. take (length p) f = p}"
  proof -
    have "f \<in> oi_filename ` set (matching p ?m) \<longleftrightarrow> f \<in> dom ?F \<and> take (length p) f = p" for f
    proof
      assume "f \<in> oi_filename ` set (matching p ?m)"
      then show "f \<in> dom ?F \<and> take (length p) f = p" by (auto simp: set_matching [OF ms] files_def file_shape_def)
    next
      assume f: "f \<in> dom ?F \<and> take (length p) f = p"
      then obtain obj where "locate_by_filename f ?m = Some obj" by (auto simp: files_def file_shape_def)
      moreover from this have "oi_filename obj = f" by (simp add: locate_iff [OF ms])
      ultimately show "f \<in> oi_filename ` set (matching p ?m)" using f by (auto simp: set_matching [OF ms] intro!: image_eqI [of _ _ obj])
    qed
    then show ?thesis by auto
  qed
  then have names: "sorted_list_of_set {f \<in> dom ?F. take (length p) f = p} = map oi_filename (matching p ?m)"
    using strict_sorted_matching [OF ms, of p] strict_sorted_equal [of "sorted_list_of_set {f \<in> dom ?F. take (length p) f = p}" "map oi_filename (matching p ?m)"]
    by (metis List.finite_set set_sorted_list_of_set strict_sorted_list_of_set)
  have "word_of_nat (length (the (?F (oi_filename obj)))) = oi_size obj" if "obj \<in> set (matching p ?m)" for obj
  proof -
    have "file_shape ?m (oi_filename obj) = Some (oi_object_id obj, oi_size obj, map ci_chunk_id (oi_chunks obj))"
      using that by (simp add: set_matching [OF ms] file_shape_def)
    moreover from this have "oi_size obj = word_of_nat (length (content payload (map ci_chunk_id (oi_chunks obj))))"
      using inv unfolding engine_inv_def shapes_ok_def by blast
    ultimately show ?thesis by (simp add: files_def)
  qed
  then show ?thesis by (simp add: listing_def names)
qed

lemma list_files:
  assumes "engine_inv stored used payload w" "client_list net p w = (objs, w')"
  shows "quiet stored payload w w' \<and> file_step (files payload (w_meta w))
    (Listed p (map (\<lambda>obj. (oi_filename obj, oi_size obj)) objs)) (files payload (w_meta w))"
proof -
  have s: "sound stored payload w" using assms(1) by (simp add: engine_inv_def)
  obtain r w1 where r: "rpc net (readonly (ListObjects p 10000 0)) w = (r, w1)" by force
  note ro = quiet_readonly [OF s r]
  show ?thesis
  proof (cases r)
    case None
    then have "objs = []" "w' = w1" using assms(2) r by (auto simp: client_list_def)
    then show ?thesis using ro(1) by (simp add: file_step.Listing_fails)
  next
    case (Some x)
    then have x: "x = ListObjects p 10000 0 (w_meta w)" using ro(4) by simp
    have "map (\<lambda>obj. (oi_filename obj, oi_size obj)) objs = take 10000 (listing p (files payload (w_meta w)))" "w' = w1"
      using assms(2) r Some x
      by (auto simp: client_list_def ListObjects_def Let_def list_objects_page to_proto_def comp_def
          listing_matching [OF assms(1)] take_map)
    then show ?thesis using ro(1) file_step.Listing [of "files payload (w_meta w)" p] by simp
  qed
qed

context deleting_storage
begin

lemma truthful_deletes: "truthful stored payload n \<Longrightarrow> n_api net = api \<Longrightarrow> truthful stored payload (delete_replicas net chunks n)"
proof -
  have one: "truthful stored payload (snd (sa_DeleteChunk api addr cid n))" if "truthful stored payload n" for addr cid n
    using that delete_only [of addr cid n _ "snd (sa_DeleteChunk api addr cid n)"]
    unfolding truthful_def by (metis insertE option.discI prod.collapse singletonD)
  have reps: "truthful stored payload (foldl (\<lambda>n rep. snd (sa_DeleteChunk api (rl_address rep) cid n)) n reps)"
    if "truthful stored payload n" for reps :: "ReplicaLocation list" and cid n
    using that by (induction reps arbitrary: n) (simp_all add: one)
  show "truthful stored payload n \<Longrightarrow> n_api net = api \<Longrightarrow> truthful stored payload (delete_replicas net chunks n)"
    unfolding delete_replicas_def by (induction chunks arbitrary: n) (simp_all add: reps)
qed

lemma delete_files:
  assumes inv: "engine_inv stored used payload w" and api: "n_api net = api" and d: "client_delete_object net f w = (ok, w')"
  shows "engine_inv stored used payload w'
    \<and> file_step (files payload (w_meta w)) (Deleted f ok) (files payload (w_meta w'))"
proof -
  have s: "sound stored payload w" using inv by (simp add: engine_inv_def)
  obtain r w1 where r: "rpc net (readonly (LocateObject [] f)) w = (r, w1)" by force
  note ro = quiet_readonly [OF s r] and inv1 = engine_inv_quiet [OF inv quiet_readonly(1) [OF s r]]
  show ?thesis
  proof (cases "\<exists>x. r = Some x \<and> or_success x")
    case False
    then have "\<not> ok" "w' = w1" using d r by (auto simp: client_delete_object_def split: option.splits)
    then show ?thesis using inv1 by (simp add: file_step.Remove_fails)
  next
    case True
    then obtain x where x: "r = Some x" "or_success x" by blast
    define w2 where "w2 = w1\<lparr>w_storage := delete_replicas net (om_chunks (the (or_object x))) (w_storage w1)\<rparr>"
    obtain q w3 where q: "rpc net (\<lambda>ev. DeleteObject ev [] f) w2 = (q, w3)" by force
    have w': "w' = w3" "ok = (case q of None \<Rightarrow> False | Some st \<Rightarrow> sr_success st)"
      using d r x q by (simp_all add: client_delete_object_def w2_def)
    have inv2: "engine_inv stored used payload w2" "files payload (w_meta w2) = files payload (w_meta w)"
      using inv1 truthful_deletes [OF _ api] by (simp_all add: engine_inv_def sound_def w2_def)
    from q show ?thesis
    proof (cases rule: rpc_cases)
      case unsent
      then show ?thesis using inv2 w' by (simp add: engine_inv_def sound_def file_step.Remove_fails)
    next
      case (sent st m)
      have ok2: "meta_ok (w_meta w2)" using inv2(1) by (simp add: engine_inv_def sound_def)
      note del = meta_DeleteObject_name [OF ok2 sent(1)]
      show ?thesis
      proof (cases "sr_success st")
        case True
        then have sh: "file_shape (w_meta w2) f \<noteq> None" "file_shape m = (file_shape (w_meta w2))(f := None)" "meta_ok m"
          using del by simp_all
        then have "engine_inv stored used payload w'"
          using inv2(1) sent(2) w'(1) by (auto simp: engine_inv_def sound_def shapes_ok_def split: if_splits)
        moreover have "files payload (w_meta w') = (files payload (w_meta w))(f := None)"
          using files_upd [OF sh(2), of payload] sent(2) w'(1) inv2(2) by simp
        moreover have "files payload (w_meta w) f \<noteq> None" using sh(1) inv2(2) by (metis files_None)
        ultimately show ?thesis by (simp add: file_step.Remove)
      next
        case False
        then have "file_shape m = file_shape (w_meta w2)" "meta_ok m" "\<not> ok" using del w'(2) sent(3) by auto
        then have "engine_inv stored used payload w'" "files payload (w_meta w') = files payload (w_meta w)"
          using inv2 sent(2) w'(1) by (simp_all add: engine_inv_def sound_def files_def [abs_def])
        then show ?thesis using \<open>\<not> ok\<close> by (simp add: file_step.Remove_fails)
      qed
    qed
  qed
qed

end

section \<open>Recovery\<close>

context replica_storage
begin

lemma truthful_fetch:
  assumes "n_api net = api" "truthful stored payload (w_storage w)"
    and "fetch_chunk_from_replica net cid exclude reps w = (r, w')"
  shows "stored (w_storage w') = stored (w_storage w) \<and> w_meta w' = w_meta w \<and> (r = None \<or> r = payload cid)"
  using assms(2,3)
proof (induction reps arbitrary: w)
  case (Cons rep reps)
  obtain rr n where rd: "sa_ReadChunk api (ri_address rep) cid (w_storage w) = (rr, n)" by force
  have frame: "stored n = stored (w_storage w)" using rd by (rule read_frame)
  consider "ri_node_id rep = exclude" | h d where "ri_node_id rep \<noteq> exclude" "rr = Some (True, h, d)"
    | "ri_node_id rep \<noteq> exclude" "\<nexists>h d. rr = Some (True, h, d)" by blast
  then show ?case
  proof cases
    case 1
    then show ?thesis using Cons by simp
  next
    case (2 h d)
    have "payload cid = Some d"
      using read_sound [of "ri_address rep" cid "w_storage w" h d n] rd 2(2) Cons.prems(1) by (auto simp: truthful_def)
    with Cons.prems(2) rd 2 assms(1) frame show ?thesis by (auto simp: read_from_replica_def)
  next
    case 3
    then have "fetch_chunk_from_replica net cid exclude reps (w\<lparr>w_storage := n\<rparr>) = (r, w')"
      using Cons.prems(2) rd assms(1)
      by (cases rr) (auto simp: read_from_replica_def Let_def split: prod.splits bool.splits)
    from Cons.IH [OF _ this] Cons.prems(1) frame show ?thesis by (simp add: truthful_def)
  qed
qed simp

lemma quiet_replicate:
  assumes "n_api net = api" "payloads_small payload" "payload (ci_chunk_id chunk) = Some data" "length (ci_object_id chunk) < 2 ^ 32"
    and s: "sound stored payload w" and r: "replicate_chunk net rm chunk data rf policy w = (res, w')"
  shows "quiet stored payload w w'"
proof -
  have inv: "ms_inv (w_meta w)" and lens: "length data < 2 ^ 64" "length (ci_chunk_id chunk) < 2 ^ 32"
    using assms(2,3) s by (auto simp: payloads_small_def sound_def meta_ok_def)
  note held = replicate_chunk_stored [OF assms(1) inv lens assms(4) r]
  have "truthful_step stored payload (w_storage w) (w_storage w')"
    unfolding truthful_step_def
  proof (intro allI)
    show "stored (w_storage w') a cid = stored (w_storage w) a cid \<or> stored (w_storage w') a cid = None
      \<or> (\<exists>p. payload cid = Some p \<and> stored (w_storage w') a cid = Some (sha256 p, p))" for a cid
      using held(2) [of cid a] held(3) [of a] assms(3) by (cases "cid = ci_chunk_id chunk") auto
  qed
  then show ?thesis using quiet_storage [OF s] held(4) by blast
qed

lemma quiet_recover_chunk:
  assumes api: "n_api net = api" and small: "payloads_small payload" and c: "ci_chunk_id chunk \<in> dom payload" "length (ci_object_id chunk) < 2 ^ 32"
    and s: "sound stored payload w" and run: "recover_chunk net cfg rm exclude chunk w = (b, w')"
  shows "quiet stored payload w w'"
proof -
  obtain r w1 where f: "fetch_chunk_from_replica net (ci_chunk_id chunk) exclude (ci_replicas chunk) w = (r, w1)" by force
  have fetch: "stored (w_storage w1) = stored (w_storage w)" "w_meta w1 = w_meta w" "r = None \<or> r = payload (ci_chunk_id chunk)"
    using truthful_fetch [OF api _ f] s by (auto simp: sound_def)
  have q1: "quiet stored payload w w1" by (rule quiet_same_storage [OF s fetch(1,2)])
  show ?thesis
  proof (cases r)
    case None
    then show ?thesis using run f q1 by (simp add: recover_chunk_def)
  next
    case (Some data)
    obtain res w2 where rep: "replicate_chunk net rm chunk data (cc_replication_factor cfg) (cc_write_ack cfg) w1 = (res, w2)" by force
    have "payload (ci_chunk_id chunk) = Some data" using Some fetch(3) by auto
    then have q2: "quiet stored payload w w2"
      using quiet_trans [OF q1 quiet_replicate [OF api small _ c(2) quiet_sound [OF q1] rep]] by blast
    let ?pb = "chunk_to_proto (chunk\<lparr>ci_version := ci_version chunk + 1, ci_replicas := rr_replicas res\<rparr>)"
    let ?w3 = "snd (rpc net (\<lambda>ev. UpdateChunk ev (ci_object_id chunk) ?pb) w2)"
    have "quiet stored payload w2 ?w3"
      by (rule quiet_rpc [OF quiet_sound [OF q2] _ prod.collapse [symmetric]], rule meta_UpdateChunk)
        (use quiet_sound [OF q2] c in \<open>simp_all add: sound_def chunk_to_proto_def\<close>)
    moreover have "w' = w2 \<or> w' = ?w3" using run f Some rep by (auto simp: recover_chunk_def Let_def split: if_splits)
    ultimately show ?thesis using q2 quiet_trans by blast
  qed
qed

lemma quiet_recover_chunks:
  assumes api: "n_api net = api" and small: "payloads_small payload"
    and "\<forall>pb \<in> set pbs. cm_chunk_id pb \<in> dom payload \<and> length (cm_object_id pb) < 2 ^ 32"
    and "sound stored payload w" "recover_chunks net cfg rm exclude pbs start w = (recovered, w')"
  shows "quiet stored payload w w'"
  using assms(3-5)
proof (induction pbs arbitrary: start w)
  case Nil
  then show ?case by (simp add: quiet_refl)
next
  case (Cons pb pbs)
  obtain b w1 where s: "recover_chunk net cfg rm exclude (from_proto pb) w = (b, w1)" by force
  have q: "quiet stored payload w w1"
    by (rule quiet_recover_chunk [OF api small _ _ Cons.prems(2) s]) (use Cons.prems(1) in \<open>simp_all add: from_proto_def\<close>)
  have "recover_chunks net cfg rm exclude pbs (if b then start + 1 else start) w1 = (recovered, w')"
    using Cons.prems(3) s by simp
  with Cons.IH [OF _ quiet_sound [OF q]] Cons.prems(1) show ?case using quiet_trans [OF q] by simp
qed

lemma under_replicated_known:
  assumes "engine_inv stored used payload w" "pb \<in> set (GetUnderReplicatedChunks cfg (w_meta w))"
  shows "cm_chunk_id pb \<in> dom payload \<and> length (cm_object_id pb) < 2 ^ 32"
proof -
  have ms: "ms_inv (w_meta w)" using assms(1) by (simp add: engine_inv_def sound_def meta_ok_def)
  obtain c where c: "pb = chunk_to_proto c" "c \<in> all_chunks (w_meta w)"
    using assms(2) by (auto simp: GetUnderReplicatedChunks_def set_under_replicated [OF ms])
  then obtain i obj where o: "um_find (ms_objects_by_id (w_meta w)) i = Some obj" "c \<in> set (oi_chunks obj)"
    by (auto simp: all_chunks_def)
  then have "oi_object_id obj = i" using namespace_invD(1) [OF ms_inv_namespace [OF ms]] by blast
  with o(1) have "locate_by_filename (oi_filename obj) (w_meta w) = Some obj" by (simp add: locate_iff [OF ms])
  then have "file_shape (w_meta w) (oi_filename obj) = Some (oi_object_id obj, oi_size obj, map ci_chunk_id (oi_chunks obj))"
    by (simp add: file_shape_def)
  then have "set (map ci_chunk_id (oi_chunks obj)) \<subseteq> dom payload"
    using assms(1) unfolding engine_inv_def shapes_ok_def by blast
  moreover have "length (ci_object_id c) < 2 ^ 32" using assms(1) c(2) by (simp add: engine_inv_def sound_def meta_ok_def)
  ultimately show ?thesis using c(1) o(2) by (auto simp: chunk_to_proto_def)
qed

lemma quiet_repair_query:
  assumes inv: "engine_inv stored used payload w" and api: "n_api net = api"
    and r: "rpc net (readonly (GetUnderReplicatedChunks scfg)) w = (r, w1)"
    and run: "recover_chunks net cfg rm exclude (case r of None \<Rightarrow> [] | Some cs \<Rightarrow> cs) 0 w1 = (recovered, w')"
  shows "quiet stored payload w w'"
proof -
  have s: "sound stored payload w" "payloads_small payload" using inv by (simp_all add: engine_inv_def)
  note ro = quiet_readonly [OF s(1) r]
  have "\<forall>pb \<in> set (case r of None \<Rightarrow> [] | Some cs \<Rightarrow> cs). cm_chunk_id pb \<in> dom payload \<and> length (cm_object_id pb) < 2 ^ 32"
    using ro(4) under_replicated_known [OF inv, of _ scfg] by (auto split: option.splits)
  from quiet_trans [OF ro(1) quiet_recover_chunks [OF api s(2) this quiet_sound [OF ro(1)] run]] show ?thesis .
qed

lemma quiet_repair:
  assumes "engine_inv stored used payload w" "n_api net = api" "repair_under_replicated_chunks net cfg rm w = (res, w')"
  shows "quiet stored payload w w'"
proof -
  obtain r w1 where r: "rpc net (readonly (GetUnderReplicatedChunks (n_cfg net))) w = (r, w1)" by force
  obtain x w2 where l: "recover_chunks net cfg rm [] (case r of None \<Rightarrow> [] | Some cs \<Rightarrow> cs) 0 w1 = (x, w2)" by force
  have "w' = w2" using assms(3) r l by (cases r) (simp_all add: repair_under_replicated_chunks_def)
  with quiet_repair_query [OF assms(1,2) r l] show ?thesis by simp
qed

lemma quiet_recover_failed:
  assumes inv: "engine_inv stored used payload w" and api: "n_api net = api" and "recover_failed_node net cfg rm failed w = (res, w')"
  shows "quiet stored payload w w'"
proof -
  define w1 where "w1 = snd (rpc net (\<lambda>ev. MarkNodeOffline ev failed) w)"
  obtain r w2 where r: "rpc net (readonly (GetUnderReplicatedChunks (n_cfg net))) w1 = (r, w2)" by force
  obtain x w3 where l: "recover_chunks net cfg rm failed (case r of None \<Rightarrow> [] | Some cs \<Rightarrow> cs) 0 w2 = (x, w3)" by force
  have "quiet stored payload w w1"
    unfolding w1_def by (rule quiet_rpc [OF _ _ prod.collapse [symmetric]], use inv in \<open>simp add: engine_inv_def\<close>,
      rule meta_registry(3), use inv in \<open>simp add: engine_inv_def sound_def\<close>)
  moreover from engine_inv_quiet(1) [OF inv this] have "quiet stored payload w1 w3" using quiet_repair_query [OF _ api r l] by blast
  moreover have "w' = w3" using assms(3) r l by (simp add: recover_failed_node_def w1_def Let_def)
  ultimately show ?thesis using quiet_trans by blast
qed

end

section \<open>The simulation\<close>

definition engine_related ::
  "('n \<Rightarrow> string \<Rightarrow> string \<Rightarrow> (string \<times> bytes) option) \<Rightarrow> string set \<times> 'n world \<Rightarrow> (string \<Rightarrow> bytes option) \<Rightarrow> bool" where
  "engine_related stored s F \<longleftrightarrow>
     (\<exists>payload. engine_inv stored (fst s) payload (snd s) \<and> F = files payload (w_meta (snd s)))"

lemma related_quiet:
  assumes "engine_inv stored used payload w" "quiet stored payload w w'"
  shows "engine_related stored (used, w') (files payload (w_meta w))"
  using engine_inv_quiet [OF assms] by (auto simp: engine_related_def intro!: exI [of _ payload])

lemma quiet_register: "sound stored payload w \<Longrightarrow> quiet stored payload w (register_with_metadata net address total_bytes h w)"
  unfolding register_with_metadata_def
  by (rule quiet_rpc [OF _ _ prod.collapse [symmetric]], assumption, rule meta_registry(1), simp add: sound_def)

lemma quiet_beat:
  assumes "sound stored payload w" "heartbeat_beat net h w = (ok, w')"
  shows "quiet stored payload w w'"
proof -
  obtain r w1 where r: "rpc net (\<lambda>ev. NodeHeartbeat ev (hb_node_id h) (hb_free_bytes h) (hb_chunk_count h)) w = (r, w1)" by force
  have "quiet stored payload w w1"
    by (rule quiet_rpc [OF assms(1) _ r], rule meta_registry(2)) (use assms(1) in \<open>simp add: sound_def\<close>)
  with assms(2) r show ?thesis by (simp add: heartbeat_beat_def)
qed

sublocale deleting_storage \<subseteq> engine: forward_simulation "engine_step api stored" file_step "engine_related stored"
proof
  fix s F e s'
  assume "engine_related stored s F" and step: "engine_step api stored s e s'"
  then obtain payload where inv: "engine_inv stored (fst s) payload (snd s)" and F: "F = files payload (w_meta (snd s))"
    by (auto simp: engine_related_def)
  note rel = related_quiet [OF inv] and internal = file_step.Nothing [of F]
  have s: "sound stored payload (snd s)" "meta_ok (w_meta (snd s))" using inv by (simp_all add: engine_inv_def sound_def)
  from step show "\<exists>F'. file_step F e F' \<and> engine_related stored s' F'"
  proof cases
    case (Put net data used w f owner res w')
    with put_files [of used payload w net data f owner res w'] inv F show ?thesis
      by (auto simp: engine_related_def)
  next
    case (Get net f w g w' used)
    note get = get_files [of payload w net f g w']
    have "file_step F e F"
      using get(2) Get s F by (auto intro: file_step.Download file_step.Download_fails)
    then show ?thesis using rel [of w'] get(1) Get s F by auto
  next
    case (Delete net f w ok w' used)
    with delete_files [of used payload w net f ok w'] inv F show ?thesis by (auto simp: engine_related_def)
  next
    case (List net p w objs w' used)
    with list_files [of stored used payload w net p objs w'] inv F rel [of w'] show ?thesis by auto
  next
    case (Head net f w obj w' used)
    with head_files [of stored used payload w net f obj w'] inv F rel [of w'] show ?thesis by auto
  next
    case (Recover net cfg rm failed w res w' used)
    with quiet_recover_failed [of used payload w net cfg rm failed res w'] inv F rel [of w'] internal show ?thesis by auto
  next
    case (Repair net cfg rm w res w' used)
    with quiet_repair [of used payload w net cfg rm res w'] inv F rel [of w'] internal show ?thesis by auto
  next
    case (Register net address total_bytes h w w' used)
    then show ?thesis using quiet_register [of stored payload w net address total_bytes h] s F rel [of w'] internal by auto
  next
    case (Beat net h w ok w' used)
    then show ?thesis using quiet_beat [of stored payload w net h ok w'] s F rel [of w'] internal by auto
  next
    case (Lead used w ev leader gen)
    have "quiet stored payload w (w\<lparr>w_meta := set_leader ev leader gen (w_meta w)\<rparr>)"
      using meta_registry(4) s Lead by (simp add: quiet_def sound_def)
    then show ?thesis using Lead F rel [of "w\<lparr>w_meta := set_leader ev leader gen (w_meta w)\<rparr>"] internal by auto
  next
    case (Lose n w used)
    have "truthful_step stored payload (w_storage w) n" using Lose(4) by (auto simp: truthful_step_def)
    then have "quiet stored payload w (w\<lparr>w_storage := n\<rparr>)" using Lose s by (intro quiet_storage) simp_all
    then show ?thesis using Lose F rel [of "w\<lparr>w_storage := n\<rparr>"] internal by auto
  qed
qed

context deleting_storage
begin

lemma engine_traces:
  "steps (engine_step api stored) s es s' \<Longrightarrow> engine_related stored s F \<Longrightarrow>
   \<exists>F'. steps file_step F es F' \<and> engine_related stored s' F'"
  by (rule engine.steps_sim)

end

lemma engine_start:
  assumes "\<And>addr cid. stored n addr cid = None"
  shows "engine_related stored ({}, \<lparr>w_meta = MetadataStore path readable snapshot, w_storage = n, w_calls = i\<rparr>) Map.empty"
proof -
  have "ms_objects_by_id (MetadataStore path readable snapshot) = []" "ms_filename_to_id (MetadataStore path readable snapshot) = Map.empty"
    by (simp_all add: MetadataStore_def load_def)
  then have "meta_ok (MetadataStore path readable snapshot)" "file_shape (MetadataStore path readable snapshot) = Map.empty"
    by (simp_all add: meta_ok_def ms_inv_initial all_chunks_def um_find_def file_shape_def [abs_def] locate_by_filename_def)
  then show ?thesis using assms
    by (auto simp: engine_related_def engine_inv_def sound_def truthful_def payloads_small_def shapes_ok_def files_def [abs_def]
        intro!: exI [of _ Map.empty])
qed

text \<open>What the specification gives: a file that can be downloaded was uploaded under its name, and since then
  there was neither a successful upload nor a successful deletion of it.\<close>

lemma file_steps_last:
  assumes "steps file_step F0 es F" "F0 f = None" "F f = Some data"
  shows "\<exists>es1 ok es2. es = es1 @ Uploaded f data ok # es2
    \<and> (\<forall>d. Uploaded f d True \<notin> set es2) \<and> Deleted f True \<notin> set es2"
  using assms
proof (induction es arbitrary: F data rule: rev_induct)
  case (snoc e es)
  obtain F1 where st: "steps file_step F0 es F1" "file_step F1 e F" using snoc.prems(1) by (auto simp: steps_append)
  show ?case
  proof (cases "F1 f = Some data")
    case True
    then obtain es1 ok es2 where es: "es = es1 @ Uploaded f data ok # es2" "\<forall>d. Uploaded f d True \<notin> set es2" "Deleted f True \<notin> set es2"
      using snoc.IH [OF st(1) snoc.prems(2)] by blast
    have "e \<noteq> Uploaded f d True" "e \<noteq> Deleted f True" for d
      using st(2) True snoc.prems(3) by (auto simp: file_step_simps)
    with es show ?thesis by (intro exI [of _ es1] exI [of _ ok] exI [of _ "es2 @ [e]"]) auto
  next
    case False
    with st(2) snoc.prems(3) obtain ok where "e = Uploaded f data ok"
      by (auto elim!: file_step.cases split: if_splits)
    then show ?thesis by (intro exI [of _ es] exI [of _ ok] exI [of _ "[]"]) auto
  qed
qed simp

section \<open>An example run\<close>

text \<open>One node registers; a file is uploaded and downloaded.\<close>

definition start_world :: "(string \<Rightarrow> chunk_store) world" where
  "start_world = \<lparr>w_meta = MetadataStore ''p'' True None, w_storage = (\<lambda>_. ChunkStore ''/d'' []), w_calls = 0\<rparr>"

definition registered_world :: "(string \<Rightarrow> chunk_store) world" where
  "registered_world = register_with_metadata example_net ''hn1'' 100 (HeartbeatManager ''n1'' ''m'' 5 15) start_world"

lemma start_empty: "store_stored (\<lambda>_. ChunkStore ''/d'' []) addr cid = None"
  by (simp add: store_stored_def chunk_view_alt ChunkStore_def entry_files_def)

lemma registered_meta:
  "ms_nodes (w_meta registered_world) = [(''n1'', NodeInfo_default\<lparr>ni_id := ''n1'', ni_address := ''hn1'', ni_total_bytes := 100,
     ni_online := True, ni_last_heartbeat := 5\<rparr>)]"
  "ms_filename_to_id (w_meta registered_world) = Map.empty" "ms_objects_by_id (w_meta registered_world) = []"
  "w_calls registered_world = 1" "ms_inv (w_meta registered_world)"
proof -
  note eval = registered_world_def register_with_metadata_def start_world_def rpc_def RegisterNode_def register_node_def
    example_net_def HeartbeatManager_def MetadataStore_def load_def Let_def split_def um_assign_def example_env_def NodeInfo_default_def
  show nodes: "ms_nodes (w_meta registered_world) = [(''n1'', NodeInfo_default\<lparr>ni_id := ''n1'', ni_address := ''hn1'', ni_total_bytes := 100,
      ni_online := True, ni_last_heartbeat := 5\<rparr>)]"
    and objs: "ms_filename_to_id (w_meta registered_world) = Map.empty" "ms_objects_by_id (w_meta registered_world) = []"
    and "w_calls registered_world = 1"
    by (simp_all add: eval)
  show "ms_inv (w_meta registered_world)"
    by (simp add: ms_inv_def namespace_inv_def nodes objs um_inv_def um_find_def NodeInfo_default_def)
qed

lemma example_trace:
  "\<exists>s. steps (engine_step store_api store_stored) ({}, start_world)
     ([Internal, Uploaded ''f'' [1, 2] True] @ [Downloaded ''f'' (Some [1, 2])]) s"
proof -
  have tot: "chunk_total 2 4194304 = 1" "chunk_total (Suc (Suc 0)) 4194304 = 1" by (simp_all add: chunk_total_def)
  have ids: "ids_distinct example_net [1, 2] registered_world"
    using tot by (simp add: ids_distinct_def example_net_def ClusterConfig_default_def mb_to_bytes_def)
  have fresh: "um_find (ms_objects_by_id (w_meta registered_world)) (env_uuid (n_env example_net (w_calls registered_world)) 0) = None"
    by (simp add: registered_meta um_find_def)
  have "\<exists>res w'. put example_net ''f'' [1, 2] ''me'' registered_world = Some (res, w') \<and> pr_success res"
    using tot by (simp add: put_evaluate registered_meta)
  then obtain res w' where put: "put example_net ''f'' [1, 2] ''me'' registered_world = Some (res, w')" "pr_success res" by blast
  obtain g w'' where g: "get example_net ''f'' w' = (g, w'')" by force
  have "reliable_storage (n_api example_net) store_stored"
    unfolding example_facts(5) by (rule store_cluster.reliable_storage_axioms)
  from downloadable_upload [OF this example_facts(4) registered_meta(5) _ _ fresh ids example_facts(3) put refl example_facts(4) g]
  have got: "gr_success g" "gr_data g = [1, 2]" by simp_all
  have "engine_step store_api store_stored ({}, start_world) Internal ({}, registered_world)"
    by (rule engine_step.Register [of example_net _ "''hn1''" 100 "HeartbeatManager ''n1'' ''m'' 5 15"])
      (simp_all add: example_facts registered_world_def)
  moreover have "engine_step store_api store_stored ({}, registered_world) (Uploaded ''f'' [1, 2] (pr_success res))
      ({} \<union> drawn_ids example_net [1, 2] registered_world, w')"
    by (rule engine_step.Put [OF example_facts(5) _ _ put(1)]) (simp_all add: fresh_ids_def ids)
  moreover have "engine_step store_api store_stored (u, w') (Downloaded ''f'' (if gr_success g then Some (gr_data g) else None)) (u, w'')" for u
    by (rule engine_step.Get [OF example_facts(5) g])
  ultimately have "steps (engine_step store_api store_stored) ({}, start_world)
      [Internal, Uploaded ''f'' [1, 2] True, Downloaded ''f'' (Some [1, 2])] ({} \<union> drawn_ids example_net [1, 2] registered_world, w'')"
    using put(2) got by (intro steps.steps_Cons steps.steps_Nil) simp_all
  then show ?thesis by auto
qed

section \<open>Properties\<close>

text \<open>C2. The engine refines a map from file names to contents. In every run of uploads, downloads, deletions,
  listings and size queries, with recoveries, registrations, heartbeats and announced leaders in
  between, with any call lost on its way or on its way back and any stored chunk lost at any time, what
  the clients observe is what a map allows: an upload takes a free name, a successful download returns
  the content, a listing is the sorted list of the names with their sizes. The map is the namespace
  of the metadata store. Assumed: the contract of the storage nodes, and that drawn ids do not repeat.\<close>

theorem engine_refines_files:
  assumes "deleting_storage api stored" "\<And>addr cid. stored n addr cid = None"
    and "steps (engine_step api stored)
      ({}, \<lparr>w_meta = MetadataStore path readable snapshot, w_storage = n, w_calls = i\<rparr>) es (used, w)"
  shows "\<exists>F. steps file_step Map.empty es F \<and> (\<forall>f. F f = None \<longleftrightarrow> locate_by_filename f (w_meta w) = None)"
proof -
  have "engine_related stored ({}, \<lparr>w_meta = MetadataStore path readable snapshot, w_storage = n, w_calls = i\<rparr>) Map.empty"
    using assms(2) by (rule engine_start)
  from deleting_storage.engine_traces [OF assms(1,3) this]
  show ?thesis by (auto simp: engine_related_def files_None file_shape_def)
qed

theorem engine_refines_files_witness:
  "\<exists>F. steps file_step Map.empty ([Internal, Uploaded ''f'' [1, 2] True] @ [Downloaded ''f'' (Some [1, 2])]) F"
proof -
  obtain used w where "steps (engine_step store_api store_stored) ({}, start_world)
      ([Internal, Uploaded ''f'' [1, 2] True] @ [Downloaded ''f'' (Some [1, 2])]) (used, w)"
    using example_trace by auto
  from engine_refines_files [OF store_deleting.deleting_storage_axioms start_empty this [unfolded start_world_def]]
  show ?thesis by (auto simp: start_world_def)
qed

text \<open>C3. A download that succeeds returns the last upload: in every run of the engine, the bytes it returns are
  those of an earlier upload under the name, after which no upload and no deletion of the name
  succeeded. (That upload may have reported a failure: its answer may have been lost.)\<close>

theorem download_returns_last_upload:
  assumes "deleting_storage api stored" "\<And>addr cid. stored n addr cid = None"
    and "steps (engine_step api stored)
      ({}, \<lparr>w_meta = MetadataStore path readable snapshot, w_storage = n, w_calls = i\<rparr>) (es @ [Downloaded f (Some data)]) s"
  shows "\<exists>es1 ok es2. es = es1 @ Uploaded f data ok # es2
    \<and> (\<forall>d. Uploaded f d True \<notin> set es2) \<and> Deleted f True \<notin> set es2"
proof -
  have "engine_related stored ({}, \<lparr>w_meta = MetadataStore path readable snapshot, w_storage = n, w_calls = i\<rparr>) Map.empty"
    using assms(2) by (rule engine_start)
  from deleting_storage.engine_traces [OF assms(1,3) this]
  obtain F F' where "steps file_step Map.empty es F" "file_step F (Downloaded f (Some data)) F'"
    by (auto simp: steps_append)
  then show ?thesis using file_steps_last [of Map.empty es F f data] by (auto simp: file_step_simps)
qed

theorem download_returns_last_upload_witness:
  "\<exists>es1 ok es2. [Internal, Uploaded ''f'' [1, 2] True] = es1 @ Uploaded ''f'' [1, 2] ok # es2 \<and> Deleted ''f'' True \<notin> set es2"
proof -
  obtain s where "steps (engine_step store_api store_stored) ({}, start_world)
      ([Internal, Uploaded ''f'' [1, 2] True] @ [Downloaded ''f'' (Some [1, 2])]) s"
    using example_trace by blast
  from download_returns_last_upload [OF store_deleting.deleting_storage_axioms _ this [unfolded start_world_def]] start_empty
  show ?thesis unfolding start_world_def by fastforce
qed

end
