(* ===== verification/Client_Programs.thy ===== *)
theory Client_Programs
  imports Engine
begin

text \<open>
  The operations of the client and of the managers as programs of remote calls. \<open>Client\<close>, \<open>Replication\<close>
  and \<open>Recovery\<close> model an operation as one function; here it is what its thread does between calls of
  other threads: a result, or a call (one request to the metadata service or to a storage node) and
  the rest of the program. Run alone, each program is the function of the other theories; what programs
  do when their calls interleave is the theory \<open>Interleaving\<close>.
\<close>

section \<open>Programs of calls\<close>

text \<open>\<open>None\<close>: the call does not return.\<close>

datatype ('w, 'a) prog = Return 'a | Call "'w \<Rightarrow> ('w \<times> ('w, 'a) prog) option"

primrec bind_prog :: "('w, 'a) prog \<Rightarrow> ('a \<Rightarrow> ('w, 'b) prog) \<Rightarrow> ('w, 'b) prog" where
  "bind_prog (Return a) cont = cont a"
| "bind_prog (Call f) cont = Call (map_option (map_prod id (\<lambda>p. bind_prog p cont)) \<circ> f)"

primrec run_prog :: "('w, 'a) prog \<Rightarrow> 'w \<Rightarrow> ('a \<times> 'w) option" where
  "run_prog (Return a) = (\<lambda>w. Some (a, w))"
| "run_prog (Call f) = (\<lambda>w. Option.bind (map_option (map_prod id run_prog) (f w)) (\<lambda>(w1, r). r w1))"

definition call_partial :: "('w \<Rightarrow> ('a \<times> 'w) option) \<Rightarrow> ('w, 'a) prog" where
  "call_partial f = Call (\<lambda>w. map_option (\<lambda>(r, w1). (w1, Return r)) (f w))"

definition call :: "('w \<Rightarrow> 'a \<times> 'w) \<Rightarrow> ('w, 'a) prog" where
  "call f = call_partial (\<lambda>w. Some (f w))"

lemma prog_induct [case_names Return Call]:
  assumes "\<And>a. P (Return a)" "\<And>f. (\<And>w w1 p. f w = Some (w1, p) \<Longrightarrow> P p) \<Longrightarrow> P (Call f)"
  shows "P p"
proof (induction p)
  case (Call f)
  have "P p" if "f w = Some (w1, p)" for w w1 p
    using Call.IH [of "Some (w1, p)" "(w1, p)" p] that [symmetric] by auto
  then show ?case by (rule assms(2))
qed (rule assms(1))

lemma run_bind: "run_prog (bind_prog p cont) w = Option.bind (run_prog p w) (\<lambda>(a, w1). run_prog (cont a) w1)"
proof (induction p arbitrary: w rule: prog_induct)
  case (Call f)
  then show ?case by (cases "f w") auto
qed simp

lemma run_call [simp]: "run_prog (call f) w = Some (f w)"
  by (simp add: call_def call_partial_def split_def)

lemma run_call_partial [simp]: "run_prog (call_partial f) w = f w"
  by (cases "f w") (auto simp: call_partial_def)

section \<open>The client\<close>

text \<open>A read of one replica, as \<open>read_chunk_from_replicas\<close> makes it.\<close>

definition read_replica_call ::
  "'n net \<Rightarrow> string \<Rightarrow> ReplicaInfo \<Rightarrow> 'n world \<Rightarrow> (bool \<times> ChunkHeaderData \<times> bytes) option \<times> 'n world" where
  "read_replica_call net cid rep w =
     (let (r, n) = sa_ReadChunk (n_api net) (ri_address rep) cid (w_storage w) in (r, w\<lparr>w_storage := n\<rparr>))"

fun read_replicas_prog ::
  "'n net \<Rightarrow> string \<Rightarrow> string \<Rightarrow> ReplicaInfo list \<Rightarrow> ('n world, bytes option) prog" where
  "read_replicas_prog net cid checksum [] = Return None"
| "read_replicas_prog net cid checksum (rep # reps) =
     bind_prog (call (read_replica_call net cid rep)) (\<lambda>r. case r of
         Some (True, h, data) \<Rightarrow>
           if checksum \<noteq> [] \<and> ch_checksum h \<noteq> checksum then read_replicas_prog net cid checksum reps
           else Return (Some data)
       | _ \<Rightarrow> read_replicas_prog net cid checksum reps)"

fun put_replicas_prog ::
  "'n net \<Rightarrow> ChunkInfo \<Rightarrow> bytes \<Rightarrow> string \<Rightarrow> ClusterNodeInfo list \<Rightarrow> ReplicaInfo list
   \<Rightarrow> ('n world, ReplicaInfo list) prog" where
  "put_replicas_prog net chunk data object_id [] reps = Return reps"
| "put_replicas_prog net chunk data object_id (node # nodes) reps =
     bind_prog (call (write_chunk_to_node net (cn_address node) chunk data object_id)) (\<lambda>ok.
       put_replicas_prog net chunk data object_id nodes
         (if ok then reps @ [\<lparr>ri_node_id = cn_node_id node, ri_address = cn_address node,
            ri_is_primary = (reps = []), ri_version = 1\<rparr>] else reps))"

fun put_chunks_prog :: "'n net \<Rightarrow> string \<Rightarrow> bytes \<Rightarrow> u64 \<Rightarrow> ChunkMetadata list \<Rightarrow> ('n world, string option) prog" where
  "put_chunks_prog net object_id data offset [] = Return None"
| "put_chunks_prog net object_id data offset (chunk_pb # rest) =
     (let chunk_size = cm_size chunk_pb;
          chunk_data = (if chunk_size > 0 then take (unat chunk_size) (drop (unat offset) data) else []);
          chunk = \<lparr>ci_chunk_id = cm_chunk_id chunk_pb, ci_object_id = object_id,
            ci_chunk_index = cm_chunk_index chunk_pb, ci_size = chunk_size,
            ci_checksum = sha256 chunk_data, ci_version = 1, ci_replicas = []\<rparr>;
          rf = cc_replication_factor (n_cfg net)
      in bind_prog (call (rpc net (\<lambda>ev. SelectNodes (n_cfg net) ev rf []))) (\<lambda>sel. case sel of
           None \<Rightarrow> Return (Some ''Node selection failed'')
         | Some nodes \<Rightarrow> bind_prog (put_replicas_prog net chunk chunk_data object_id nodes []) (\<lambda>reps.
             if word_of_nat (length reps) < required_acks (cc_write_ack (n_cfg net)) rf
             then bind_prog (call (rpc net (\<lambda>ev. DeleteObject ev object_id [])))
               (\<lambda>_. Return (Some (''Failed to achieve replication quorum for chunk '' @ ci_chunk_id chunk)))
             else bind_prog (call (rpc net (\<lambda>ev. UpdateChunk ev object_id (chunk_to_proto (chunk\<lparr>ci_replicas := reps\<rparr>)))))
               (\<lambda>_. put_chunks_prog net object_id data (offset + chunk_size) rest))))"

definition put_prog :: "'n net \<Rightarrow> string \<Rightarrow> bytes \<Rightarrow> string \<Rightarrow> ('n world, PutResult) prog" where
  "put_prog net filename data owner =
     bind_prog (call_partial (rpc_partial net (\<lambda>ev. CreateObject (n_cfg net) ev filename (word_of_nat (length data))
         (cc_replication_factor (n_cfg net)) owner (cc_chunk_size_mb (n_cfg net))))) (\<lambda>r. case r of
         None \<Rightarrow> Return \<lparr>pr_success = False, pr_object_id = [], pr_message = ''CreateObject failed''\<rparr>
       | Some resp \<Rightarrow>
           if \<not> or_success resp
           then Return \<lparr>pr_success = False, pr_object_id = [],
                  pr_message = (if or_message resp = [] then ''CreateObject failed'' else or_message resp)\<rparr>
           else let obj = the (or_object resp)
             in bind_prog (put_chunks_prog net (om_object_id obj) data 0 (om_chunks obj)) (\<lambda>err. Return (case err of
                  Some msg \<Rightarrow> \<lparr>pr_success = False, pr_object_id = om_object_id obj, pr_message = msg\<rparr>
                | None \<Rightarrow> \<lparr>pr_success = True, pr_object_id = om_object_id obj, pr_message = ''Upload complete''\<rparr>)))"

fun get_chunks_prog :: "'n net \<Rightarrow> ChunkMetadata list \<Rightarrow> bytes \<Rightarrow> ('n world, string option \<times> bytes) prog" where
  "get_chunks_prog net [] acc = Return (None, acc)"
| "get_chunks_prog net (cp # rest) acc =
     (let chunk = from_proto cp
      in bind_prog (read_replicas_prog net (ci_chunk_id chunk) (ci_checksum chunk) (ci_replicas chunk)) (\<lambda>r. case r of
           None \<Rightarrow> Return (Some (ci_chunk_id chunk), acc)
         | Some data \<Rightarrow> get_chunks_prog net rest (acc @ data)))"

definition get_prog :: "'n net \<Rightarrow> string \<Rightarrow> ('n world, GetResult) prog" where
  "get_prog net filename =
     bind_prog (call (rpc net (readonly (LocateObject [] filename)))) (\<lambda>r. case r of
         None \<Rightarrow> Return (get_failed ''Object not found'')
       | Some resp \<Rightarrow>
           if \<not> or_success resp then Return (get_failed ''Object not found'')
           else let obj = the (or_object resp);
                    md = ObjectInfo_default\<lparr>oi_object_id := om_object_id obj, oi_filename := om_filename obj,
                           oi_size := om_size obj,
                           oi_chunks := replicate (length (om_chunks obj)) ChunkInfo_default\<rparr>
             in bind_prog (get_chunks_prog net (om_chunks obj) []) (\<lambda>(err, data). Return (case err of
                  Some cid \<Rightarrow> \<lparr>gr_success = False, gr_data = data, gr_metadata = md,
                                gr_message = ''Failed to read chunk '' @ cid\<rparr>
                | None \<Rightarrow> \<lparr>gr_success = True, gr_data = data, gr_metadata = md, gr_message = ''Download complete''\<rparr>)))"

text \<open>The loop over the chunks and their replicas is one loop over the pairs of an address and a chunk id.\<close>

fun delete_replicas_prog :: "'n net \<Rightarrow> (string \<times> string) list \<Rightarrow> ('n world, unit) prog" where
  "delete_replicas_prog net [] = Return ()"
| "delete_replicas_prog net ((address, cid) # rest) =
     bind_prog (call (\<lambda>w. ((), w\<lparr>w_storage := snd (sa_DeleteChunk (n_api net) address cid (w_storage w))\<rparr>)))
       (\<lambda>_. delete_replicas_prog net rest)"

definition replica_calls :: "ChunkMetadata list \<Rightarrow> (string \<times> string) list" where
  "replica_calls chunks = concat (map (\<lambda>chunk. map (\<lambda>rep. (rl_address rep, cm_chunk_id chunk)) (cm_replicas chunk)) chunks)"

definition delete_prog :: "'n net \<Rightarrow> string \<Rightarrow> ('n world, bool) prog" where
  "delete_prog net filename =
     bind_prog (call (rpc net (readonly (LocateObject [] filename)))) (\<lambda>r. case r of
         None \<Rightarrow> Return False
       | Some resp \<Rightarrow>
           if \<not> or_success resp then Return False
           else bind_prog (delete_replicas_prog net (replica_calls (om_chunks (the (or_object resp))))) (\<lambda>_.
             bind_prog (call (rpc net (\<lambda>ev. DeleteObject ev [] filename)))
               (\<lambda>r. Return (case r of None \<Rightarrow> False | Some st \<Rightarrow> sr_success st))))"

section \<open>The managers\<close>

fun replicate_nodes_prog ::
  "'n net \<Rightarrow> ReplicationManager \<Rightarrow> u32 \<Rightarrow> ChunkHeaderData \<Rightarrow> bytes \<Rightarrow> ClusterNodeInfo list \<Rightarrow> ReplicaInfo list
   \<Rightarrow> ('n world, ReplicaInfo list) prog" where
  "replicate_nodes_prog net rm version header data [] reps = Return reps"
| "replicate_nodes_prog net rm version header data (node # nodes) reps =
     bind_prog (call (send_replica net rm header data node)) (\<lambda>ok.
       replicate_nodes_prog net rm version header data nodes
         (if ok then reps @ [\<lparr>ri_node_id = cn_node_id node, ri_address = cn_address node,
            ri_is_primary = (reps = []), ri_version = version\<rparr>] else reps))"

text \<open>The time of the header is read after the selection.\<close>

definition select_call :: "'n net \<Rightarrow> u32 \<Rightarrow> string \<Rightarrow> 'n world \<Rightarrow> (ClusterNodeInfo list option \<times> u64) \<times> 'n world" where
  "select_call net rf strategy w =
     (let (r, w1) = rpc net (\<lambda>ev. SelectNodes (n_cfg net) ev rf strategy) w in ((r, n_now net (w_calls w1)), w1))"

definition replicate_chunk_prog ::
  "'n net \<Rightarrow> ReplicationManager \<Rightarrow> ChunkInfo \<Rightarrow> bytes \<Rightarrow> u32 \<Rightarrow> WriteAckPolicy \<Rightarrow> ('n world, ReplicationResult) prog" where
  "replicate_chunk_prog net rm chunk_info data replication_factor ack_policy =
     bind_prog (call (select_call net replication_factor ''least_used'')) (\<lambda>(r, now).
       if r = None \<or> r = Some [] then Return \<lparr>rr_success = False, rr_message = ''No available nodes'', rr_replicas = []\<rparr>
       else let header = \<lparr>ch_chunk_id = ci_chunk_id chunk_info, ch_object_id = ci_object_id chunk_info,
                  ch_version = ci_version chunk_info, ch_size = word_of_nat (length data),
                  ch_checksum = sha256 data, ch_created_at_ms = now\<rparr>
         in bind_prog (replicate_nodes_prog net rm (ci_version chunk_info) header data (the r) []) (\<lambda>reps.
           let success_count = word_of_nat (length reps) :: u32;
               required = required_acks ack_policy replication_factor;
               success = (required \<le> success_count)
           in Return \<lparr>rr_success = success,
                rr_message = (if success then ''Replication successful''
                  else ''Insufficient replicas ('' @ dec_string (unat success_count) @ ''/''
                       @ dec_string (unat required) @ '')''),
                rr_replicas = reps\<rparr>))"

fun fetch_prog :: "'n net \<Rightarrow> string \<Rightarrow> string \<Rightarrow> ReplicaInfo list \<Rightarrow> ('n world, bytes option) prog" where
  "fetch_prog net chunk_id exclude_node [] = Return None"
| "fetch_prog net chunk_id exclude_node (rep # reps) =
     (if ri_node_id rep = exclude_node then fetch_prog net chunk_id exclude_node reps
      else bind_prog (call (read_from_replica net rep chunk_id)) (\<lambda>r. case r of
          Some data \<Rightarrow> Return (Some data)
        | None \<Rightarrow> fetch_prog net chunk_id exclude_node reps))"

definition recover_chunk_prog ::
  "'n net \<Rightarrow> ClusterConfig \<Rightarrow> ReplicationManager \<Rightarrow> string \<Rightarrow> ChunkInfo \<Rightarrow> ('n world, bool) prog" where
  "recover_chunk_prog net cfg rm exclude_node chunk =
     bind_prog (fetch_prog net (ci_chunk_id chunk) exclude_node (ci_replicas chunk)) (\<lambda>r. case r of
         None \<Rightarrow> Return False
       | Some data \<Rightarrow>
           bind_prog (replicate_chunk_prog net rm chunk data (cc_replication_factor cfg) (cc_write_ack cfg)) (\<lambda>rep_result.
             if rr_success rep_result
             then bind_prog (call (rpc net (\<lambda>ev. UpdateChunk ev (ci_object_id chunk)
                 (chunk_to_proto (chunk\<lparr>ci_version := ci_version chunk + 1, ci_replicas := rr_replicas rep_result\<rparr>)))))
               (\<lambda>_. Return True)
             else Return False))"

fun recover_chunks_prog ::
  "'n net \<Rightarrow> ClusterConfig \<Rightarrow> ReplicationManager \<Rightarrow> string \<Rightarrow> ChunkMetadata list \<Rightarrow> u32 \<Rightarrow> ('n world, u32) prog" where
  "recover_chunks_prog net cfg rm exclude_node [] recovered = Return recovered"
| "recover_chunks_prog net cfg rm exclude_node (pb_chunk # rest) recovered =
     bind_prog (recover_chunk_prog net cfg rm exclude_node (from_proto pb_chunk)) (\<lambda>ok.
       recover_chunks_prog net cfg rm exclude_node rest (if ok then recovered + 1 else recovered))"

definition recover_failed_prog ::
  "'n net \<Rightarrow> ClusterConfig \<Rightarrow> ReplicationManager \<Rightarrow> string \<Rightarrow> ('n world, RecoveryResult) prog" where
  "recover_failed_prog net cfg rm failed_node_id =
     bind_prog (call (rpc net (\<lambda>ev. MarkNodeOffline ev failed_node_id))) (\<lambda>_.
     bind_prog (call (rpc net (readonly (GetUnderReplicatedChunks (n_cfg net))))) (\<lambda>r.
     bind_prog (recover_chunks_prog net cfg rm failed_node_id (case r of None \<Rightarrow> [] | Some cs \<Rightarrow> cs) 0) (\<lambda>recovered.
       Return \<lparr>rcv_success = True, rcv_chunks_recovered = recovered, rcv_message = ''Recovery complete''\<rparr>)))"

definition repair_prog :: "'n net \<Rightarrow> ClusterConfig \<Rightarrow> ReplicationManager \<Rightarrow> ('n world, RecoveryResult) prog" where
  "repair_prog net cfg rm =
     bind_prog (call (rpc net (readonly (GetUnderReplicatedChunks (n_cfg net))))) (\<lambda>r. case r of
         None \<Rightarrow> Return \<lparr>rcv_success = False, rcv_chunks_recovered = 0,
                   rcv_message = ''Failed to query under-replicated chunks''\<rparr>
       | Some cs \<Rightarrow> bind_prog (recover_chunks_prog net cfg rm [] cs 0) (\<lambda>recovered.
           Return \<lparr>rcv_success = True, rcv_chunks_recovered = recovered, rcv_message = ''Repair complete''\<rparr>))"

section \<open>Operations\<close>

datatype client_op =
    PutOp string bytes string
  | GetOp string
  | DeleteOp string
  | ListOp string
  | HeadOp string
  | RecoverOp ClusterConfig ReplicationManager string
  | RepairOp ClusterConfig ReplicationManager

datatype client_result =
    PutDone PutResult | GetDone GetResult | DeleteDone bool | ListDone "ObjectInfo list" | HeadDone "ObjectInfo option"
  | RecoverDone RecoveryResult

fun op_prog :: "'n net \<Rightarrow> client_op \<Rightarrow> ('n world, client_result) prog" where
  "op_prog net (PutOp filename data owner) = bind_prog (put_prog net filename data owner) (Return \<circ> PutDone)"
| "op_prog net (GetOp filename) = bind_prog (get_prog net filename) (Return \<circ> GetDone)"
| "op_prog net (DeleteOp filename) = bind_prog (delete_prog net filename) (Return \<circ> DeleteDone)"
| "op_prog net (ListOp pre) = bind_prog (call (client_list net pre)) (Return \<circ> ListDone)"
| "op_prog net (HeadOp filename) = bind_prog (call (client_head net filename)) (Return \<circ> HeadDone)"
| "op_prog net (RecoverOp cfg rm failed) = bind_prog (recover_failed_prog net cfg rm failed) (Return \<circ> RecoverDone)"
| "op_prog net (RepairOp cfg rm) = bind_prog (repair_prog net cfg rm) (Return \<circ> RecoverDone)"

text \<open>The operation as the one function of the other theories.\<close>

fun run_op :: "'n net \<Rightarrow> client_op \<Rightarrow> 'n world \<Rightarrow> (client_result \<times> 'n world) option" where
  "run_op net (PutOp filename data owner) w = map_option (map_prod PutDone id) (put net filename data owner w)"
| "run_op net (GetOp filename) w = Some (map_prod GetDone id (get net filename w))"
| "run_op net (DeleteOp filename) w = Some (map_prod DeleteDone id (client_delete_object net filename w))"
| "run_op net (ListOp pre) w = Some (map_prod ListDone id (client_list net pre w))"
| "run_op net (HeadOp filename) w = Some (map_prod HeadDone id (client_head net filename w))"
| "run_op net (RecoverOp cfg rm failed) w = Some (map_prod RecoverDone id (recover_failed_node net cfg rm failed w))"
| "run_op net (RepairOp cfg rm) w = Some (map_prod RecoverDone id (repair_under_replicated_chunks net cfg rm w))"

section \<open>Programs run alone\<close>

lemma run_read_replicas: "run_prog (read_replicas_prog net cid c reps) w = Some (read_chunk_from_replicas net cid c reps w)"
  by (induction reps arbitrary: w)
    (auto simp: run_bind read_replica_call_def Let_def split: prod.split option.split bool.split)

lemma run_put_replicas: "run_prog (put_replicas_prog net chunk data oid nodes reps) w = Some (put_replicas net chunk data oid nodes reps w)"
  by (induction nodes arbitrary: reps w) (auto simp: run_bind Let_def split: prod.split)

lemma run_put_chunks: "run_prog (put_chunks_prog net oid data offset cms) w = Some (put_chunks net oid data offset cms w)"
  by (induction cms arbitrary: offset w)
    (simp_all add: run_bind run_put_replicas Let_def split_def split: option.split)

lemma run_put: "run_prog (put_prog net f data owner) w = put net f data owner w"
  by (simp add: put_prog_def put_def run_bind run_put_chunks Let_def split_def split: option.split prod.split Option.bind_split)

lemma run_get_chunks: "run_prog (get_chunks_prog net cps acc) w = Some (case get_chunks net cps acc w of (err, data, w1) \<Rightarrow> ((err, data), w1))"
  by (induction cps arbitrary: acc w)
    (simp_all add: run_bind run_read_replicas Let_def split_def split: option.split)

lemma run_get: "run_prog (get_prog net f) w = Some (get net f w)"
  by (simp add: get_prog_def get_def run_bind run_get_chunks Let_def split_def split: option.split)

text \<open>The two loops of a deletion as one.\<close>

lemma delete_replicas_flat:
  "delete_replicas net chunks n = foldl (\<lambda>n (a, cid). snd (sa_DeleteChunk (n_api net) a cid n)) n (replica_calls chunks)"
proof (induction chunks arbitrary: n)
  case (Cons c cs)
  then show ?case by (simp add: delete_replicas_def replica_calls_def foldl_map)
qed (simp add: delete_replicas_def replica_calls_def)

lemma run_delete_replicas:
  "run_prog (delete_replicas_prog net xs) w
   = Some ((), w\<lparr>w_storage := foldl (\<lambda>n (a, cid). snd (sa_DeleteChunk (n_api net) a cid n)) (w_storage w) xs\<rparr>)"
  by (induction xs arbitrary: w) (auto simp: run_bind)

lemma run_delete: "run_prog (delete_prog net f) w = Some (client_delete_object net f w)"
  by (simp add: delete_prog_def client_delete_object_def run_bind run_delete_replicas delete_replicas_flat Let_def split_def
      split: option.split)

lemma run_replicate_nodes:
  "run_prog (replicate_nodes_prog net rm v h data nodes reps) w = Some (replicate_nodes net rm v h data nodes reps w)"
  by (induction nodes arbitrary: reps w) (auto simp: run_bind send_replica_def Let_def split: prod.split)

lemma run_replicate: "run_prog (replicate_chunk_prog net rm c data rf policy) w = Some (replicate_chunk net rm c data rf policy w)"
  by (simp add: replicate_chunk_prog_def replicate_chunk_def select_call_def run_bind run_replicate_nodes Let_def split_def
      split: option.split)

lemma run_fetch: "run_prog (fetch_prog net cid exclude reps) w = Some (fetch_chunk_from_replica net cid exclude reps w)"
  by (induction reps arbitrary: w) (auto simp: run_bind split: prod.split option.split)

lemma run_recover_chunk: "run_prog (recover_chunk_prog net cfg rm exclude c) w = Some (recover_chunk net cfg rm exclude c w)"
  by (simp add: recover_chunk_prog_def recover_chunk_def run_bind run_fetch run_replicate Let_def split_def split: option.split)

lemma run_recover_chunks:
  "run_prog (recover_chunks_prog net cfg rm exclude pbs start) w = Some (recover_chunks net cfg rm exclude pbs start w)"
  by (induction pbs arbitrary: start w) (auto simp: run_bind run_recover_chunk split: prod.split)

lemma run_recover_failed: "run_prog (recover_failed_prog net cfg rm failed) w = Some (recover_failed_node net cfg rm failed w)"
  by (simp add: recover_failed_prog_def recover_failed_node_def run_bind run_recover_chunks Let_def split_def)

lemma run_repair: "run_prog (repair_prog net cfg rm) w = Some (repair_under_replicated_chunks net cfg rm w)"
  by (simp add: repair_prog_def repair_under_replicated_chunks_def run_bind run_recover_chunks Let_def split_def split: option.split)

section \<open>Properties\<close>

text \<open>The programs are the operations: for every operation of the client and of the recovery manager, the program
  of calls run without interference has the result, the effects and the calls of the operation as one
  function, and does not return exactly where it does not.\<close>

theorem program_is_operation: "run_prog (op_prog net op) w = run_op net op w"
proof (cases op)
  case (PutOp f data owner)
  then show ?thesis by (cases "put net f data owner w") (auto simp: run_bind run_put)
qed (simp_all add: run_bind run_get run_delete run_recover_failed run_repair map_prod_def split_def)

end
