(* ===== verification/Safe_Programs.thy ===== *)
theory Safe_Programs
  imports Client_Programs
begin

text \<open>
  What a program of calls guarantees while others run. \<open>safe\<close> is a rely-guarantee judgement: from any
  state the other programs may have led to, every call of the program keeps the invariant of the engine and is a
  sequence of events (usually none) of the map from file names to contents that \<open>Engine\<close> specifies; the
  result of the program fits the events it had. The judgement composes over the sequencing of
  programs, so it is shown once per piece of a program; here for the pieces of uploads, downloads, deletions,
  queries and recoveries.
\<close>

section \<open>Ids and results\<close>

text \<open>The ids one metadata call can draw (\<open>bound\<close> is above the number of chunks of any upload), and what is
  assumed of those of a call that adds a file: they differ from each other and from all drawn before.\<close>

definition adds_file :: "'n world \<Rightarrow> 'n world \<Rightarrow> bool" where
  "adds_file w w' \<longleftrightarrow> (\<exists>f. file_shape (w_meta w) f = None \<and> file_shape (w_meta w') f \<noteq> None)"

definition new_ids :: "nat \<Rightarrow> 'n net \<Rightarrow> 'n world \<Rightarrow> string set" where
  "new_ids bound net w = env_uuid (n_env net (w_calls w)) ` {0..bound}"

definition ids_new :: "nat \<Rightarrow> 'n net \<Rightarrow> string set \<Rightarrow> 'n world \<Rightarrow> bool" where
  "ids_new bound net used w \<longleftrightarrow> inj_on (env_uuid (n_env net (w_calls w))) {0..bound} \<and> new_ids bound net w \<inter> used = {}"

definition next_used :: "nat \<Rightarrow> 'n net \<Rightarrow> 'n world \<Rightarrow> 'n world \<Rightarrow> string set \<Rightarrow> string set" where
  "next_used bound net w w' used = (if adds_file w w' then used \<union> new_ids bound net w else used)"

definition upload_fits :: "nat \<Rightarrow> 'n net \<Rightarrow> bytes \<Rightarrow> bool" where
  "upload_fits bound net data \<longleftrightarrow> length data < 2 ^ 64
     \<and> max 1 (chunk_total (length data) (unat (mb_to_bytes (cc_chunk_size_mb (n_cfg net))))) \<le> bound"

definition uploads_fit :: "nat \<Rightarrow> (nat \<Rightarrow> 'n net) \<Rightarrow> client_op list \<Rightarrow> bool" where
  "uploads_fit bound nets ops \<longleftrightarrow>
     (\<forall>i f data owner. i < length ops \<longrightarrow> ops ! i = PutOp f data owner \<longrightarrow> upload_fits bound (nets i) data)"

text \<open>The events an operation can have, and those that explain its result. An upload takes effect when its object is
  created; one that reports success had no other event, one that fails may have had none, may have
  taken effect or may have been undone. A successful download returns the content at its one event.\<close>

fun own_events :: "client_op \<Rightarrow> event set" where
  "own_events (PutOp f data owner) = {Uploaded f data True, Deleted f True}"
| "own_events (GetOp f) = range (\<lambda>d. Downloaded f (Some d))"
| "own_events (DeleteOp f) = {Deleted f True}"
| "own_events (ListOp pre) = range (Listed pre)"
| "own_events (HeadOp f) = range (Headed f)"
| "own_events (RecoverOp cfg rm failed) = {}"
| "own_events (RepairOp cfg rm) = {}"

fun explained :: "client_op \<Rightarrow> event list \<Rightarrow> client_result \<Rightarrow> bool" where
  "explained (PutOp f data owner) es (PutDone res) \<longleftrightarrow> es = [Uploaded f data True]
     \<or> \<not> pr_success res \<and> (es = [] \<or> es = [Uploaded f data True, Deleted f True])"
| "explained (GetOp f) es (GetDone g) \<longleftrightarrow>
     (if gr_success g then es = [Downloaded f (Some (gr_data g))] else es = [] \<or> (\<exists>d. es = [Downloaded f (Some d)]))"
| "explained (DeleteOp f) es (DeleteDone ok) \<longleftrightarrow> es = [Deleted f True] \<or> \<not> ok \<and> es = []"
| "explained (ListOp pre) es (ListDone objs) \<longleftrightarrow> es = [Listed pre (map (\<lambda>obj. (oi_filename obj, oi_size obj)) objs)]"
| "explained (HeadOp f) es (HeadDone obj) \<longleftrightarrow> es = [Headed f (map_option oi_size obj)]"
| "explained (RecoverOp cfg rm failed) es (RecoverDone res) \<longleftrightarrow> es = []"
| "explained (RepairOp cfg rm) es (RecoverDone res) \<longleftrightarrow> es = []"
| "explained op es r \<longleftrightarrow> False"

section \<open>Safe programs\<close>

text \<open>What the ids drawn so far stand for: a chunk id for a payload, an object id for the name it was created
  under. Operations only add to it.\<close>

record ghost =
  gh_payload :: "string \<Rightarrow> bytes option"
  gh_names :: "string \<Rightarrow> string option"

definition ghost_le :: "ghost \<Rightarrow> ghost \<Rightarrow> bool" where
  "ghost_le g g' \<longleftrightarrow> gh_payload g \<subseteq>\<^sub>m gh_payload g' \<and> gh_names g \<subseteq>\<^sub>m gh_names g'"

lemma ghost_le_refl [simp]: "ghost_le g g"
  by (simp add: ghost_le_def)

lemma ghost_le_trans: "ghost_le g g1 \<Longrightarrow> ghost_le g1 g2 \<Longrightarrow> ghost_le g g2"
  unfolding ghost_le_def by (blast intro: map_le_trans)

lemma extended: "gh_payload g cid = Some p \<Longrightarrow> ghost_le g g1 \<Longrightarrow> gh_payload g1 cid = Some p"
  by (auto simp: ghost_le_def map_le_def dom_def)

lemma extended_name: "gh_names g i = Some f \<Longrightarrow> ghost_le g g1 \<Longrightarrow> gh_names g1 i = Some f"
  by (auto simp: ghost_le_def map_le_def dom_def)

definition shared_inv ::
  "('n \<Rightarrow> string \<Rightarrow> string \<Rightarrow> (string \<times> bytes) option) \<Rightarrow> string set \<Rightarrow> ghost \<Rightarrow> 'n world \<Rightarrow> bool" where
  "shared_inv stored used g w \<longleftrightarrow> engine_inv stored used (gh_payload g) w \<and> dom (gh_names g) \<subseteq> used
     \<and> (\<forall>f i x. file_shape (w_meta w) f = Some (i, x) \<longrightarrow> gh_names g i = Some f)"

abbreviation ghost_files :: "ghost \<Rightarrow> 'n world \<Rightarrow> string \<Rightarrow> bytes option" where
  "ghost_files g w \<equiv> files (gh_payload g) (w_meta w)"

text \<open>\<open>A\<close>: the events the program may have, \<open>es\<close>: those it had, \<open>Q\<close>: what holds when it returns.\<close>

inductive safe ::
  "('n \<Rightarrow> string \<Rightarrow> string \<Rightarrow> (string \<times> bytes) option) \<Rightarrow> 'n net \<Rightarrow> nat \<Rightarrow> event set
   \<Rightarrow> (ghost \<Rightarrow> event list \<Rightarrow> 'a \<Rightarrow> bool) \<Rightarrow> ghost \<Rightarrow> event list \<Rightarrow> ('n world, 'a) prog \<Rightarrow> bool"
  for stored net bound A Q where
  safe_Return: "Q g es a \<Longrightarrow> safe stored net bound A Q g es (Return a)"
| safe_Call: "(\<And>used g1 w w' p. ghost_le g g1 \<Longrightarrow> shared_inv stored used g1 w \<Longrightarrow>
      (adds_file w w' \<longrightarrow> ids_new bound net used w) \<Longrightarrow> f w = Some (w', p) \<Longrightarrow>
      \<exists>g2 new. ghost_le g1 g2 \<and> shared_inv stored (next_used bound net w w' used) g2 w'
        \<and> set new \<subseteq> A \<and> steps file_step (ghost_files g1 w) new (ghost_files g2 w')
        \<and> safe stored net bound A Q g2 (es @ new) p) \<Longrightarrow>
    safe stored net bound A Q g es (Call f)"

inductive_simps safe_Call_iff: "safe stored net bound A Q g es (Call f)"

lemma safe_CallD:
  assumes "safe stored net bound A Q g es (Call f)" "ghost_le g g1" "shared_inv stored used g1 w"
    and "adds_file w w' \<longrightarrow> ids_new bound net used w" "f w = Some (w', p)"
  shows "\<exists>g2 new. ghost_le g1 g2 \<and> shared_inv stored (next_used bound net w w' used) g2 w'
        \<and> set new \<subseteq> A \<and> steps file_step (ghost_files g1 w) new (ghost_files g2 w')
        \<and> safe stored net bound A Q g2 (es @ new) p"
  using assms(1) [unfolded safe_Call_iff, THEN spec, THEN spec, THEN mp, OF assms(2), THEN spec, THEN mp, OF assms(3),
        THEN spec, THEN mp, OF assms(4), THEN spec, THEN mp, OF assms(5)]
  by blast

lemma safe_mono:
  assumes "safe stored net bound A Q g es p" "ghost_le g g'"
    and "\<And>g1 a. Q g es a \<Longrightarrow> ghost_le g g1 \<Longrightarrow> Q g1 es a"
  shows "safe stored net bound A Q g' es p"
  using assms(1)
proof cases
  case (safe_Return a)
  then show ?thesis using assms(2,3) by (auto intro: safe.safe_Return)
next
  case (safe_Call f)
  show ?thesis unfolding safe_Call(1)
  proof (rule safe.safe_Call)
    fix used g1 w w' p
    assume le: "ghost_le g' g1" and inv: "shared_inv stored used g1 w"
      and ids: "adds_file w w' \<longrightarrow> ids_new bound net used w" and f: "f w = Some (w', p)"
    show "\<exists>g2 new. ghost_le g1 g2 \<and> shared_inv stored (next_used bound net w w' used) g2 w'
        \<and> set new \<subseteq> A \<and> steps file_step (ghost_files g1 w) new (ghost_files g2 w')
        \<and> safe stored net bound A Q g2 (es @ new) p"
      by (rule safe_CallD [OF assms(1) [unfolded safe_Call(1)] ghost_le_trans [OF assms(2) le] inv ids f])
  qed
qed

lemma safe_bind:
  assumes "safe stored net bound A Q g es p"
    and "\<And>g1 es1 a. ghost_le g g1 \<Longrightarrow> Q g1 es1 a \<Longrightarrow> safe stored net bound A R g1 es1 (cont a)"
  shows "safe stored net bound A R g es (bind_prog p cont)"
  using assms
proof (induction rule: safe.induct)
  case (safe_Return g es a)
  then show ?case by simp
next
  case (safe_Call g f es)
  show ?case unfolding bind_prog.simps
  proof (rule safe.safe_Call)
    fix used g1 w w' p
    assume le: "ghost_le g g1" and inv: "shared_inv stored used g1 w"
      and ids: "adds_file w w' \<longrightarrow> ids_new bound net used w"
      and f: "(map_option (map_prod id (\<lambda>p. bind_prog p cont)) \<circ> f) w = Some (w', p)"
    obtain q where q: "f w = Some (w', q)" "p = bind_prog q cont" using f by auto
    from safe_Call.IH [OF le inv ids q(1)] obtain g2 new where g2: "ghost_le g1 g2"
        "shared_inv stored (next_used bound net w w' used) g2 w'" "set new \<subseteq> A"
        "steps file_step (ghost_files g1 w) new (ghost_files g2 w')"
        "(\<And>g1 es1 a. ghost_le g2 g1 \<Longrightarrow> Q g1 es1 a \<Longrightarrow> safe stored net bound A R g1 es1 (cont a)) \<Longrightarrow>
          safe stored net bound A R g2 (es @ new) (bind_prog q cont)"
      by blast
    have "safe stored net bound A R pl es1 (cont a)" if "ghost_le g2 pl" "Q pl es1 a" for pl es1 a
      using safe_Call.prems that le g2(1) ghost_le_trans by blast
    with g2 show "\<exists>g2 new. ghost_le g1 g2 \<and> shared_inv stored (next_used bound net w w' used) g2 w'
        \<and> set new \<subseteq> A \<and> steps file_step (ghost_files g1 w) new (ghost_files g2 w')
        \<and> safe stored net bound A R g2 (es @ new) p"
      unfolding q(2) by blast
  qed
qed

lemma safe_result:
  assumes "safe stored net bound A Q g es p" "\<And>g1 es1 a. Q g1 es1 a \<Longrightarrow> R g1 es1 (h a)"
  shows "safe stored net bound A R g es (bind_prog p (Return \<circ> h))"
  by (rule safe_bind [OF assms(1)]) (simp add: safe.safe_Return assms(2))

lemma safe_call_partial:
  fixes f :: "'n world \<Rightarrow> ('a \<times> 'n world) option"
  assumes "\<And>used g1 w r w'. ghost_le g g1 \<Longrightarrow> shared_inv stored used g1 w \<Longrightarrow>
      (adds_file w w' \<longrightarrow> ids_new bound net used w) \<Longrightarrow> f w = Some (r, w') \<Longrightarrow>
      \<exists>g2 new. ghost_le g1 g2 \<and> shared_inv stored (next_used bound net w w' used) g2 w'
        \<and> set new \<subseteq> A \<and> steps file_step (ghost_files g1 w) new (ghost_files g2 w') \<and> Q g2 (es @ new) r"
  shows "safe stored net bound A Q g es (call_partial f)"
  unfolding call_partial_def
proof (rule safe.safe_Call)
  fix used g1 and w w' :: "'n world" and p :: "('n world, 'a) prog"
  assume le: "ghost_le g g1" and inv: "shared_inv stored used g1 w"
    and ids: "adds_file w w' \<longrightarrow> ids_new bound net used w"
    and "map_option (\<lambda>(r, w1). (w1, Return r)) (f w) = Some (w', p)"
  then obtain r where "f w = Some (r, w')" "p = Return r" by auto
  with assms [OF le inv ids] show "\<exists>g2 new. ghost_le g1 g2
      \<and> shared_inv stored (next_used bound net w w' used) g2 w' \<and> set new \<subseteq> A
      \<and> steps file_step (ghost_files g1 w) new (ghost_files g2 w') \<and> safe stored net bound A Q g2 (es @ new) p"
    by (auto intro: safe.safe_Return)
qed

text \<open>Calls that draw no ids, and those that change no file: at these a program may still have events (a
  query reads the map).\<close>

lemma shared_grow: "shared_inv stored used g w \<Longrightarrow> used \<subseteq> used' \<Longrightarrow> shared_inv stored used' g w"
  using engine_inv_extend(1) [of stored used "gh_payload g" w "gh_payload g" used']
  by (auto simp: shared_inv_def engine_inv_def)

lemma shared_used:
  fixes v v' w :: "'n world"
  shows "shared_inv stored used g w \<Longrightarrow> shared_inv stored (next_used bound net v v' used) g w"
  by (rule shared_grow) (auto simp: next_used_def)

lemma shared_quiet:
  assumes "shared_inv stored used g w" "quiet stored (gh_payload g) w w'"
  shows "shared_inv stored used g w'" "ghost_files g w' = ghost_files g w"
  using assms engine_inv_quiet [of stored used "gh_payload g" w w'] by (simp_all add: shared_inv_def quiet_def)

lemma shared_sound:
  "shared_inv stored used g w \<Longrightarrow> sound stored (gh_payload g) w \<and> meta_ok (w_meta w) \<and> payloads_small (gh_payload g)"
  by (simp add: shared_inv_def engine_inv_def sound_def)

lemma safe_call:
  assumes "\<And>used g1 w r w'. ghost_le g g1 \<Longrightarrow> shared_inv stored used g1 w \<Longrightarrow> f w = (r, w') \<Longrightarrow>
      shared_inv stored used g1 w' \<and> (\<exists>new. set new \<subseteq> A \<and> steps file_step (ghost_files g1 w) new (ghost_files g1 w') \<and> Q g1 (es @ new) r)"
  shows "safe stored net bound A Q g es (call f)"
  unfolding call_def
proof (rule safe_call_partial)
  fix used g1 w r w'
  assume le: "ghost_le g g1" and inv: "shared_inv stored used g1 w" and "Some (f w) = Some (r, w')"
  then obtain new where new: "shared_inv stored used g1 w'" "set new \<subseteq> A"
      "steps file_step (ghost_files g1 w) new (ghost_files g1 w')" "Q g1 (es @ new) r"
    using assms [OF le inv] by auto
  from shared_used [OF new(1)] new(2-4) ghost_le_refl [of g1]
  show "\<exists>g2 new. ghost_le g1 g2 \<and> shared_inv stored (next_used bound net w w' used) g2 w'
      \<and> set new \<subseteq> A \<and> steps file_step (ghost_files g1 w) new (ghost_files g2 w') \<and> Q g2 (es @ new) r"
    by blast
qed

lemma safe_query:
  assumes "\<And>used g1 w r w'. ghost_le g g1 \<Longrightarrow> shared_inv stored used g1 w \<Longrightarrow> f w = (r, w') \<Longrightarrow>
      quiet stored (gh_payload g1) w w' \<and> (\<exists>new. set new \<subseteq> A \<and> steps file_step (ghost_files g1 w) new (ghost_files g1 w) \<and> Q g1 (es @ new) r)"
  shows "safe stored net bound A Q g es (call f)"
proof (rule safe_call)
  fix used g1 w r w'
  assume le: "ghost_le g g1" and inv: "shared_inv stored used g1 w" and f: "f w = (r, w')"
  note q = assms [OF le inv f]
  from shared_quiet [OF inv conjunct1 [OF q]] q
  show "shared_inv stored used g1 w' \<and> (\<exists>new. set new \<subseteq> A \<and> steps file_step (ghost_files g1 w) new (ghost_files g1 w') \<and> Q g1 (es @ new) r)"
    by simp
qed

section \<open>Calm programs\<close>

text \<open>A program without events.\<close>

definition calm ::
  "('n \<Rightarrow> string \<Rightarrow> string \<Rightarrow> (string \<times> bytes) option) \<Rightarrow> 'n net \<Rightarrow> nat \<Rightarrow> (ghost \<Rightarrow> 'a \<Rightarrow> bool) \<Rightarrow> ghost
   \<Rightarrow> ('n world, 'a) prog \<Rightarrow> bool" where
  "calm stored net bound Q g p \<longleftrightarrow> (\<forall>A es. safe stored net bound A (\<lambda>g' es' r. es' = es \<and> Q g' r) g es p)"

lemma calm_Return: "Q g a \<Longrightarrow> calm stored net bound Q g (Return a)"
  by (simp add: calm_def safe.safe_Return)

lemma calm_then:
  assumes "calm stored net bound Q g p" "\<And>g1 a. ghost_le g g1 \<Longrightarrow> Q g1 a \<Longrightarrow> safe stored net bound A R g1 es (cont a)"
  shows "safe stored net bound A R g es (bind_prog p cont)"
proof -
  have "safe stored net bound A (\<lambda>g' es' r. es' = es \<and> Q g' r) g es p" using assms(1) unfolding calm_def by blast
  then show ?thesis by (rule safe_bind) (use assms(2) in blast)
qed

lemma calm_bind:
  assumes "calm stored net bound Q g p" "\<And>g1 a. ghost_le g g1 \<Longrightarrow> Q g1 a \<Longrightarrow> calm stored net bound R g1 (cont a)"
  shows "calm stored net bound R g (bind_prog p cont)"
  unfolding calm_def
proof (intro allI)
  fix A es
  show "safe stored net bound A (\<lambda>g' es' r. es' = es \<and> R g' r) g es (bind_prog p cont)"
    by (rule calm_then [OF assms(1)]) (use assms(2) in \<open>unfold calm_def, blast\<close>)
qed

lemma calm_call:
  assumes "\<And>used g1 w r w'. ghost_le g g1 \<Longrightarrow> shared_inv stored used g1 w \<Longrightarrow> f w = (r, w') \<Longrightarrow>
      quiet stored (gh_payload g1) w w' \<and> Q g1 r"
  shows "calm stored net bound Q g (call f)"
  unfolding calm_def
proof (intro allI, rule safe_query)
  fix A :: "event set" and es used g1 w r w'
  assume "ghost_le g g1" "shared_inv stored used g1 w" "f w = (r, w')"
  from assms [OF this] show "quiet stored (gh_payload g1) w w' \<and> (\<exists>new. set new \<subseteq> A
      \<and> steps file_step (ghost_files g1 w) new (ghost_files g1 w) \<and> es @ new = es \<and> Q g1 r)"
    by simp
qed

lemma calm_rpc:
  assumes "\<And>ev m. meta_ok m \<Longrightarrow> meta_ok (snd (h ev m)) \<and> file_shape (snd (h ev m)) = file_shape m" "\<And>g r. Q g r"
  shows "calm stored net bound Q g (call (rpc net h))"
proof (rule calm_call, intro conjI)
  fix used g1 w r w'
  assume inv: "shared_inv stored used g1 w" and r: "rpc net h w = (r, w')"
  have "sound stored (gh_payload g1) w" "meta_ok (w_meta w)" using shared_sound [OF inv] by blast+
  then show "quiet stored (gh_payload g1) w w'" using quiet_rpc [OF _ assms(1) r] by blast
qed (rule assms(2))

end
