(* ===== verification/Safe_Operations.thy ===== *)
theory Safe_Operations
  imports Safe_Programs
begin

text \<open>
  The operations of the client and of the managers are safe programs (\<open>Safe_Programs\<close>): uploads take effect when
  their object is created and may be undone by their own deletion, deletions when the object is
  removed, downloads read the map when they locate the object. Reads and writes of chunks, recoveries and repairs
  are calm: they have no event.
\<close>

section \<open>Deletions and queries\<close>

text \<open>A deletion of an object or a name removes one file or nothing.\<close>

lemma shared_removed:
  assumes inv: "shared_inv stored used g w" and ok: "meta_ok (w_meta w')" and st: "w_storage w' = w_storage w"
    and sh: "file_shape (w_meta w') = (file_shape (w_meta w))(f := None)"
  shows "shared_inv stored used g w'" "ghost_files g w' = (ghost_files g w)(f := None)"
proof -
  have shape: "file_shape (w_meta w) h = Some x" if "file_shape (w_meta w') h = Some x" for h x
    using that by (simp add: sh split: if_splits)
  then have "shapes_ok used (gh_payload g) (file_shape (w_meta w'))"
    using inv unfolding shared_inv_def engine_inv_def shapes_ok_def by blast
  then show "shared_inv stored used g w'" using inv ok st shape unfolding shared_inv_def engine_inv_def sound_def by simp
  show "ghost_files g w' = (ghost_files g w)(f := None)" using files_upd [OF sh, of "gh_payload g"] by simp
qed

lemma shared_delete:
  assumes inv: "shared_inv stored used g w" and ok: "meta_ok (w_meta w')" and st: "w_storage w' = w_storage w"
    and sh: "file_shape (w_meta w') = file_shape (w_meta w)
      \<or> file_shape (w_meta w) f \<noteq> None \<and> file_shape (w_meta w') = (file_shape (w_meta w))(f := None)"
  shows "shared_inv stored used g w' \<and> (\<exists>new. new \<in> {[], [Deleted f True]} \<and> steps file_step (ghost_files g w) new (ghost_files g w')
    \<and> (file_shape (w_meta w') = file_shape (w_meta w) \<or> new = [Deleted f True]))"
proof (cases "file_shape (w_meta w') = file_shape (w_meta w)")
  case True
  then have "quiet stored (gh_payload g) w w'"
    using ok st shared_sound [OF inv] by (simp add: quiet_def sound_def)
  from shared_quiet [OF inv this] True show ?thesis by (intro conjI exI [of _ "[]"]) simp_all
next
  case False
  then have f: "file_shape (w_meta w) f \<noteq> None" "file_shape (w_meta w') = (file_shape (w_meta w))(f := None)" using sh by simp_all
  note r = shared_removed [OF inv ok st f(2)]
  have "file_step (ghost_files g w) (Deleted f True) ((ghost_files g w)(f := None))"
    by (rule file_step.Remove) (use f(1) in \<open>simp add: files_None\<close>)
  with r show ?thesis by (intro conjI exI [of _ "[Deleted f True]"]) simp_all
qed

lemma safe_delete_name:
  assumes "Deleted f True \<in> A"
  shows "safe stored net bound A (\<lambda>_ es' r. es' = es @ [Deleted f True] \<or> es' = es \<and> (\<forall>st. r = Some st \<longrightarrow> \<not> sr_success st)) g es
    (call (rpc net (\<lambda>ev. DeleteObject ev [] f)))"
proof (rule safe_call)
  fix used g1 w r w'
  assume inv: "shared_inv stored used g1 w" and r: "rpc net (\<lambda>ev. DeleteObject ev [] f) w = (r, w')"
  have ok: "meta_ok (w_meta w)" using shared_sound [OF inv] by blast
  from r show "shared_inv stored used g1 w' \<and> (\<exists>new. set new \<subseteq> A \<and> steps file_step (ghost_files g1 w) new (ghost_files g1 w')
      \<and> (es @ new = es @ [Deleted f True] \<or> es @ new = es \<and> (\<forall>st. r = Some st \<longrightarrow> \<not> sr_success st)))"
  proof (cases rule: rpc_cases)
    case unsent
    then have "quiet stored (gh_payload g1) w w'" using shared_sound [OF inv] by (simp add: quiet_def sound_def)
    from shared_quiet [OF inv this] unsent(2) show ?thesis by (intro conjI exI [of _ "[]"]) simp_all
  next
    case (sent x m)
    note del = meta_DeleteObject_name [OF ok sent(1)]
    from shared_delete [OF inv, of w' f] del sent(2) obtain new where new: "shared_inv stored used g1 w'"
        "new \<in> {[], [Deleted f True]}" "steps file_step (ghost_files g1 w) new (ghost_files g1 w')"
        "file_shape m = file_shape (w_meta w) \<or> new = [Deleted f True]"
      by (auto split: if_splits)
    have "\<not> sr_success x" if "new = []"
    proof
      assume "sr_success x"
      then have "file_shape (w_meta w) f \<noteq> None" "file_shape m f = None" using del by simp_all
      then show False using new(4) that by simp
    qed
    then have "new = [Deleted f True] \<or> new = [] \<and> (\<forall>st. r = Some st \<longrightarrow> \<not> sr_success st)" using new(2) sent(3) by auto
    moreover have "set new \<subseteq> A" using new(2) assms by auto
    ultimately show ?thesis using new(1,3) by blast
  qed
qed

lemma safe_delete_id:
  assumes "Deleted f True \<in> A" "gh_names g i = Some f" "i \<noteq> []"
  shows "safe stored net bound A (\<lambda>_ es' _. es' = es \<or> es' = es @ [Deleted f True]) g es
    (call (rpc net (\<lambda>ev. DeleteObject ev i h)))"
proof (rule safe_call)
  fix used g1 w r w'
  assume le: "ghost_le g g1" and inv: "shared_inv stored used g1 w" and r: "rpc net (\<lambda>ev. DeleteObject ev i h) w = (r, w')"
  have ok: "meta_ok (w_meta w)" using shared_sound [OF inv] by blast
  from r show "shared_inv stored used g1 w' \<and> (\<exists>new. set new \<subseteq> A \<and> steps file_step (ghost_files g1 w) new (ghost_files g1 w')
      \<and> (es @ new = es \<or> es @ new = es @ [Deleted f True]))"
  proof (cases rule: rpc_cases)
    case unsent
    then have "quiet stored (gh_payload g1) w w'" using shared_sound [OF inv] by (simp add: quiet_def sound_def)
    from shared_quiet [OF inv this] show ?thesis by (intro conjI exI [of _ "[]"]) simp_all
  next
    case (sent x m)
    obtain b where "delete_object (n_env net (w_calls w)) i (w_meta w) = (b, m)"
      using sent(1) assms(3) by (auto simp: DeleteObject_def split: prod.splits)
    note del = meta_delete [OF ok this]
    have only: "a = f" if "file_shape (w_meta w) a = Some (i, y)" for a y
      using inv that extended_name [OF assms(2) le] unfolding shared_inv_def by (metis option.inject)
    have "file_shape m h = (if h = f \<and> (\<exists>y. file_shape (w_meta w) f = Some (i, y)) then None else file_shape (w_meta w) h)" for h
    proof (cases "file_shape (w_meta w) h")
      case None
      then show ?thesis by (simp add: del(2))
    next
      case (Some y)
      then obtain j x where y: "file_shape (w_meta w) h = Some (j, x)" by (cases y) auto
      show ?thesis
      proof (cases "j = i")
        case True
        with y only have "h = f" by blast
        with y True show ?thesis by (simp add: del(2))
      next
        case False
        with y show ?thesis by (auto simp: del(2))
      qed
    qed
    then have "file_shape m = file_shape (w_meta w)
        \<or> file_shape (w_meta w) f \<noteq> None \<and> file_shape m = (file_shape (w_meta w))(f := None)"
      by (cases "\<exists>y. file_shape (w_meta w) f = Some (i, y)") (auto simp: fun_eq_iff)
    from shared_delete [OF inv, of w' f] this del(1) sent(2) obtain new where "shared_inv stored used g1 w'"
        "new \<in> {[], [Deleted f True]}" "steps file_step (ghost_files g1 w) new (ghost_files g1 w')"
      by auto
    with assms(1) show ?thesis by (intro conjI exI [of _ new]) auto
  qed
qed

text \<open>What a located object says of the file: its chunks have payloads, and they make up its content.\<close>

definition located :: "string \<Rightarrow> ghost \<Rightarrow> event list \<Rightarrow> ObjectResponse option \<Rightarrow> bool" where
  "located f g new r \<longleftrightarrow> (case r of Some resp \<Rightarrow>
       if or_success resp then set (map cm_chunk_id (om_chunks (the (or_object resp)))) \<subseteq> dom (gh_payload g)
         \<and> new = [Downloaded f (Some (content (gh_payload g) (map cm_chunk_id (om_chunks (the (or_object resp))))))]
       else new = []
     | None \<Rightarrow> new = [])"

lemma safe_locate:
  assumes "range (\<lambda>d. Downloaded f (Some d)) \<subseteq> A"
  shows "safe stored net bound A (\<lambda>g es' r. \<exists>new. es' = es @ new \<and> located f g new r) g es
    (call (rpc net (readonly (LocateObject [] f))))"
proof (rule safe_query)
  fix used g1 w r w'
  assume inv: "shared_inv stored used g1 w" and r: "rpc net (readonly (LocateObject [] f)) w = (r, w')"
  let ?F = "ghost_files g1 w"
  have s: "sound stored (gh_payload g1) w" using shared_sound [OF inv] by blast
  note ro = quiet_readonly [OF s r]
  have "\<exists>new. set new \<subseteq> A \<and> steps file_step ?F new ?F \<and> located f g1 new r"
  proof (cases "\<exists>resp. r = Some resp \<and> or_success resp")
    case False
    then show ?thesis by (intro exI [of _ "[]"]) (auto simp: located_def split: option.split)
  next
    case True
    then obtain resp where resp: "r = Some resp" "or_success resp" by blast
    then have "resp = LocateObject [] f (w_meta w)" using ro(4) by auto
    then obtain obj where obj: "resp = \<lparr>or_success = True, or_message = [], or_object = Some (to_proto obj)\<rparr>"
        "file_shape (w_meta w) f = Some (oi_object_id obj, oi_size obj, map ci_chunk_id (oi_chunks obj))"
      using LocateObject_shape [of f "w_meta w"] resp(2) by metis
    have ids: "map cm_chunk_id (om_chunks (the (or_object resp))) = map ci_chunk_id (oi_chunks obj)"
      by (simp add: obj(1) to_proto_def chunk_to_proto_def comp_def)
    have "set (map ci_chunk_id (oi_chunks obj)) \<subseteq> dom (gh_payload g1)"
      using inv obj(2) unfolding shared_inv_def engine_inv_def shapes_ok_def by blast
    moreover have "?F f = Some (content (gh_payload g1) (map ci_chunk_id (oi_chunks obj)))" using obj(2) by (simp add: files_def)
    ultimately show ?thesis
      using assms resp(2) file_step.Download [of ?F f]
      by (intro exI [of _ "[Downloaded f (Some (content (gh_payload g1) (map ci_chunk_id (oi_chunks obj))))]"])
        (auto simp: located_def resp(1) ids)
  qed
  with ro(1) show "quiet stored (gh_payload g1) w w' \<and> (\<exists>new. set new \<subseteq> A \<and> steps file_step ?F new ?F
      \<and> (\<exists>new1. es @ new = es @ new1 \<and> located f g1 new1 r))"
    by blast
qed

lemma safe_event:
  assumes "\<And>used g1 w r w'. ghost_le g g1 \<Longrightarrow> shared_inv stored used g1 w \<Longrightarrow> f w = (r, w') \<Longrightarrow>
      quiet stored (gh_payload g1) w w' \<and> e r \<in> A \<and> file_step (ghost_files g1 w) (e r) (ghost_files g1 w)"
  shows "safe stored net bound A (\<lambda>_ es' r. es' = es @ [e r]) g es (call f)"
proof (rule safe_query)
  fix used g1 w r w'
  assume "ghost_le g g1" "shared_inv stored used g1 w" "f w = (r, w')"
  from assms [OF this] show "quiet stored (gh_payload g1) w w' \<and> (\<exists>new. set new \<subseteq> A
      \<and> steps file_step (ghost_files g1 w) new (ghost_files g1 w) \<and> es @ new = es @ [e r])"
    by (intro conjI exI [of _ "[e r]"]) simp_all
qed

lemma shared_engine: "shared_inv stored used g w \<Longrightarrow> engine_inv stored used (gh_payload g) w"
  by (simp add: shared_inv_def)

lemma safe_list:
  assumes "range (Listed pre) \<subseteq> A"
  shows "safe stored net bound A (\<lambda>_ es' r. es' = es @ [Listed pre (map (\<lambda>obj. (oi_filename obj, oi_size obj)) r)]) g es
    (call (client_list net pre))"
  by (rule safe_event, drule shared_engine, drule (1) list_files) (use assms in blast)

lemma safe_head:
  assumes "range (Headed f) \<subseteq> A"
  shows "safe stored net bound A (\<lambda>_ es' r. es' = es @ [Headed f (map_option oi_size r)]) g es (call (client_head net f))"
  by (rule safe_event, drule shared_engine, drule (1) head_files) (use assms in blast)

section \<open>Downloads and uploads\<close>

context storage_contract
begin

lemma calm_read_replicas:
  assumes api: "n_api net = api" and x: "gh_payload g cid = Some x"
  shows "calm stored net bound (\<lambda>_ r. r = None \<or> r = Some x) g (read_replicas_prog net cid c reps)"
  using x
proof (induction reps arbitrary: g)
  case Nil
  then show ?case by (simp add: calm_Return)
next
  case (Cons rep reps)
  let ?Q = "\<lambda>(_ :: ghost) (r :: (bool \<times> ChunkHeaderData \<times> bytes) option). \<forall>h d. r = Some (True, h, d) \<longrightarrow> d = x"
  have "calm stored net bound ?Q g (call (read_replica_call net cid rep))"
  proof (rule calm_call, intro conjI)
    fix used g1 w r w'
    assume le: "ghost_le g g1" and inv: "shared_inv stored used g1 w" and r: "read_replica_call net cid rep w = (r, w')"
    have s: "sound stored (gh_payload g1) w" using shared_sound [OF inv] by blast
    obtain n where rd: "sa_ReadChunk api (ri_address rep) cid (w_storage w) = (r, n)" and w': "w' = w\<lparr>w_storage := n\<rparr>"
      using r api by (auto simp: read_replica_call_def split: prod.splits)
    show "quiet stored (gh_payload g1) w w'" using read_frame [OF rd] by (intro quiet_same_storage [OF s]) (simp_all add: w')
    have "d = x" if "r = Some (True, h, d)" for h d
      using read_sound [of "ri_address rep" cid "w_storage w" h d n] rd that s extended [OF Cons.prems le]
      by (auto simp: sound_def truthful_def)
    then show "\<forall>h d. r = Some (True, h, d) \<longrightarrow> d = x" by blast
  qed
  then show ?case unfolding read_replicas_prog.simps
  proof (rule calm_bind)
    fix g1 r assume le: "ghost_le g g1" and r: "?Q g1 r"
    have IH: "calm stored net bound (\<lambda>_ r. r = None \<or> r = Some x) g1 (read_replicas_prog net cid c reps)"
      by (rule Cons.IH) (rule extended [OF Cons.prems le])
    show "calm stored net bound (\<lambda>_ r. r = None \<or> r = Some x) g1 (case r of
         Some (True, h, data) \<Rightarrow>
           if c \<noteq> [] \<and> ch_checksum h \<noteq> c then read_replicas_prog net cid c reps else Return (Some data)
       | _ \<Rightarrow> read_replicas_prog net cid c reps)"
      using r IH by (auto intro: calm_Return split: option.split bool.split)
  qed
qed

lemma calm_get_chunks:
  assumes "n_api net = api" "set (map cm_chunk_id cps) \<subseteq> dom (gh_payload g)"
  shows "calm stored net bound (\<lambda>_ (err, data). err = None \<longrightarrow> data = acc @ content (gh_payload g) (map cm_chunk_id cps)) g
    (get_chunks_prog net cps acc)"
  using assms(2)
proof (induction cps arbitrary: acc g)
  case Nil
  then show ?case by (simp add: calm_Return content_def)
next
  case (Cons cp cps)
  let ?cid = "cm_chunk_id cp"
  let ?Q = "\<lambda>g (_ :: ghost) (err, data). err = None \<longrightarrow> data = acc @ content (gh_payload g) (map cm_chunk_id (cp # cps))"
  obtain x where x: "gh_payload g ?cid = Some x" using Cons.prems by auto
  have id: "ci_chunk_id (from_proto cp) = ?cid" by (simp add: from_proto_def)
  show ?case unfolding get_chunks_prog.simps Let_def id
  proof (rule calm_bind [OF calm_read_replicas [of net g ?cid x, OF assms(1) x]])
    fix g1 and r :: "bytes option" assume le: "ghost_le g g1" and r: "r = None \<or> r = Some x"
    show "calm stored net bound (?Q g) g1
      (case r of None \<Rightarrow> Return (Some ?cid, acc) | Some data \<Rightarrow> get_chunks_prog net cps (acc @ data))"
    proof (cases r)
      case None
      then show ?thesis by (simp add: calm_Return)
    next
      case (Some d)
      have "set (map cm_chunk_id cps) \<subseteq> dom (gh_payload g)" using Cons.prems by simp
      moreover have le': "gh_payload g \<subseteq>\<^sub>m gh_payload g1" using le by (simp add: ghost_le_def)
      ultimately have "set (map cm_chunk_id cps) \<subseteq> dom (gh_payload g1)"
          "content (gh_payload g1) (map cm_chunk_id cps) = content (gh_payload g) (map cm_chunk_id cps)"
        using map_le_implies_dom_le [OF le'] content_extend [OF _ le'] by blast+
      then show ?thesis using Cons.IH [of g1 "acc @ d"] Some r x by (simp add: content_def)
    qed
  qed
qed

lemma safe_get:
  assumes api: "n_api net = api" and A: "range (\<lambda>d. Downloaded f (Some d)) \<subseteq> A"
  shows "safe stored net bound A (\<lambda>_ es' r. if gr_success r then es' = es @ [Downloaded f (Some (gr_data r))]
      else es' = es \<or> (\<exists>d. es' = es @ [Downloaded f (Some d)])) g es (get_prog net f)"
    (is "safe _ _ _ _ ?Q _ _ _")
  unfolding get_prog_def
proof (rule safe_bind [OF safe_locate [OF A]])
  fix g1 es1 r assume loc: "\<exists>new. es1 = es @ new \<and> located f g1 new r"
  show "safe stored net bound A ?Q g1 es1 (case r of
         None \<Rightarrow> Return (get_failed ''Object not found'')
       | Some resp \<Rightarrow>
           if \<not> or_success resp then Return (get_failed ''Object not found'')
           else let obj = the (or_object resp);
                    md = ObjectInfo_default\<lparr>oi_object_id := om_object_id obj, oi_filename := om_filename obj,
                           oi_size := om_size obj, oi_chunks := replicate (length (om_chunks obj)) ChunkInfo_default\<rparr>
             in bind_prog (get_chunks_prog net (om_chunks obj) []) (\<lambda>(err, data). Return (case err of
                  Some cid \<Rightarrow> \<lparr>gr_success = False, gr_data = data, gr_metadata = md,
                                gr_message = ''Failed to read chunk '' @ cid\<rparr>
                | None \<Rightarrow> \<lparr>gr_success = True, gr_data = data, gr_metadata = md, gr_message = ''Download complete''\<rparr>)))"
  proof (cases "\<exists>resp. r = Some resp \<and> or_success resp")
    case False
    then show ?thesis using loc by (auto intro: safe.safe_Return simp: get_failed_def located_def split: option.split)
  next
    case True
    then obtain resp where resp: "r = Some resp" "or_success resp" by blast
    let ?cms = "om_chunks (the (or_object resp))"
    have l: "set (map cm_chunk_id ?cms) \<subseteq> dom (gh_payload g1)"
        "es1 = es @ [Downloaded f (Some (content (gh_payload g1) (map cm_chunk_id ?cms)))]"
      using loc resp by (auto simp: located_def)
    show ?thesis unfolding resp(1) option.case Let_def if_not_P [OF not_not [THEN iffD2, OF resp(2)]]
      by (rule calm_then [OF calm_get_chunks [OF api l(1)]]) (use l(2) in \<open>auto intro: safe.safe_Return split: option.split\<close>)
  qed
qed

lemma calm_put_replicas:
  assumes api: "n_api net = api" and oid: "length oid < 2 ^ 32" and x: "gh_payload g (ci_chunk_id chunk) = Some data"
  shows "calm stored net bound (\<lambda>_ _. True) g (put_replicas_prog net chunk data oid nodes reps)"
  using x
proof (induction nodes arbitrary: reps g)
  case Nil
  then show ?case by (simp add: calm_Return)
next
  case (Cons node nodes)
  have "calm stored net bound (\<lambda>_ _. True) g (call (write_chunk_to_node net (cn_address node) chunk data oid))"
  proof (rule calm_call)
    fix used g1 w r w'
    assume le: "ghost_le g g1" and inv: "shared_inv stored used g1 w"
      and r: "write_chunk_to_node net (cn_address node) chunk data oid w = (r, w')"
    have s: "sound stored (gh_payload g1) w" "payloads_small (gh_payload g1)" using shared_sound [OF inv] by blast+
    from quiet_write [OF api s(2) extended [OF Cons.prems le] oid s(1) r] show "quiet stored (gh_payload g1) w w' \<and> True" by simp
  qed
  then show ?case unfolding put_replicas_prog.simps
    by (rule calm_bind) (rule Cons.IH, rule extended [of g _ data], rule Cons.prems)
qed

lemma safe_put_chunks:
  assumes api: "n_api net = api" and oid: "length oid < 2 ^ 32" "oid \<noteq> []" and A: "Deleted f True \<in> A"
    and "gh_names g oid = Some f" "list_all2 (\<lambda>cm p. gh_payload g (cm_chunk_id cm) = Some p) cms (pieces data offset cms)"
  shows "safe stored net bound A (\<lambda>_ es' err. es' = es \<or> err \<noteq> None \<and> es' = es @ [Deleted f True]) g es
    (put_chunks_prog net oid data offset cms)"
    (is "safe _ _ _ _ ?Q _ _ _")
  using assms(5,6)
proof (induction cms arbitrary: offset g)
  case Nil
  then show ?case by (simp add: safe.safe_Return)
next
  case (Cons cm rest)
  define piece where "piece = (if 0 < cm_size cm then take (unat (cm_size cm)) (drop (unat offset) data) else [])"
  let ?c = "\<lparr>ci_chunk_id = cm_chunk_id cm, ci_object_id = oid, ci_chunk_index = cm_chunk_index cm,
    ci_size = cm_size cm, ci_checksum = sha256 piece, ci_version = 1, ci_replicas = []\<rparr>"
  have x: "gh_payload g (cm_chunk_id cm) = Some piece"
      and rest: "list_all2 (\<lambda>cm p. gh_payload g (cm_chunk_id cm) = Some p) rest (pieces data (offset + cm_size cm) rest)"
    using Cons.prems(2) by (simp_all add: piece_def)
  have next_chunks: "safe stored net bound A ?Q g1 es (put_chunks_prog net oid data (offset + cm_size cm) rest)"
    if "ghost_le g g1" for g1
    by (rule Cons.IH, rule extended_name [OF Cons.prems(1) that], rule list_all2_mono [OF rest], rule extended [OF _ that])
  have upd: "calm stored net bound (\<lambda>_ _. True) g1
      (call (rpc net (\<lambda>ev. UpdateChunk ev oid (chunk_to_proto (?c\<lparr>ci_replicas := reps\<rparr>)))))" for g1 reps
    by (rule calm_rpc) (use meta_UpdateChunk oid in \<open>simp_all add: chunk_to_proto_def\<close>)
  show ?case unfolding put_chunks_prog.simps Let_def piece_def [symmetric]
  proof (rule calm_then [OF calm_rpc [where Q = "\<lambda>_ _. True", OF meta_SelectNodes TrueI]])
    fix g1 sel assume le: "ghost_le g g1"
    show "safe stored net bound A ?Q g1 es (case sel of
           None \<Rightarrow> Return (Some ''Node selection failed'')
         | Some nodes \<Rightarrow> bind_prog (put_replicas_prog net ?c piece oid nodes []) (\<lambda>reps.
             if word_of_nat (length reps) < required_acks (cc_write_ack (n_cfg net)) (cc_replication_factor (n_cfg net))
             then bind_prog (call (rpc net (\<lambda>ev. DeleteObject ev oid [])))
               (\<lambda>_. Return (Some (''Failed to achieve replication quorum for chunk '' @ ci_chunk_id ?c)))
             else bind_prog (call (rpc net (\<lambda>ev. UpdateChunk ev oid (chunk_to_proto (?c\<lparr>ci_replicas := reps\<rparr>)))))
               (\<lambda>_. put_chunks_prog net oid data (offset + cm_size cm) rest)))"
    proof (cases sel)
      case None
      then show ?thesis by (simp add: safe.safe_Return)
    next
      case (Some nodes)
      have "gh_payload g1 (ci_chunk_id ?c) = Some piece" using extended [OF x le] by simp
      note reps = calm_put_replicas [OF api oid(1) this]
      show ?thesis unfolding Some option.case
      proof (rule calm_then [OF reps])
        fix g2 and reps :: "ReplicaInfo list" assume le2: "ghost_le g1 g2"
        have name: "gh_names g2 oid = Some f" by (rule extended_name [OF extended_name [OF Cons.prems(1) le] le2])
        have quorum_missed: "safe stored net bound A ?Q g2 es (bind_prog (call (rpc net (\<lambda>ev. DeleteObject ev oid [])))
            (\<lambda>_. Return (Some msg)))" for msg :: string
          by (rule safe_bind [OF safe_delete_id [OF A name oid(2)]]) (auto intro: safe.safe_Return)
        have recorded: "safe stored net bound A ?Q g2 es (bind_prog
            (call (rpc net (\<lambda>ev. UpdateChunk ev oid (chunk_to_proto (?c\<lparr>ci_replicas := reps\<rparr>)))))
            (\<lambda>_. put_chunks_prog net oid data (offset + cm_size cm) rest))"
          by (rule calm_then [OF upd]) (use next_chunks le le2 ghost_le_trans in blast)
        show "safe stored net bound A ?Q g2 es
            (if word_of_nat (length reps) < required_acks (cc_write_ack (n_cfg net)) (cc_replication_factor (n_cfg net))
             then bind_prog (call (rpc net (\<lambda>ev. DeleteObject ev oid [])))
               (\<lambda>_. Return (Some (''Failed to achieve replication quorum for chunk '' @ ci_chunk_id ?c)))
             else bind_prog (call (rpc net (\<lambda>ev. UpdateChunk ev oid (chunk_to_proto (?c\<lparr>ci_replicas := reps\<rparr>)))))
               (\<lambda>_. put_chunks_prog net oid data (offset + cm_size cm) rest))"
          using quorum_missed recorded by simp
      qed
    qed
  qed simp
qed

end

text \<open>The first call of an upload: it gives the new chunk ids their payloads and the new object id its name.\<close>

definition planned :: "string \<Rightarrow> bytes \<Rightarrow> ghost \<Rightarrow> event list \<Rightarrow> ObjectResponse option \<Rightarrow> bool" where
  "planned f data g new r \<longleftrightarrow> new \<in> {[], [Uploaded f data True]} \<and> (\<forall>resp. r = Some resp \<longrightarrow> or_success resp \<longrightarrow>
     new = [Uploaded f data True] \<and> length (om_object_id (the (or_object resp))) < 2 ^ 32
     \<and> om_object_id (the (or_object resp)) \<noteq> [] \<and> gh_names g (om_object_id (the (or_object resp))) = Some f
     \<and> list_all2 (\<lambda>cm p. gh_payload g (cm_chunk_id cm) = Some p) (om_chunks (the (or_object resp)))
         (pieces data 0 (om_chunks (the (or_object resp)))))"

lemma ids_fresh:
  assumes "ids_new bound net used w" "upload_fits bound net data"
  shows "fresh_ids used net data w" "drawn_ids net data w \<subseteq> new_ids bound net w"
proof -
  have bound: "max 1 (chunk_total (length data) (unat (mb_to_bytes (cc_chunk_size_mb (n_cfg net))))) \<le> bound"
    using assms(2) by (simp add: upload_fits_def)
  then show sub: "drawn_ids net data w \<subseteq> new_ids bound net w"
    unfolding drawn_ids_def new_ids_def by (intro image_mono) auto
  have "ids_distinct net data w"
    unfolding ids_distinct_def by (rule inj_on_subset [of _ "{0..bound}"]) (use bound assms(1) in \<open>auto simp: ids_new_def\<close>)
  then show "fresh_ids used net data w" using sub assms(1) by (auto simp: fresh_ids_def ids_new_def)
qed

lemma shared_created:
  assumes inv: "shared_inv stored used g w" and len: "length data < 2 ^ 64" and fresh: "fresh_ids used net data w"
    and c: "create_object (n_env net (w_calls w)) f (word_of_nat (length data)) rf owner
      (mb_to_bytes (cc_chunk_size_mb (n_cfg net))) (w_meta w) = Some (Some obj, m)"
    and w': "w_meta w' = m" "w_storage w' = w_storage w"
  shows "\<exists>g2. ghost_le g g2 \<and> shared_inv stored (used \<union> drawn_ids net data w) g2 w'
    \<and> file_step (ghost_files g w) (Uploaded f data True) (ghost_files g2 w') \<and> gh_names g2 (oi_object_id obj) = Some f
    \<and> list_all2 (\<lambda>cm p. gh_payload g2 (cm_chunk_id cm) = Some p) (map chunk_to_proto (oi_chunks obj))
        (pieces data 0 (map chunk_to_proto (oi_chunks obj)))"
proof -
  let ?oid = "env_uuid (n_env net (w_calls w)) 0" and ?used = "used \<union> drawn_ids net data w"
  let ?ids = "map ci_chunk_id (oi_chunks obj)" and ?cms = "map chunk_to_proto (oi_chunks obj)"
  have einv: "engine_inv stored used (gh_payload g) w" and names: "dom (gh_names g) \<subseteq> used"
      "\<And>h i x. file_shape (w_meta w) h = Some (i, x) \<Longrightarrow> gh_names g i = Some h"
    using inv unfolding shared_inv_def by blast+
  obtain pl where ext: "engine_inv stored ?used pl w" "files pl (w_meta w) = ghost_files g w"
      and pieces: "list_all2 (\<lambda>cm p. pl (cm_chunk_id cm) = Some p) ?cms (pieces data 0 ?cms)"
      and ids: "set ?ids \<subseteq> dom pl" "content pl ?ids = data" and le: "gh_payload g \<subseteq>\<^sub>m pl"
    by (rule upload_payloads [OF einv len fresh c])
  have oid: "?oid \<in> ?used" "?oid \<notin> used"
    using new_object_ids(6) [OF c len fresh] fresh by (auto simp: fresh_ids_def)
  have "meta_ok (w_meta w)" using shared_sound [OF inv] by blast
  note cr = meta_create [OF this fresh_object [OF einv oid(2)] c]
  define g2 where "g2 = \<lparr>gh_payload = pl, gh_names = (gh_names g)(?oid \<mapsto> f)\<rparr>"
  have "gh_names g ?oid = None" using names(1) oid(2) by blast
  then have "ghost_le g g2" using le by (simp add: g2_def ghost_le_def map_le_def dom_def)
  moreover have "shapes_ok ?used pl (file_shape m)"
    using ext(1) ids oid(1) by (auto simp: engine_inv_def shapes_ok_def cr(4) split: if_splits)
  then have "engine_inv stored ?used pl w'" using ext(1) cr(1) w' by (simp add: engine_inv_def sound_def)
  moreover have "gh_names g2 i = Some h" if "file_shape m h = Some (i, x)" for h i x
  proof (cases "h = f")
    case True
    then show ?thesis using that by (simp add: cr(4) g2_def)
  next
    case False
    then have "gh_names g i = Some h" using that names(2) by (simp add: cr(4))
    then show ?thesis using names(1) oid(2) by (auto simp: g2_def)
  qed
  moreover have "dom (gh_names g2) \<subseteq> ?used" using names(1) oid(1) by (auto simp: g2_def)
  ultimately have g2: "ghost_le g g2" "shared_inv stored ?used g2 w'" using w' by (simp_all add: shared_inv_def g2_def)
  have "files pl m = (ghost_files g w)(f \<mapsto> data)" using files_upd [OF cr(4), of pl] ids(2) ext(2) by simp
  moreover have "ghost_files g w f = None" using cr(2) by (simp add: files_None)
  ultimately have "file_step (ghost_files g w) (Uploaded f data True) (ghost_files g2 w')"
    using file_step.Upload [of "ghost_files g w" f data True] w' by (simp add: g2_def)
  with g2 pieces cr(3) show ?thesis by (intro exI [of _ g2]) (simp add: g2_def)
qed

lemma create_adds:
  assumes ok: "meta_ok m" and c: "create_object ev f sz rf owner cs m = Some (Some obj, m')"
  shows "file_shape m f = None" "file_shape m' f \<noteq> None"
proof -
  note new = create_object_SomeD [OF c]
  have "um_inv (ms_objects_by_id m)" using ok by (simp add: meta_ok_def ms_inv_def namespace_inv_def)
  then show "file_shape m' f \<noteq> None"
    using c create_object_simp [OF new(1,2), of ev rf owner] by (auto simp: file_shape_def locate_by_filename_def um_simps)
  show "file_shape m f = None" using new(1) by (simp add: file_shape_def locate_by_filename_def)
qed

lemma CreateObject_refused:
  assumes "CreateObject cfg ev f sz rf owner mb m = Some (resp, m')" "\<not> or_success resp"
  shows "m' = m"
  using assms by (auto simp: CreateObject_def create_object_def Let_def split: option.splits prod.splits if_splits bind_splits)

lemma safe_create:
  assumes fits: "upload_fits bound net data" and A: "Uploaded f data True \<in> A"
  shows "safe stored net bound A (\<lambda>g es' r. \<exists>new. es' = es @ new \<and> planned f data g new r) g es
    (call_partial (rpc_partial net (\<lambda>ev. CreateObject (n_cfg net) ev f
      (word_of_nat (length data)) (cc_replication_factor (n_cfg net)) owner (cc_chunk_size_mb (n_cfg net)))))"
proof (rule safe_call_partial)
  fix used g1 w r w'
  let ?create = "\<lambda>ev. CreateObject (n_cfg net) ev f (word_of_nat (length data)) (cc_replication_factor (n_cfg net)) owner
    (cc_chunk_size_mb (n_cfg net))"
  assume inv: "shared_inv stored used g1 w" and ids: "adds_file w w' \<longrightarrow> ids_new bound net used w"
    and r: "rpc_partial net ?create w = Some (r, w')"
  let ?goal = "\<exists>g2 new. ghost_le g1 g2 \<and> shared_inv stored (next_used bound net w w' used) g2 w' \<and> set new \<subseteq> A
    \<and> steps file_step (ghost_files g1 w) new (ghost_files g2 w') \<and> (\<exists>new1. es @ new = es @ new1 \<and> planned f data g2 new1 r)"
  have unchanged: ?goal if "w_meta w' = w_meta w" "w_storage w' = w_storage w" "\<forall>resp. r = Some resp \<longrightarrow> \<not> or_success resp"
  proof -
    have "quiet stored (gh_payload g1) w w'" using shared_sound [OF inv] that(1,2) by (simp add: quiet_def sound_def)
    note q = shared_quiet [OF inv this]
    from shared_used [OF q(1)] q(2) that(3) show ?goal
      by (intro exI [of _ g1] exI [of _ "[]"]) (simp add: planned_def)
  qed
  show ?goal
  proof (cases "n_fate net (w_calls w) = RequestLost")
    case True
    then show ?thesis using r by (intro unchanged) (auto simp: rpc_partial_def Let_def)
  next
    case False
    then obtain resp m where c: "?create (n_env net (w_calls w)) (w_meta w) = Some (resp, m)"
        and w': "w' = w\<lparr>w_calls := Suc (w_calls w), w_meta := m\<rparr>" "r = None \<or> r = Some resp"
      using r by (cases "n_fate net (w_calls w)") (auto simp: rpc_partial_def Let_def split: option.splits)
    show ?thesis
    proof (cases "or_success resp")
      case False
      then show ?thesis using CreateObject_refused [OF c] w' by (intro unchanged) auto
    next
      case True
      then obtain obj where obj: "create_object (n_env net (w_calls w)) f (word_of_nat (length data))
            (if cc_replication_factor (n_cfg net) > 0 then cc_replication_factor (n_cfg net) else cc_replication_factor (n_cfg net)) owner
            (mb_to_bytes (cc_chunk_size_mb (n_cfg net))) (w_meta w) = Some (Some obj, m)"
          and resp: "resp = \<lparr>or_success = True, or_message = [], or_object = Some (to_proto obj)\<rparr>"
        using c by (auto elim: CreateObject_cases)
      have "meta_ok (w_meta w)" using shared_sound [OF inv] by blast
      then have adds: "adds_file w w'" using create_adds [OF _ obj] w'(1) by (auto simp: adds_file_def)
      then have "ids_new bound net used w" using ids by simp
      note fr = ids_fresh [OF this fits]
      have len: "length data < 2 ^ 64" using fits by (simp add: upload_fits_def)
      from shared_created [OF inv len fr(1) obj, of w'] w'(1) obtain g2 where g2: "ghost_le g1 g2"
          "shared_inv stored (used \<union> drawn_ids net data w) g2 w'"
          "file_step (ghost_files g1 w) (Uploaded f data True) (ghost_files g2 w')" "gh_names g2 (oi_object_id obj) = Some f"
          "list_all2 (\<lambda>cm p. gh_payload g2 (cm_chunk_id cm) = Some p) (map chunk_to_proto (oi_chunks obj))
            (pieces data 0 (map chunk_to_proto (oi_chunks obj)))"
        by auto
      have "oi_object_id obj = env_uuid (n_env net (w_calls w)) 0" using create_object_SomeD(3) [OF obj] by (simp add: new_object_def)
      then have "planned f data g2 [Uploaded f data True] r"
        using g2(4,5) w'(2) by (auto simp: planned_def resp to_proto_def)
      moreover have "shared_inv stored (next_used bound net w w' used) g2 w'"
        by (rule shared_grow [OF g2(2)]) (use fr(2) adds in \<open>auto simp: next_used_def\<close>)
      ultimately show ?thesis using g2(1,3) A by (intro exI [of _ g2] exI [of _ "[Uploaded f data True]"]) simp
    qed
  qed
qed

context storage_contract
begin

lemma safe_put:
  assumes api: "n_api net = api" and fits: "upload_fits bound net data"
    and A: "Uploaded f data True \<in> A" "Deleted f True \<in> A"
  shows "safe stored net bound A (\<lambda>_ es' r. es' = es @ [Uploaded f data True]
      \<or> \<not> pr_success r \<and> (es' = es \<or> es' = es @ [Uploaded f data True, Deleted f True])) g es (put_prog net f data owner)"
    (is "safe _ _ _ _ ?Q _ _ _")
  unfolding put_prog_def
proof (rule safe_bind [OF safe_create [where f = f, OF fits A(1)]])
  fix g1 es1 r assume r: "\<exists>new. es1 = es @ new \<and> planned f data g1 new r"
  show "safe stored net bound A ?Q g1 es1 (case r of
         None \<Rightarrow> Return \<lparr>pr_success = False, pr_object_id = [], pr_message = ''CreateObject failed''\<rparr>
       | Some resp \<Rightarrow>
           if \<not> or_success resp
           then Return \<lparr>pr_success = False, pr_object_id = [],
                  pr_message = (if or_message resp = [] then ''CreateObject failed'' else or_message resp)\<rparr>
           else let obj = the (or_object resp)
             in bind_prog (put_chunks_prog net (om_object_id obj) data 0 (om_chunks obj)) (\<lambda>err. Return (case err of
                  Some msg \<Rightarrow> \<lparr>pr_success = False, pr_object_id = om_object_id obj, pr_message = msg\<rparr>
                | None \<Rightarrow> \<lparr>pr_success = True, pr_object_id = om_object_id obj, pr_message = ''Upload complete''\<rparr>)))"
  proof (cases "\<exists>resp. r = Some resp \<and> or_success resp")
    case False
    have "es1 = es \<or> es1 = es @ [Uploaded f data True]" using r by (auto simp: planned_def)
    with False show ?thesis by (auto intro: safe.safe_Return split: option.split)
  next
    case True
    then obtain resp where resp: "r = Some resp" "or_success resp" by blast
    let ?obj = "the (or_object resp)"
    have p: "es1 = es @ [Uploaded f data True]" "length (om_object_id ?obj) < 2 ^ 32" "om_object_id ?obj \<noteq> []"
        "gh_names g1 (om_object_id ?obj) = Some f"
        "list_all2 (\<lambda>cm p. gh_payload g1 (cm_chunk_id cm) = Some p) (om_chunks ?obj) (pieces data 0 (om_chunks ?obj))"
      using r resp by (auto simp: planned_def)
    note chunks = safe_put_chunks [OF api p(2,3) A(2) p(4,5)]
    show ?thesis unfolding resp(1) option.case Let_def if_not_P [OF not_not [THEN iffD2, OF resp(2)]]
      by (rule safe_bind [OF chunks]) (auto simp: p(1) intro: safe.safe_Return split: option.split)
  qed
qed

end

section \<open>Deletions and recovery\<close>

context deleting_storage
begin

lemma calm_delete_replicas:
  assumes "n_api net = api"
  shows "calm stored net bound (\<lambda>_ _. True) g (delete_replicas_prog net xs)"
proof (induction xs arbitrary: g)
  case Nil
  then show ?case by (simp add: calm_Return)
next
  case (Cons x xs)
  obtain addr cid where x: "x = (addr, cid)" by force
  show ?case unfolding x delete_replicas_prog.simps
  proof (rule calm_bind [OF calm_call [where Q = "\<lambda>_ _. True"]])
    fix used g1 w r w'
    assume inv: "shared_inv stored used g1 w"
      and "((), w\<lparr>w_storage := snd (sa_DeleteChunk (n_api net) addr cid (w_storage w))\<rparr>) = (r, w')"
    then have w': "w' = w\<lparr>w_storage := snd (sa_DeleteChunk api addr cid (w_storage w))\<rparr>" using assms by simp
    have "truthful_step stored (gh_payload g1) (w_storage w) (w_storage w')"
      using delete_only [of addr cid "w_storage w" "fst (sa_DeleteChunk api addr cid (w_storage w))" "w_storage w'"]
      by (auto simp: truthful_step_def w')
    then show "quiet stored (gh_payload g1) w w' \<and> True" using shared_sound [OF inv] by (simp add: quiet_storage w')
  qed (rule Cons.IH)
qed

lemma safe_delete:
  assumes api: "n_api net = api" and A: "Deleted f True \<in> A"
  shows "safe stored net bound A (\<lambda>_ es' ok. es' = es @ [Deleted f True] \<or> \<not> ok \<and> es' = es) g es (delete_prog net f)"
    (is "safe _ _ _ _ ?Q _ _ _")
  unfolding delete_prog_def
proof (rule calm_then [OF calm_rpc [where Q = "\<lambda>_ _. True"]])
  show "meta_ok (snd (readonly q ev m)) \<and> file_shape (snd (readonly q ev m)) = file_shape m" if "meta_ok m"
    for ev m and q :: "metadata_store \<Rightarrow> ObjectResponse"
    using that by (simp add: readonly_def)
  fix g1 r
  let ?named = "bind_prog (call (rpc net (\<lambda>ev. DeleteObject ev [] f))) (\<lambda>r. Return (case r of None \<Rightarrow> False | Some st \<Rightarrow> sr_success st))"
  have named: "safe stored net bound A ?Q g2 es ?named" for g2
    by (rule safe_bind [OF safe_delete_name [OF A]]) (auto intro: safe.safe_Return split: option.split)
  have "safe stored net bound A ?Q g1 es (bind_prog (delete_replicas_prog net xs) (\<lambda>_. ?named))" for xs
    by (rule calm_then [OF calm_delete_replicas [OF api]]) (rule named)
  then show "safe stored net bound A ?Q g1 es (case r of
         None \<Rightarrow> Return False
       | Some resp \<Rightarrow>
           if \<not> or_success resp then Return False
           else bind_prog (delete_replicas_prog net (replica_calls (om_chunks (the (or_object resp))))) (\<lambda>_. ?named))"
    by (simp add: safe.safe_Return split: option.split)
qed simp

end

context replica_storage
begin

lemma quiet_send_replica:
  assumes api: "n_api net = api" and d: "describes h d" and x: "payload (ch_chunk_id h) = Some d"
    and s: "sound stored payload w" and r: "send_replica net rm h d node w = (b, w')"
  shows "quiet stored payload w w'"
proof (rule quiet_storage [OF s])
  show "w_meta w' = w_meta w" using send_replica_frame(1) [of net rm h d node w] r by simp
  have "stored (w_storage w') a cid = stored (w_storage w) a cid \<or> stored (w_storage w') a cid = None
      \<or> (\<exists>p. payload cid = Some p \<and> stored (w_storage w') a cid = Some (sha256 p, p))" for a cid
  proof (cases "cid = ch_chunk_id h \<and> a = node_place rm node")
    case True
    then show ?thesis using send_replica_stored(1,2) [OF api d r] x by (cases b) auto
  next
    case False
    then show ?thesis using send_replica_stored(3) [OF api d r, of cid a] by auto
  qed
  then show "truthful_step stored payload (w_storage w) (w_storage w')" by (simp add: truthful_step_def)
qed

lemma calm_replicate_nodes:
  assumes api: "n_api net = api" and d: "describes h data" and x: "gh_payload g (ch_chunk_id h) = Some data"
  shows "calm stored net bound (\<lambda>_ _. True) g (replicate_nodes_prog net rm version h data nodes reps)"
  using x
proof (induction nodes arbitrary: reps g)
  case Nil
  then show ?case by (simp add: calm_Return)
next
  case (Cons node nodes)
  show ?case unfolding replicate_nodes_prog.simps
  proof (rule calm_bind [OF calm_call [where Q = "\<lambda>_ _. True"]])
    fix used g1 w r w'
    assume le: "ghost_le g g1" and inv: "shared_inv stored used g1 w"
      and r: "send_replica net rm h data node w = (r, w')"
    from quiet_send_replica [where payload = "gh_payload g1", OF api d extended [OF Cons.prems le] _ r] shared_sound [OF inv]
    show "quiet stored (gh_payload g1) w w' \<and> True" by blast
  qed (rule Cons.IH, rule extended [of g _ data], rule Cons.prems)
qed

lemma calm_select: "calm stored net bound (\<lambda>_ _. True) g (call (select_call net rf strategy))"
proof (rule calm_call)
  fix used g1 w r w'
  assume inv: "shared_inv stored used g1 w" and "select_call net rf strategy w = (r, w')"
  then obtain sel where r: "rpc net (\<lambda>ev. SelectNodes (n_cfg net) ev rf strategy) w = (sel, w')"
    by (auto simp: select_call_def split: prod.splits)
  have "sound stored (gh_payload g1) w" "meta_ok (w_meta w)" using shared_sound [OF inv] by blast+
  then show "quiet stored (gh_payload g1) w w' \<and> True" using quiet_rpc [OF _ meta_SelectNodes r] by blast
qed

lemma calm_replicate:
  assumes api: "n_api net = api" and oid: "length (ci_object_id chunk) < 2 ^ 32" and x: "gh_payload g (ci_chunk_id chunk) = Some data"
    and small: "length data < 2 ^ 64" "length (ci_chunk_id chunk) < 2 ^ 32"
  shows "calm stored net bound (\<lambda>_ _. True) g (replicate_chunk_prog net rm chunk data rf policy)"
  unfolding replicate_chunk_prog_def
proof (rule calm_bind [OF calm_select], clarify)
  fix g1 sel and now :: u64 assume le: "ghost_le g g1"
  let ?h = "\<lparr>ch_chunk_id = ci_chunk_id chunk, ch_object_id = ci_object_id chunk, ch_version = ci_version chunk,
    ch_size = word_of_nat (length data), ch_checksum = sha256 data, ch_created_at_ms = now\<rparr>"
  have h: "describes ?h data" "gh_payload g1 (ch_chunk_id ?h) = Some data"
    using oid small extended [OF x le] by (simp_all add: describes_def unat_of_nat take_bit_eq_mod)
  show "calm stored net bound (\<lambda>_ _. True) g1
      (if sel = None \<or> sel = Some [] then Return \<lparr>rr_success = False, rr_message = ''No available nodes'', rr_replicas = []\<rparr>
       else let header = ?h
         in bind_prog (replicate_nodes_prog net rm (ci_version chunk) header data (the sel) []) (\<lambda>reps.
           let success_count = word_of_nat (length reps) :: u32;
               required = required_acks policy rf;
               success = (required \<le> success_count)
           in Return \<lparr>rr_success = success,
                rr_message = (if success then ''Replication successful''
                  else ''Insufficient replicas ('' @ dec_string (unat success_count) @ ''/''
                       @ dec_string (unat required) @ '')''),
                rr_replicas = reps\<rparr>))"
    by (auto simp: Let_def intro!: calm_Return calm_bind [OF calm_replicate_nodes [where g = g1, OF api h]])
qed

text \<open>A chunk that was fetched is the payload of its id.\<close>

definition fetched :: "string \<Rightarrow> ghost \<Rightarrow> bytes option \<Rightarrow> bool" where
  "fetched cid g r \<longleftrightarrow> (\<forall>d. r = Some d \<longrightarrow> gh_payload g cid = Some d \<and> length d < 2 ^ 64 \<and> length cid < 2 ^ 32)"

lemma calm_fetch:
  assumes "n_api net = api"
  shows "calm stored net bound (fetched cid) g (fetch_prog net cid exclude reps)"
proof (induction reps arbitrary: g)
  case Nil
  then show ?case by (simp add: fetched_def calm_Return)
next
  case (Cons rep reps)
  have read: "calm stored net bound (fetched cid) g (call (read_from_replica net rep cid))"
  proof (rule calm_call)
    fix used g1 w r w'
    assume inv: "shared_inv stored used g1 w" and r: "read_from_replica net rep cid w = (r, w')"
    obtain rr n where rd: "sa_ReadChunk api (ri_address rep) cid (w_storage w) = (rr, n)" by force
    have w': "w' = w\<lparr>w_storage := n\<rparr>" and some: "r = Some d \<Longrightarrow> \<exists>h. rr = Some (True, h, d)" for d
      using r rd assms by (auto simp: read_from_replica_def split: option.splits bool.splits)
    have s: "sound stored (gh_payload g1) w" "payloads_small (gh_payload g1)" using shared_sound [OF inv] by blast+
    have "gh_payload g1 cid = Some d" if "r = Some d" for d
      using some [OF that] read_sound [of "ri_address rep" cid "w_storage w"] rd s(1) by (auto simp: sound_def truthful_def)
    then have "fetched cid g1 r" using s(2) by (auto simp: fetched_def payloads_small_def)
    moreover have "quiet stored (gh_payload g1) w w'" using read_frame [OF rd] by (intro quiet_same_storage [OF s(1)]) (simp_all add: w')
    ultimately show "quiet stored (gh_payload g1) w w' \<and> fetched cid g1 r" by simp
  qed
  have "calm stored net bound (fetched cid) g (bind_prog (call (read_from_replica net rep cid)) (\<lambda>r. case r of
      Some data \<Rightarrow> Return (Some data) | None \<Rightarrow> fetch_prog net cid exclude reps))"
    by (rule calm_bind [OF read]) (use Cons.IH in \<open>auto simp: calm_Return split: option.split\<close>)
  then show ?case using Cons.IH by simp
qed

lemma calm_recover_chunk:
  assumes api: "n_api net = api" and oid: "length (ci_object_id chunk) < 2 ^ 32"
  shows "calm stored net bound (\<lambda>_ _. True) g (recover_chunk_prog net cfg rm exclude chunk)"
  unfolding recover_chunk_prog_def
proof (rule calm_bind [OF calm_fetch [OF api]])
  fix g1 r assume le: "ghost_le g g1" and r: "fetched (ci_chunk_id chunk) g1 r"
  have upd: "calm stored net bound (\<lambda>_ _. True) pl (bind_prog (call (rpc net (\<lambda>ev. UpdateChunk ev (ci_object_id chunk)
      (chunk_to_proto (chunk\<lparr>ci_version := ci_version chunk + 1, ci_replicas := reps\<rparr>))))) (\<lambda>_. Return True))" for pl reps
    by (rule calm_bind [OF calm_rpc [where Q = "\<lambda>_ _. True", OF meta_UpdateChunk TrueI]])
      (use oid in \<open>simp_all add: chunk_to_proto_def calm_Return\<close>)
  have "calm stored net bound (\<lambda>_ _. True) g1
      (bind_prog (replicate_chunk_prog net rm chunk data (cc_replication_factor cfg) (cc_write_ack cfg)) (\<lambda>rep_result.
         if rr_success rep_result
         then bind_prog (call (rpc net (\<lambda>ev. UpdateChunk ev (ci_object_id chunk)
             (chunk_to_proto (chunk\<lparr>ci_version := ci_version chunk + 1, ci_replicas := rr_replicas rep_result\<rparr>)))))
           (\<lambda>_. Return True)
         else Return False))" if "r = Some data" for data
  proof -
    have "gh_payload g1 (ci_chunk_id chunk) = Some data" "length data < 2 ^ 64" "length (ci_chunk_id chunk) < 2 ^ 32"
      using r that by (auto simp: fetched_def)
    note rep = calm_replicate [where g = g1, OF api oid this]
    show ?thesis by (rule calm_bind [OF rep]) (use upd in \<open>simp add: calm_Return\<close>)
  qed
  then show "calm stored net bound (\<lambda>_ _. True) g1 (case r of
         None \<Rightarrow> Return False
       | Some data \<Rightarrow>
           bind_prog (replicate_chunk_prog net rm chunk data (cc_replication_factor cfg) (cc_write_ack cfg)) (\<lambda>rep_result.
             if rr_success rep_result
             then bind_prog (call (rpc net (\<lambda>ev. UpdateChunk ev (ci_object_id chunk)
                 (chunk_to_proto (chunk\<lparr>ci_version := ci_version chunk + 1, ci_replicas := rr_replicas rep_result\<rparr>)))))
               (\<lambda>_. Return True)
             else Return False))"
    by (simp add: calm_Return split: option.split)
qed

lemma calm_recover_chunks:
  assumes api: "n_api net = api" and "\<forall>pb \<in> set pbs. length (cm_object_id pb) < 2 ^ 32"
  shows "calm stored net bound (\<lambda>_ _. True) g (recover_chunks_prog net cfg rm exclude pbs recovered)"
  using assms(2)
proof (induction pbs arbitrary: recovered g)
  case Nil
  then show ?case by (simp add: calm_Return)
next
  case (Cons pb pbs)
  have "length (ci_object_id (from_proto pb)) < 2 ^ 32" using Cons.prems by (simp add: from_proto_def)
  note one = calm_recover_chunk [OF api this]
  show ?case unfolding recover_chunks_prog.simps
    by (rule calm_bind [OF one]) (use Cons in simp)
qed

definition reported :: "ChunkMetadata list option \<Rightarrow> bool" where
  "reported r \<longleftrightarrow> (\<forall>cs. r = Some cs \<longrightarrow> (\<forall>pb \<in> set cs. length (cm_object_id pb) < 2 ^ 32))"

lemma calm_query: "calm stored net bound (\<lambda>_ r. reported r) g (call (rpc net (readonly (GetUnderReplicatedChunks cfg))))"
proof (rule calm_call)
  fix used g1 w r w'
  assume inv: "shared_inv stored used g1 w" and r: "rpc net (readonly (GetUnderReplicatedChunks cfg)) w = (r, w')"
  have einv: "engine_inv stored used (gh_payload g1) w" using inv by (simp add: shared_inv_def)
  have "sound stored (gh_payload g1) w" using shared_sound [OF inv] by blast
  note ro = quiet_readonly [OF this r]
  have "reported r" using ro(4) under_replicated_known [OF einv] by (auto simp: reported_def)
  with ro(1) show "quiet stored (gh_payload g1) w w' \<and> reported r" by simp
qed

lemma calm_repair:
  assumes api: "n_api net = api"
  shows "calm stored net bound (\<lambda>_ _. True) g (repair_prog net cfg rm)"
  unfolding repair_prog_def
proof (rule calm_bind [OF calm_query])
  fix g1 and r :: "ChunkMetadata list option" assume r: "reported r"
  have "calm stored net bound (\<lambda>_ _. True) g1 (bind_prog (recover_chunks_prog net cfg rm [] cs 0) (\<lambda>recovered.
      Return \<lparr>rcv_success = True, rcv_chunks_recovered = recovered, rcv_message = ''Repair complete''\<rparr>))" if "r = Some cs" for cs
    by (rule calm_bind [OF calm_recover_chunks [OF api]]) (use r that in \<open>auto simp: reported_def intro: calm_Return\<close>)
  then show "calm stored net bound (\<lambda>_ _. True) g1 (case r of
         None \<Rightarrow> Return \<lparr>rcv_success = False, rcv_chunks_recovered = 0, rcv_message = ''Failed to query under-replicated chunks''\<rparr>
       | Some cs \<Rightarrow> bind_prog (recover_chunks_prog net cfg rm [] cs 0) (\<lambda>recovered.
           Return \<lparr>rcv_success = True, rcv_chunks_recovered = recovered, rcv_message = ''Repair complete''\<rparr>))"
    by (simp add: calm_Return split: option.split)
qed

lemma calm_recover_failed:
  assumes api: "n_api net = api"
  shows "calm stored net bound (\<lambda>_ _. True) g (recover_failed_prog net cfg rm failed)"
  unfolding recover_failed_prog_def
proof (rule calm_bind [OF calm_rpc [where Q = "\<lambda>_ _. True", OF meta_registry(3) TrueI]], assumption, rule calm_bind [OF calm_query])
  fix g1 and r :: "ChunkMetadata list option" assume "reported r"
  then have "\<forall>pb \<in> set (case r of None \<Rightarrow> [] | Some cs \<Rightarrow> cs). length (cm_object_id pb) < 2 ^ 32"
    by (cases r) (simp_all add: reported_def)
  note chunks = calm_recover_chunks [OF api this]
  show "calm stored net bound (\<lambda>_ _. True) g1 (bind_prog (recover_chunks_prog net cfg rm failed
      (case r of None \<Rightarrow> [] | Some cs \<Rightarrow> cs) 0) (\<lambda>recovered.
        Return \<lparr>rcv_success = True, rcv_chunks_recovered = recovered, rcv_message = ''Recovery complete''\<rparr>))"
    by (rule calm_bind [OF chunks]) (simp add: calm_Return)
qed

end

section \<open>Operations\<close>

context deleting_storage
begin

lemma safe_op:
  assumes api: "n_api net = api" and fits: "\<And>f data owner. op = PutOp f data owner \<Longrightarrow> upload_fits bound net data"
  shows "safe stored net bound (own_events op) (\<lambda>_ es r. explained op es r) g [] (op_prog net op)"
proof (cases op)
  case (PutOp f data owner)
  note put = safe_put [OF api fits [OF PutOp], where f = f and A = "own_events op" and es = "[]"]
  show ?thesis unfolding PutOp op_prog.simps own_events.simps
    by (rule safe_result [OF put [unfolded PutOp own_events.simps]]) auto
next
  case (GetOp f)
  show ?thesis unfolding GetOp op_prog.simps own_events.simps
    by (rule safe_result [OF safe_get [OF api, where es = "[]"]]) (auto split: if_splits)
next
  case (DeleteOp f)
  show ?thesis unfolding DeleteOp op_prog.simps own_events.simps
    by (rule safe_result [OF safe_delete [OF api, where es = "[]"]]) auto
next
  case (ListOp pre)
  show ?thesis unfolding ListOp op_prog.simps own_events.simps
    by (rule safe_result [OF safe_list [where es = "[]"]]) auto
next
  case (HeadOp f)
  show ?thesis unfolding HeadOp op_prog.simps own_events.simps
    by (rule safe_result [OF safe_head [where es = "[]"]]) auto
next
  case (RecoverOp cfg rm failed)
  show ?thesis unfolding RecoverOp op_prog.simps own_events.simps
    by (rule calm_then [OF calm_recover_failed [OF api]]) (simp add: safe.safe_Return)
next
  case (RepairOp cfg rm)
  show ?thesis unfolding RepairOp op_prog.simps own_events.simps
    by (rule calm_then [OF calm_repair [OF api]]) (simp add: safe.safe_Return)
qed

end

end
