(* ===== verification/Interleaving.thy ===== *)
theory Interleaving
  imports Safe_Operations
begin

text \<open>
  The engine with any number of operations at once. Each operation is a program of calls
  (\<open>Client_Programs\<close>); the calls of all of them interleave freely, with calls lost, stored chunks lost,
  nodes registering, sending heartbeats and leaders announced in between. Since every program is safe
  (\<open>Safe_Operations\<close>), the operations of every run linearise: each takes effect on the map of files at one of
  its own calls.
\<close>

section \<open>Definitions\<close>

record 'n system =
  sy_progs :: "('n world, client_result) prog list"
  sy_used :: "string set"
  sy_world :: "'n world"

text \<open>The label says which operation moves. Each operation runs in a process with its own configuration and
  connections (\<open>nets\<close>). A call that adds a file draws new ids.\<close>

inductive system_step ::
  "('n \<Rightarrow> string \<Rightarrow> string \<Rightarrow> (string \<times> bytes) option) \<Rightarrow> (nat \<Rightarrow> 'n net) \<Rightarrow> nat \<Rightarrow> 'n system \<Rightarrow> nat option \<Rightarrow> 'n system \<Rightarrow> bool"
  for stored nets bound where
  Calls: "i < length (sy_progs s) \<Longrightarrow> sy_progs s ! i = Call f \<Longrightarrow> f (sy_world s) = Some (w, p) \<Longrightarrow>
    (adds_file (sy_world s) w \<longrightarrow> ids_new bound (nets i) (sy_used s) (sy_world s)) \<Longrightarrow>
    system_step stored nets bound s (Some i) \<lparr>sy_progs = (sy_progs s)[i := p],
      sy_used = next_used bound (nets i) (sy_world s) w (sy_used s), sy_world = w\<rparr>"
| Registers: "register_with_metadata net address total_bytes h (sy_world s) = w \<Longrightarrow>
    system_step stored nets bound s None (s\<lparr>sy_world := w\<rparr>)"
| Beats: "heartbeat_beat net h (sy_world s) = (ok, w) \<Longrightarrow> system_step stored nets bound s None (s\<lparr>sy_world := w\<rparr>)"
| Leads: "system_step stored nets bound s None
    (s\<lparr>sy_world := (sy_world s)\<lparr>w_meta := set_leader ev leader gen (w_meta (sy_world s))\<rparr>\<rparr>)"
| Loses: "(\<And>addr cid. stored n addr cid \<in> {stored (w_storage (sy_world s)) addr cid, None}) \<Longrightarrow>
    system_step stored nets bound s None (s\<lparr>sy_world := (sy_world s)\<lparr>w_storage := n\<rparr>\<rparr>)"

text \<open>The operations start on an empty engine.\<close>

definition system_start :: "(nat \<Rightarrow> 'n net) \<Rightarrow> client_op list \<Rightarrow> string \<Rightarrow> bool \<Rightarrow> string option \<Rightarrow> 'n \<Rightarrow> nat \<Rightarrow> 'n system" where
  "system_start nets ops path readable snapshot n i =
     \<lparr>sy_progs = map (\<lambda>j. op_prog (nets j) (ops ! j)) [0..<length ops], sy_used = {},
      sy_world = \<lparr>w_meta = MetadataStore path readable snapshot, w_storage = n, w_calls = i\<rparr>\<rparr>"

text \<open>A log says which events each step of a run had.\<close>

type_synonym log = "(nat option \<times> event list) list"

definition log_history :: "log \<Rightarrow> event list" where
  "log_history log = concat (map snd log)"

definition own :: "nat \<Rightarrow> log \<Rightarrow> event list" where
  "own i log = concat (map snd (filter (\<lambda>x. fst x = Some i) log))"

definition log_ok :: "client_op list \<Rightarrow> log \<Rightarrow> bool" where
  "log_ok ops log \<longleftrightarrow> (\<forall>x \<in> set log. case fst x of None \<Rightarrow> snd x = [] | Some i \<Rightarrow> set (snd x) \<subseteq> own_events (ops ! i))"

fun settled :: "client_op \<Rightarrow> event list \<Rightarrow> ('w, client_result) prog \<Rightarrow> bool" where
  "settled op es (Return r) \<longleftrightarrow> explained op es r"
| "settled op es (Call f) \<longleftrightarrow> True"

lemma log_snoc [simp]:
  "log_history (log @ [(who, es)]) = log_history log @ es"
  "own i (log @ [(who, es)]) = (if who = Some i then own i log @ es else own i log)"
  "log_ok ops (log @ [(None, [])]) = log_ok ops log"
  "log_ok ops (log @ [(Some i, es)]) \<longleftrightarrow> log_ok ops log \<and> set es \<subseteq> own_events (ops ! i)"
  by (auto simp: log_history_def own_def log_ok_def)

lemma log_Nil [simp]: "log_history [] = []" "own i [] = []" "log_ok ops []"
  by (simp_all add: log_history_def own_def log_ok_def)

section \<open>The invariant\<close>

definition system_inv ::
  "('n \<Rightarrow> string \<Rightarrow> string \<Rightarrow> (string \<times> bytes) option) \<Rightarrow> (nat \<Rightarrow> 'n net) \<Rightarrow> nat \<Rightarrow> client_op list
   \<Rightarrow> ghost \<Rightarrow> log \<Rightarrow> 'n system \<Rightarrow> bool" where
  "system_inv stored nets bound ops g log s \<longleftrightarrow>
     shared_inv stored (sy_used s) g (sy_world s) \<and> length (sy_progs s) = length ops
     \<and> (\<forall>i < length ops. safe stored (nets i) bound (own_events (ops ! i)) (\<lambda>_ es r. explained (ops ! i) es r) g (own i log) (sy_progs s ! i))
     \<and> steps file_step Map.empty (log_history log) (ghost_files g (sy_world s)) \<and> log_ok ops log"

lemma system_inv_quiet:
  assumes "system_inv stored nets bound ops g log s" "quiet stored (gh_payload g) (sy_world s) w"
  shows "\<exists>g' es. system_inv stored nets bound ops g' (log @ [(None, es)]) (s\<lparr>sy_world := w\<rparr>)"
  using assms shared_quiet [of stored "sy_used s" g "sy_world s" w]
  by (intro exI [of _ g] exI [of _ "[]"]) (simp add: system_inv_def)

lemma system_inv_call:
  assumes inv: "system_inv stored nets bound ops g log s" and i: "i < length (sy_progs s)" "sy_progs s ! i = Call f"
    and f: "f (sy_world s) = Some (w, p)" and ids: "adds_file (sy_world s) w \<longrightarrow> ids_new bound (nets i) (sy_used s) (sy_world s)"
  shows "\<exists>g' es. system_inv stored nets bound ops g' (log @ [(Some i, es)])
    \<lparr>sy_progs = (sy_progs s)[i := p], sy_used = next_used bound (nets i) (sy_world s) w (sy_used s), sy_world = w\<rparr>"
proof -
  let ?safe = "\<lambda>g j es p. safe stored (nets j) bound (own_events (ops ! j)) (\<lambda>_ es r. explained (ops ! j) es r) g es p"
  have sh: "shared_inv stored (sy_used s) g (sy_world s)" using inv by (simp add: system_inv_def)
  have call: "?safe g i (own i log) (Call f)" using inv i unfolding system_inv_def by metis
  obtain g2 new where g2: "ghost_le g g2" "shared_inv stored (next_used bound (nets i) (sy_world s) w (sy_used s)) g2 w"
      "set new \<subseteq> own_events (ops ! i)" "steps file_step (ghost_files g (sy_world s)) new (ghost_files g2 w)"
      "?safe g2 i (own i log @ new) p"
    using safe_CallD [OF call ghost_le_refl sh ids f] by blast
  have "?safe g2 j (own j log) (sy_progs s ! j)" if "j < length ops" for j
    by (rule safe_mono [OF _ g2(1)]) (use inv that in \<open>simp_all add: system_inv_def\<close>)
  then have "?safe g2 j (own j (log @ [(Some i, new)])) ((sy_progs s)[i := p] ! j)" if "j < length ops" for j
    using g2(5) that by (cases "j = i") (simp_all add: nth_list_update i(1))
  moreover have "steps file_step Map.empty (log_history log @ new) (ghost_files g2 w)"
    using inv g2(4) unfolding system_inv_def steps_append by blast
  ultimately have "system_inv stored nets bound ops g2 (log @ [(Some i, new)])
      \<lparr>sy_progs = (sy_progs s)[i := p], sy_used = next_used bound (nets i) (sy_world s) w (sy_used s), sy_world = w\<rparr>"
    using g2(2,3) inv by (simp add: system_inv_def)
  then show ?thesis by blast
qed

lemma system_inv_step:
  assumes inv: "system_inv stored nets bound ops g log s" and step: "system_step stored nets bound s who s'"
  shows "\<exists>g' es. system_inv stored nets bound ops g' (log @ [(who, es)]) s'"
proof -
  have s: "sound stored (gh_payload g) (sy_world s)" "meta_ok (w_meta (sy_world s))"
    using inv shared_sound [of stored "sy_used s" g "sy_world s"] by (auto simp: system_inv_def)
  note quiet = system_inv_quiet [OF inv]
  from step show ?thesis
  proof cases
    case (Calls i f w p)
    from system_inv_call [OF inv Calls(3-6)] show ?thesis unfolding Calls(1,2) .
  next
    case (Registers address total_bytes h w)
    from quiet [OF quiet_register [OF s(1)]] show ?thesis unfolding Registers(1,2) Registers(3) [symmetric] .
  next
    case (Beats h ok w)
    from quiet [OF quiet_beat [OF s(1) Beats(3)]] show ?thesis unfolding Beats(1,2) .
  next
    case (Leads ev leader gen)
    have "quiet stored (gh_payload g) (sy_world s) ((sy_world s)\<lparr>w_meta := set_leader ev leader gen (w_meta (sy_world s))\<rparr>)"
      using meta_registry(4) s by (simp add: quiet_def sound_def)
    from quiet [OF this] show ?thesis unfolding Leads .
  next
    case (Loses n)
    have "truthful_step stored (gh_payload g) (w_storage (sy_world s)) n" using Loses(3) by (auto simp: truthful_step_def)
    then have "quiet stored (gh_payload g) (sy_world s) ((sy_world s)\<lparr>w_storage := n\<rparr>)" by (intro quiet_storage [OF s(1)]) simp_all
    from quiet [OF this] show ?thesis unfolding Loses(1,2) .
  qed
qed

lemma system_inv_steps:
  assumes "steps (system_step stored nets bound) s movers s'" "system_inv stored nets bound ops g log s"
  shows "\<exists>g' log'. map fst log' = map fst log @ movers \<and> system_inv stored nets bound ops g' log' s'"
  using assms
proof (induction arbitrary: g log rule: steps.induct)
  case (steps_Nil s)
  then show ?case by auto
next
  case (steps_Cons s who s1 movers s2)
  obtain g1 es where one: "system_inv stored nets bound ops g1 (log @ [(who, es)]) s1"
    using system_inv_step [OF steps_Cons.prems steps_Cons.hyps(1)] by blast
  from steps_Cons.IH [OF one] show ?case by auto
qed

context deleting_storage
begin

lemma system_inv_start:
  assumes "\<And>j. n_api (nets j) = api" "uploads_fit bound nets ops" "\<And>addr cid. stored n addr cid = None"
  shows "\<exists>g. system_inv stored nets bound ops g [] (system_start nets ops path readable snapshot n i)"
proof -
  from engine_start [of stored n path readable snapshot i, OF assms(3)]
  obtain payload where inv: "engine_inv stored {} payload \<lparr>w_meta = MetadataStore path readable snapshot, w_storage = n, w_calls = i\<rparr>"
      "Map.empty = files payload (MetadataStore path readable snapshot)"
    by (auto simp: engine_related_def)
  let ?g = "\<lparr>gh_payload = payload, gh_names = Map.empty\<rparr>"
  have "file_shape (MetadataStore path readable snapshot) f = None" for f
    using fun_cong [OF inv(2), of f] files_None [of payload "MetadataStore path readable snapshot" f] by simp
  moreover have "safe stored (nets j) bound (own_events (ops ! j)) (\<lambda>_ es r. explained (ops ! j) es r) ?g [] (op_prog (nets j) (ops ! j))"
    if "j < length ops" for j
  proof (rule safe_op [OF assms(1)])
    fix f data owner assume "ops ! j = PutOp f data owner"
    then show "upload_fits bound (nets j) data" using assms(2) that by (auto simp: uploads_fit_def)
  qed
  ultimately have "system_inv stored nets bound ops ?g [] (system_start nets ops path readable snapshot n i)"
    using inv by (simp add: system_inv_def system_start_def shared_inv_def inv(2) [symmetric])
  then show ?thesis ..
qed

lemma system_linearises:
  assumes "\<And>j. n_api (nets j) = api" "uploads_fit bound nets ops" "\<And>addr cid. stored n addr cid = None"
    and "steps (system_step stored nets bound) (system_start nets ops path readable snapshot n i) movers s"
  shows "\<exists>log F. map fst log = movers \<and> log_ok ops log \<and> steps file_step Map.empty (log_history log) F
    \<and> (\<forall>f. F f = None \<longleftrightarrow> locate_by_filename f (w_meta (sy_world s)) = None)
    \<and> (\<forall>i < length ops. settled (ops ! i) (own i log) (sy_progs s ! i))"
proof -
  obtain g0 where "system_inv stored nets bound ops g0 [] (system_start nets ops path readable snapshot n i)"
    using system_inv_start [OF assms(1-3)] by blast
  from system_inv_steps [OF assms(4) this] obtain g log where log: "map fst log = movers" "system_inv stored nets bound ops g log s"
    by auto
  have "settled (ops ! i) (own i log) (sy_progs s ! i)" if "i < length ops" for i
  proof (cases "sy_progs s ! i")
    case (Return r)
    with log(2) that have "safe stored (nets i) bound (own_events (ops ! i)) (\<lambda>_ es r. explained (ops ! i) es r) g (own i log) (Return r)"
      unfolding system_inv_def by metis
    then show ?thesis unfolding Return by cases simp
  qed simp
  with log show ?thesis
    by (intro exI [of _ log] exI [of _ "ghost_files g (sy_world s)"]) (simp add: system_inv_def files_None file_shape_def)
qed

end

section \<open>An example run\<close>

text \<open>The size of a file can be asked for in the middle of its upload.\<close>

lemma bind_assoc: "bind_prog (bind_prog p c1) c2 = bind_prog p (\<lambda>a. bind_prog (c1 a) c2)"
proof (induction p rule: prog_induct)
  case (Call f)
  have "map_option (map_prod id (\<lambda>p. bind_prog p c2)) (map_option (map_prod id (\<lambda>p. bind_prog p c1)) (f w))
      = map_option (map_prod id (\<lambda>p. bind_prog p (\<lambda>a. bind_prog (c1 a) c2))) (f w)" for w
    using Call by (cases "f w") auto
  then show ?case by (simp add: fun_eq_iff)
qed simp

lemma bind_call_partial: "bind_prog (call_partial h) c = Call (\<lambda>w. map_option (\<lambda>(r, w1). (w1, c r)) (h w))"
  by (simp add: call_partial_def comp_def option.map_comp split_def)

lemma bind_call: "bind_prog (call h) c = Call (\<lambda>w. Some (snd (h w), c (fst (h w))))"
  by (simp add: call_def bind_call_partial split_def)

lemma head_meta: "w_meta (snd (client_head net f w)) = w_meta w"
  by (simp add: client_head_def rpc_readonly split_def Let_def split: option.split)

lemma head_steps:
  assumes "i < length (sy_progs s)" "sy_progs s ! i = op_prog (nets i) (HeadOp f)"
  shows "system_step stored nets bound s (Some i) \<lparr>sy_progs = (sy_progs s)[i := Return (HeadDone (fst (client_head (nets i) f (sy_world s))))],
    sy_used = next_used bound (nets i) (sy_world s) (snd (client_head (nets i) f (sy_world s))) (sy_used s),
    sy_world = snd (client_head (nets i) f (sy_world s))\<rparr>"
  by (rule system_step.Calls [OF assms(1)]) (auto simp: assms(2) bind_call adds_file_def head_meta)

definition example_start :: "(string \<Rightarrow> chunk_store) system" where
  "example_start = system_start (\<lambda>_. example_net) [PutOp ''f'' [1, 2] ''me'', HeadOp ''f''] ''p'' True None (\<lambda>_. ChunkStore ''/d'' []) 0"

lemma example_fits: "uploads_fit 1 (\<lambda>_. example_net) [PutOp ''f'' [1, 2] ''me'', HeadOp ''f'']"
proof -
  have "chunk_total (Suc (Suc 0)) 4194304 = 1" by (simp add: chunk_total_def)
  then have "upload_fits 1 example_net [1, 2]"
    by (simp add: upload_fits_def example_net_def ClusterConfig_default_def mb_to_bytes_def)
  then show ?thesis by (auto simp: uploads_fit_def less_Suc_eq)
qed

lemma example_created:
  obtains r m obj where "rpc_partial example_net (\<lambda>ev. CreateObject (n_cfg example_net) ev ''f'' 2 (cc_replication_factor (n_cfg example_net)) ''me''
      (cc_chunk_size_mb (n_cfg example_net))) start_world = Some (r, start_world\<lparr>w_calls := 1, w_meta := m\<rparr>)"
    "fst (client_head example_net ''f'' (start_world\<lparr>w_calls := 1, w_meta := m\<rparr>)) = Some obj" "oi_size obj = 2"
proof -
  let ?m = "MetadataStore ''p'' True None"
  have new: "ms_filename_to_id ?m ''f'' = None" "um_find (ms_objects_by_id ?m) (env_uuid example_env 0) = None"
    by (simp_all add: MetadataStore_def load_def)
  have "\<exists>m. create_object example_env ''f'' 2 1 ''me'' (mb_to_bytes 4) ?m
      = Some (Some (new_object example_env ''f'' 2 1 ''me'' (mb_to_bytes 4)), m)"
    by (subst create_object_simp [OF new(1)]) (simp_all add: mb_to_bytes_def)
  then obtain obj m where c: "create_object example_env ''f'' 2 1 ''me'' (mb_to_bytes 4) ?m = Some (Some obj, m)"
      and obj: "oi_size obj = 2"
    by (auto simp: new_object_def)
  have "locate_by_filename ''f'' m = Some obj"
    using fun_cong [OF created(3) [OF ms_inv_initial new(2) c], of "''f''"] by simp
  then have "LocateObject [] ''f'' m = \<lparr>or_success = True, or_message = [], or_object = Some (to_proto obj)\<rparr>"
    by (simp add: LocateObject_def)
  then have "\<exists>p. fst (client_head example_net ''f'' (start_world\<lparr>w_calls := 1, w_meta := m\<rparr>)) = Some p \<and> oi_size p = 2"
    using obj by (simp add: client_head_def rpc_readonly example_facts(4) to_proto_def Let_def)
  moreover have "\<exists>r. rpc_partial example_net (\<lambda>ev. CreateObject (n_cfg example_net) ev ''f'' 2 (cc_replication_factor (n_cfg example_net)) ''me''
      (cc_chunk_size_mb (n_cfg example_net))) start_world = Some (r, start_world\<lparr>w_calls := 1, w_meta := m\<rparr>)"
    using c by (simp add: rpc_partial_def example_net_def ClusterConfig_default_def CreateObject_def start_world_def)
  ultimately show ?thesis using that by blast
qed

lemma example_uuids: "env_uuid example_env 0 \<noteq> env_uuid example_env 1"
proof -
  have "hex_string 16384 = hex_string 1024 @ [hex_digit 0]" "hex_string 16385 = hex_string 1024 @ [hex_digit 1]"
    by (simp_all add: hex_string.simps [of 16384] hex_string.simps [of 16385])
  then have "last (setw0 4 (hex_string 16384)) \<noteq> last (setw0 4 (hex_string 16385))" by (simp add: setw0_def hex_digit_def)
  then have "setw0 4 (hex_string 16384) \<noteq> setw0 4 (hex_string 16385)" by metis
  then show ?thesis by (simp add: env_uuid_def example_env_def generate_uuid_def)
qed

lemma example_ids: "ids_new 1 example_net {} start_world"
proof -
  have "{0..1} = {0, 1 :: nat}" by auto
  then show ?thesis using example_uuids by (simp add: ids_new_def example_net_def start_world_def)
qed

lemma example_run:
  obtains s where "steps (system_step store_stored (\<lambda>_. example_net) 1) example_start [Some 0, Some 1] s"
    "\<exists>obj. sy_progs s ! 1 = Return (HeadDone (Some obj)) \<and> oi_size obj = 2"
proof -
  obtain r m obj where c: "rpc_partial example_net (\<lambda>ev. CreateObject (n_cfg example_net) ev ''f'' 2
        (cc_replication_factor (n_cfg example_net)) ''me'' (cc_chunk_size_mb (n_cfg example_net))) start_world
      = Some (r, start_world\<lparr>w_calls := 1, w_meta := m\<rparr>)"
    and h: "fst (client_head example_net ''f'' (start_world\<lparr>w_calls := 1, w_meta := m\<rparr>)) = Some obj" "oi_size obj = 2"
    by (rule example_created)
  let ?w1 = "start_world\<lparr>w_calls := 1, w_meta := m\<rparr>"
  have start: "example_start = \<lparr>sy_progs = [op_prog example_net (PutOp ''f'' [1, 2] ''me''), op_prog example_net (HeadOp ''f'')],
      sy_used = {}, sy_world = start_world\<rparr>"
    by (simp add: example_start_def system_start_def start_world_def)
  obtain f p where put: "op_prog example_net (PutOp ''f'' [1, 2] ''me'') = Call f" "f start_world = Some (?w1, p)"
    using c by (simp add: put_prog_def bind_assoc bind_call_partial)
  obtain s1 where s1: "system_step store_stored (\<lambda>_. example_net) 1 example_start (Some 0) s1"
      "sy_progs s1 = [p, op_prog example_net (HeadOp ''f'')]" "sy_world s1 = ?w1"
  proof
    show "system_step store_stored (\<lambda>_. example_net) 1 example_start (Some 0)
        \<lparr>sy_progs = (sy_progs example_start)[0 := p], sy_used = next_used 1 example_net (sy_world example_start) ?w1 (sy_used example_start),
          sy_world = ?w1\<rparr>"
      by (rule system_step.Calls [where f = f and p = p]) (use put example_ids in \<open>simp_all add: start del: op_prog.simps\<close>)
  qed (simp_all add: start del: op_prog.simps)
  have one: "1 < length (sy_progs s1)" "sy_progs s1 ! 1 = op_prog example_net (HeadOp ''f'')" by (simp_all add: s1(2))
  have "steps (system_step store_stored (\<lambda>_. example_net) 1) s1 [Some 1]
      \<lparr>sy_progs = (sy_progs s1)[1 := Return (HeadDone (fst (client_head example_net ''f'' (sy_world s1))))],
       sy_used = next_used 1 example_net (sy_world s1) (snd (client_head example_net ''f'' (sy_world s1))) (sy_used s1),
       sy_world = snd (client_head example_net ''f'' (sy_world s1))\<rparr>"
    unfolding steps_single by (rule head_steps [OF one])
  from steps.steps_Cons [OF s1(1) this] show thesis by (rule that) (use h in \<open>simp add: s1(2,3)\<close>)
qed

section \<open>Properties\<close>

text \<open>C1. Concurrent operations of the engine linearise. However the calls of any number of uploads, downloads,
  deletions, queries, recoveries and repairs interleave, with any call lost on its way or on its way
  back, any stored chunk lost, and nodes registering, sending heartbeats and announcing leaders in between:
  each operation takes effect on one map from file names to contents at steps of its own, and its result is
  explained by that effect. So a download that succeeds returns the whole content the file had when the download
  located it, although the file may since have been deleted, uploaded again or be under recovery; an upload that
  reports success took effect once, and one that fails did not, did, or was undone by itself; listings
  and sizes are those of one moment. The map is the namespace of the metadata store. Assumed: the contract
  of the storage nodes, and that a call that adds a file draws new ids.\<close>

theorem concurrent_operations_linearise:
  assumes "deleting_storage api stored" "\<And>j. n_api (nets j) = api" "uploads_fit bound nets ops" "\<And>addr cid. stored n addr cid = None"
    and "steps (system_step stored nets bound) (system_start nets ops path readable snapshot n i) movers s"
  shows "\<exists>log F. map fst log = movers \<and> log_ok ops log \<and> steps file_step Map.empty (log_history log) F
    \<and> (\<forall>f. F f = None \<longleftrightarrow> locate_by_filename f (w_meta (sy_world s)) = None)
    \<and> (\<forall>i < length ops. settled (ops ! i) (own i log) (sy_progs s ! i))"
  by (rule deleting_storage.system_linearises [OF assms])

theorem concurrent_operations_linearise_witness:
  "\<exists>log F. map fst log = [Some 0, Some 1] \<and> steps file_step Map.empty (log_history log) F \<and> own 1 log = [Headed ''f'' (Some 2)]"
proof -
  obtain s where s: "steps (system_step store_stored (\<lambda>_. example_net) 1) example_start [Some 0, Some 1] s"
      "\<exists>obj. sy_progs s ! 1 = Return (HeadDone (Some obj)) \<and> oi_size obj = 2"
    by (rule example_run)
  from concurrent_operations_linearise [OF store_deleting.deleting_storage_axioms example_facts(5) example_fits start_empty
      s(1) [unfolded example_start_def]]
  obtain log F where log: "map fst log = [Some 0, Some 1]" "steps file_step Map.empty (log_history log) F"
      "\<forall>i < length [PutOp ''f'' [1, 2] ''me'', HeadOp ''f'']. settled ([PutOp ''f'' [1, 2] ''me'', HeadOp ''f''] ! i) (own i log) (sy_progs s ! i)"
    by (elim exE conjE) (rule that)
  have "settled ([PutOp ''f'' [1, 2] ''me'', HeadOp ''f''] ! 1) (own 1 log) (sy_progs s ! 1)" by (rule log(3) [rule_format]) simp
  then have "own 1 log = [Headed ''f'' (Some 2)]" using s(2) by auto
  with log(1,2) show ?thesis by (intro exI conjI)
qed

end
