(* ===== verification/Client_Calls.thy ===== *)
theory Client_Calls
  imports Client
begin

text \<open>
  The metadata calls of an upload (\<open>StorageClient::put\<close> of \<open>src/client/storage_client.cpp\<close>). The client makes
  each call once: the creation, and for every planned chunk a selection of nodes and the recording of
  the chunk's replicas. The lemmas count them, so an upload returns with a bound on its calls; and they run
  an upload beside one that differs in lost recordings only, whose results the client ignores.
\<close>

section \<open>Uploads whose recordings are lost\<close>

text \<open>Two worlds that differ in what the metadata service says of objects only: the nodes selected, the chunks
  written and the calls made are the same in both.\<close>

definition same_placement :: "'n world \<Rightarrow> 'n world \<Rightarrow> bool" where
  "same_placement w v \<longleftrightarrow> w_storage w = w_storage v \<and> w_calls w = w_calls v \<and> ms_nodes (w_meta w) = ms_nodes (w_meta v)
     \<and> ms_round_robin_index (w_meta w) = ms_round_robin_index (w_meta v)"

lemma SelectNodes_placement:
  assumes "ms_nodes m = ms_nodes m'" "ms_round_robin_index m = ms_round_robin_index m'"
    and "SelectNodes cfg ev cnt strategy m = (nodes, m1)"
  obtains m1' where "SelectNodes cfg ev cnt strategy m' = (nodes, m1')"
    "ms_nodes m1 = ms_nodes m1'" "ms_round_robin_index m1 = ms_round_robin_index m1'"
proof -
  obtain nodes' m1' where s: "SelectNodes cfg ev cnt strategy m' = (nodes', m1')" by force
  have "nodes' = nodes \<and> ms_nodes m1 = ms_nodes m1' \<and> ms_round_robin_index m1 = ms_round_robin_index m1'"
    using s assms by (auto simp: SelectNodes_def select_nodes_def Let_def
        split: if_splits LoadBalanceStrategy.splits prod.splits)
  with s that show ?thesis by blast
qed

lemma UpdateChunk_placement:
  assumes "UpdateChunk ev object_id pb m = (r, m')"
  shows "ms_nodes m' = ms_nodes m" "ms_round_robin_index m' = ms_round_robin_index m"
  using assms by (auto simp: UpdateChunk_def update_chunk_def persist_def Let_def split: prod.splits option.splits if_splits)

lemma put_replicas_placement:
  assumes "same_placement w v" "n_api net = n_api net'" "put_replicas net chunk data oid nodes reps w = (reps', w')"
  obtains v' where "put_replicas net' chunk data oid nodes reps v = (reps', v')" "same_placement w' v'"
    "w_meta v' = w_meta v"
proof -
  have "\<exists>v'. put_replicas net' chunk data oid nodes reps v = (reps', v') \<and> w_storage w' = w_storage v'"
    using assms
  proof (induction nodes arbitrary: reps w v)
    case (Cons node nodes)
    obtain b w1 where w1: "write_chunk_to_node net (cn_address node) chunk data oid w = (b, w1)" by force
    define v1 where "v1 = v\<lparr>w_storage := w_storage w1\<rparr>"
    have wr: "write_chunk_to_node net (cn_address node) chunk data oid w = (b, w1)"
        "write_chunk_to_node net' (cn_address node) chunk data oid v = (b, v1)" "same_placement w1 v1"
      using Cons.prems(1,2) w1
      by (auto simp: write_chunk_to_node_def same_placement_def v1_def Let_def split: prod.splits)
    from Cons.IH [OF this(3) Cons.prems(2)] Cons.prems(3) wr show ?case by simp
  qed (auto simp: same_placement_def)
  then obtain v' where v': "put_replicas net' chunk data oid nodes reps v = (reps', v')" "w_storage w' = w_storage v'" by blast
  moreover have "w_meta w' = w_meta w" "w_calls w' = w_calls w" "w_meta v' = w_meta v" "w_calls v' = w_calls v"
    using put_replicas_meta [of net chunk data oid nodes reps w] put_replicas_meta [of net' chunk data oid nodes reps v]
      assms(3) v'(1) by simp_all
  ultimately show ?thesis using assms(1) that by (simp add: same_placement_def)
qed

text \<open>The object is stored with a chunk for which no replica is recorded.\<close>

definition unrecorded :: "string \<Rightarrow> string \<Rightarrow> metadata_store \<Rightarrow> bool" where
  "unrecorded filename chunk_id m \<longleftrightarrow> ms_inv m \<and> (\<exists>obj. locate_by_filename filename m = Some obj
     \<and> (\<exists>c \<in> set (oi_chunks obj). ci_chunk_id c = chunk_id \<and> ci_replicas c = []))"

lemma replace_chunk_other:
  "replace_chunk chunk cs = Some cs' \<Longrightarrow> c \<in> set cs \<Longrightarrow> ci_chunk_id c \<noteq> ci_chunk_id chunk \<Longrightarrow> c \<in> set cs'"
  by (induction cs arbitrary: cs') (auto split: if_splits)

lemma unrecorded_update:
  assumes un: "unrecorded filename chunk_id m" and u: "UpdateChunk ev object_id pb m = (r, m')"
    and other: "cm_chunk_id pb \<noteq> chunk_id"
  shows "unrecorded filename chunk_id m'"
proof -
  obtain b where b: "update_chunk ev object_id (from_proto pb) m = (b, m')"
    using u by (auto simp: UpdateChunk_def Let_def split: prod.splits)
  obtain obj c where inv: "ms_inv m" and obj: "locate_by_filename filename m = Some obj" "c \<in> set (oi_chunks obj)"
      "ci_chunk_id c = chunk_id" "ci_replicas c = []"
    using un by (auto simp: unrecorded_def)
  note step = update_chunk_step [OF inv b]
  let ?f = "\<lambda>obj. case replace_chunk (from_proto pb) (oi_chunks obj) of None \<Rightarrow> Some obj
    | Some chunks \<Rightarrow> Some (obj\<lparr>oi_chunks := chunks, oi_updated_at := ev_now ev\<rparr>)"
  have "sp_names (ms_view m') filename = on_object object_id ?f (sp_names (ms_view m)) filename"
    using step by (auto dest: arg_cong [of _ "ms_view m'" sp_names] simp flip: fun_eq_iff)
  moreover have "sp_names (ms_view m) filename = Some obj" using obj(1) by (simp add: ms_view_def)
  moreover have "ci_chunk_id (from_proto pb) \<noteq> ci_chunk_id c" using other obj(3) by (simp add: from_proto_def)
  ultimately have "\<exists>obj'. sp_names (ms_view m') filename = Some obj' \<and> c \<in> set (oi_chunks obj')"
    using obj(2) by (auto simp: on_object_def dest: replace_chunk_other split: option.splits)
  with step obj(3,4) show ?thesis by (auto simp: unrecorded_def ms_view_def)
qed

lemma unrecorded_select:
  "SelectNodes cfg ev cnt strategy m = (nodes, m') \<Longrightarrow> unrecorded filename chunk_id m' = unrecorded filename chunk_id m"
  by (simp add: unrecorded_def SelectNodes_frame)

lemma unrecorded_recording:
  assumes un: "unrecorded filename chunk_id (w_meta v)"
    and "cm_chunk_id pb = chunk_id \<Longrightarrow> n_fate net (w_calls v) = RequestLost"
  shows "unrecorded filename chunk_id (w_meta (snd (rpc net (\<lambda>ev. UpdateChunk ev object_id pb) v)))"
proof -
  obtain r m where u: "UpdateChunk (n_env net (w_calls v)) object_id pb (w_meta v) = (r, m)" by force
  show ?thesis
    using un unrecorded_update [OF un u] assms(2) u by (cases "n_fate net (w_calls v)") (auto simp: rpc_def Let_def)
qed

text \<open>A run in which recordings (every second call from the first on) may be lost goes as the run in
  which nothing is, and a chunk whose recording is lost stays unrecorded.\<close>

lemma put_chunks_lockstep:
  assumes net: "n_api net = n_api net'" "n_cfg net = n_cfg net'" "n_env net = n_env net'"
    and fate: "\<And>i. n_fate net i = Delivered"
    and "put_chunks net object_id data offset cms w = (None, w')" "same_placement w v"
    and "\<And>i. n_fate net' (w_calls v + 2 * i) = Delivered"
    and "\<And>i. i < length cms \<Longrightarrow> cm_chunk_id (cms ! i) = chunk_id \<Longrightarrow> n_fate net' (w_calls v + 2 * i + 1) = RequestLost"
    and "unrecorded filename chunk_id (w_meta v)"
  shows "\<exists>v'. put_chunks net' object_id data offset cms v = (None, v') \<and> unrecorded filename chunk_id (w_meta v')"
  using assms(5-9)
proof (induction cms arbitrary: offset w v)
  case (Cons cm rest)
  let ?rf = "cc_replication_factor (n_cfg net)"
  let ?data = "if 0 < cm_size cm then take (unat (cm_size cm)) (drop (unat offset) data) else []"
  let ?c = "\<lparr>ci_chunk_id = cm_chunk_id cm, ci_object_id = object_id, ci_chunk_index = cm_chunk_index cm,
    ci_size = cm_size cm, ci_checksum = sha256 ?data, ci_version = 1, ci_replicas = []\<rparr>"
  let ?ev = "n_env net (w_calls w)"
  have calls: "w_calls v = w_calls w" and meta: "ms_nodes (w_meta w) = ms_nodes (w_meta v)"
      "ms_round_robin_index (w_meta w) = ms_round_robin_index (w_meta v)"
    using Cons.prems(2) by (simp_all add: same_placement_def)
  obtain nodes m where sel: "SelectNodes (n_cfg net) ?ev ?rf [] (w_meta w) = (nodes, m)" by force
  obtain n where sel': "SelectNodes (n_cfg net) ?ev ?rf [] (w_meta v) = (nodes, n)" "ms_nodes m = ms_nodes n"
      "ms_round_robin_index m = ms_round_robin_index n"
    using SelectNodes_placement [OF meta sel] by blast
  define w1 where "w1 = w\<lparr>w_calls := Suc (w_calls w), w_meta := m\<rparr>"
  define v1 where "v1 = v\<lparr>w_calls := Suc (w_calls w), w_meta := n\<rparr>"
  have r1: "rpc net (\<lambda>ev. SelectNodes (n_cfg net) ev ?rf []) w = (Some nodes, w1)"
    using sel by (simp add: rpc_Delivered [OF fate] w1_def)
  have r1': "rpc net' (\<lambda>ev. SelectNodes (n_cfg net) ev ?rf []) v = (Some nodes, v1)"
    using sel'(1) Cons.prems(3) [of 0] net(3) calls by (simp add: rpc_delivered v1_def)
  have p1: "same_placement w1 v1" using Cons.prems(2) sel'(2,3) by (simp add: same_placement_def w1_def v1_def)
  obtain reps w2 where r2: "put_replicas net ?c ?data object_id nodes [] w1 = (reps, w2)" by force
  obtain v2 where r2': "put_replicas net' ?c ?data object_id nodes [] v1 = (reps, v2)" and p2: "same_placement w2 v2"
      and m2: "w_meta v2 = n"
    using put_replicas_placement [OF p1 net(1) r2] by (auto simp: v1_def)
  have c2: "w_calls w2 = Suc (w_calls w)" "w_calls v2 = Suc (w_calls w)"
    using put_replicas_meta [of net ?c ?data object_id nodes "[]" w1] r2 p2 by (simp_all add: w1_def same_placement_def)
  let ?pb = "chunk_to_proto (?c\<lparr>ci_replicas := reps\<rparr>)"
  define w3 where "w3 = snd (rpc net (\<lambda>ev. UpdateChunk ev object_id ?pb) w2)"
  define v3 where "v3 = snd (rpc net' (\<lambda>ev. UpdateChunk ev object_id ?pb) v2)"
  have w: "\<not> word_of_nat (length reps) < required_acks (cc_write_ack (n_cfg net)) ?rf"
      "put_chunks net object_id data (offset + cm_size cm) rest w3 = (None, w')"
    using Cons.prems(1) [unfolded put_chunks.simps Let_def r1 prod.case option.case r2] by (simp_all add: w3_def split: if_splits)
  have v: "put_chunks net' object_id data offset (cm # rest) v
      = put_chunks net' object_id data (offset + cm_size cm) rest v3"
    unfolding put_chunks.simps Let_def net(2) [symmetric] r1' prod.case option.case r2' using w(1) by (simp add: v3_def)
  have c3: "w_calls v3 = Suc (Suc (w_calls v))"
    using c2 calls by (simp add: v3_def rpc_def Let_def split: prod.split fate.split)
  have "same_placement w3 v3"
    using p2 UpdateChunk_placement [of _ object_id ?pb]
    by (auto simp: same_placement_def w3_def v3_def rpc_def Let_def split: prod.splits fate.splits)
  moreover have "unrecorded filename chunk_id (w_meta v3)"
  proof -
    have un: "unrecorded filename chunk_id (w_meta v2)" using Cons.prems(5) unrecorded_select [OF sel'(1)] m2 by simp
    moreover have "n_fate net' (w_calls v2) = RequestLost" if "cm_chunk_id cm = chunk_id"
      using Cons.prems(4) [of 0] c2 calls that by simp
    moreover have "cm_chunk_id ?pb = cm_chunk_id cm" by (simp add: chunk_to_proto_def)
    ultimately show ?thesis unfolding v3_def by (intro unrecorded_recording) simp_all
  qed
  moreover have "n_fate net' (w_calls v3 + 2 * i) = Delivered" for i using Cons.prems(3) [of "Suc i"] by (simp add: c3)
  moreover have "n_fate net' (w_calls v3 + 2 * i + 1) = RequestLost"
    if "i < length rest" "cm_chunk_id (rest ! i) = chunk_id" for i
    using Cons.prems(4) [of "Suc i"] that by (simp add: c3)
  ultimately show ?case unfolding v by (intro Cons.IH [OF w(2)]) simp_all
qed simp

lemma get_chunks_unrecorded:
  "c \<in> set cs \<Longrightarrow> ci_replicas c = [] \<Longrightarrow> fst (get_chunks net (map chunk_to_proto cs) acc w) \<noteq> None"
proof (induction cs arbitrary: acc w)
  case (Cons x cs)
  then show ?case by (cases "ci_replicas x") (auto simp: Let_def split: option.split prod.split)
qed simp

text \<open>An upload that got as far as the loop, with the object it created and its result.\<close>

lemma put_created_as:
  assumes "n_fate net (w_calls w) = Delivered" "put net filename data owner w = Some (res, w')" "pr_success res"
  obtains obj m where
    "create_object (n_env net (w_calls w)) filename (word_of_nat (length data)) (cc_replication_factor (n_cfg net)) owner
      (mb_to_bytes (cc_chunk_size_mb (n_cfg net))) (w_meta w) = Some (Some obj, m)"
    "put_chunks net (oi_object_id obj) data 0 (map chunk_to_proto (oi_chunks obj))
      (w\<lparr>w_calls := Suc (w_calls w), w_meta := m\<rparr>) = (None, w')"
    "res = \<lparr>pr_success = True, pr_object_id = oi_object_id obj, pr_message = ''Upload complete''\<rparr>"
proof -
  let ?cfg = "n_cfg net"
  let ?w1 = "\<lambda>m. w\<lparr>w_calls := Suc (w_calls w), w_meta := m\<rparr>"
  obtain resp m where r: "CreateObject ?cfg (n_env net (w_calls w)) filename (word_of_nat (length data))
      (cc_replication_factor ?cfg) owner (cc_chunk_size_mb ?cfg) (w_meta w) = Some (resp, m)" "or_success resp"
    using assms by (auto simp: put_def rpc_partial_def Let_def split: option.splits if_splits prod.splits)
  then obtain obj where c: "create_object (n_env net (w_calls w)) filename (word_of_nat (length data))
        (cc_replication_factor ?cfg) owner (mb_to_bytes (cc_chunk_size_mb ?cfg)) (w_meta w) = Some (Some obj, m)"
      and resp: "resp = \<lparr>or_success = True, or_message = [], or_object = Some (to_proto obj)\<rparr>"
    by (auto elim: CreateObject_cases)
  obtain err w2 where pc: "put_chunks net (oi_object_id obj) data 0 (map chunk_to_proto (oi_chunks obj)) (?w1 m) = (err, w2)"
    by force
  have "w' = w2 \<and> err = None \<and> res = \<lparr>pr_success = True, pr_object_id = oi_object_id obj, pr_message = ''Upload complete''\<rparr>"
    using assms r pc by (cases err) (auto simp: put_def rpc_partial_def resp to_proto_def Let_def)
  with c pc that show ?thesis by simp
qed

lemma put_runs:
  assumes "n_fate net (w_calls w) = Delivered"
    and "create_object (n_env net (w_calls w)) filename (word_of_nat (length data)) (cc_replication_factor (n_cfg net)) owner
      (mb_to_bytes (cc_chunk_size_mb (n_cfg net))) (w_meta w) = Some (Some obj, m)"
    and "put_chunks net (oi_object_id obj) data 0 (map chunk_to_proto (oi_chunks obj))
      (w\<lparr>w_calls := Suc (w_calls w), w_meta := m\<rparr>) = (None, w')"
  shows "put net filename data owner w
    = Some (\<lparr>pr_success = True, pr_object_id = oi_object_id obj, pr_message = ''Upload complete''\<rparr>, w')"
  using assms by (simp add: put_def rpc_partial_def CreateObject_def to_proto_def Let_def)

lemma get_unrecorded:
  assumes "filename \<noteq> []" "unrecorded filename chunk_id (w_meta w)"
  shows "\<not> gr_success (fst (get net filename w))"
proof (cases "n_fate net (w_calls w) = Delivered")
  case True
  obtain obj c where "locate_by_filename filename (w_meta w) = Some obj" "c \<in> set (oi_chunks obj)" "ci_replicas c = []"
    using assms(2) by (auto simp: unrecorded_def)
  with get_located [OF assms(1) True _ prod.collapse [symmetric]] get_chunks_unrecorded show ?thesis by (metis fst_conv)
qed (metis get_lost prod.collapse)

text \<open>With nodes that acknowledge what they are sent, an upload of one replica per chunk succeeds.\<close>

lemma put_replicas_up:
  assumes "n_api net = store_api" "length data < 2 ^ 64"
  shows "length (fst (put_replicas net chunk data oid nodes reps w)) = length reps + length nodes"
proof (induction nodes arbitrary: reps w)
  case (Cons node nodes)
  let ?h = "\<lparr>ch_chunk_id = ci_chunk_id chunk, ch_object_id = oid, ch_version = ci_version chunk,
    ch_size = word_of_nat (length data), ch_checksum = sha256 data, ch_created_at_ms = 0\<rparr>"
  have "length data = unat (ch_size ?h)" using assms(2) by (simp add: unsigned_of_nat take_bit_nat_eq_self)
  then obtain n' where "sa_WriteChunk store_api (cn_address node) ?h data (w_storage w) = (Some True, n')"
    using store_write_up [of data ?h] by auto
  then have "fst (write_chunk_to_node net (cn_address node) chunk data oid w)" by (simp add: write_chunk_to_node_def assms(1))
  with Cons.IH show ?case by (simp add: split_def Let_def)
qed simp

lemma one_selected: "online_nodes m \<noteq> [] \<Longrightarrow> length (fst (select_nodes ev 1 strategy m)) = 1"
  using round_robin_nth [of 1 "online_nodes m" "ms_round_robin_index m"]
  by (cases strategy; cases "online_nodes m") (simp_all add: select_nodes_def online_nodes_def [symmetric] Let_def split_def)

lemma put_chunks_up:
  assumes net: "n_api net = store_api" "\<And>i. n_fate net i = Delivered" "cc_replication_factor (n_cfg net) = 1"
    and len: "length data < 2 ^ 64" and on: "online_nodes (w_meta w) \<noteq> []"
  shows "fst (put_chunks net object_id data offset cms w) = None"
  using on
proof (induction cms arbitrary: offset w)
  case (Cons cm rest)
  let ?data = "if 0 < cm_size cm then take (unat (cm_size cm)) (drop (unat offset) data) else []"
  let ?c = "\<lparr>ci_chunk_id = cm_chunk_id cm, ci_object_id = object_id, ci_chunk_index = cm_chunk_index cm,
    ci_size = cm_size cm, ci_checksum = sha256 ?data, ci_version = 1, ci_replicas = []\<rparr>"
  obtain sel m where sel: "select_nodes (n_env net (w_calls w)) 1 (requested_strategy (n_cfg net) []) (w_meta w) = (sel, m)" by force
  define w1 where "w1 = w\<lparr>w_calls := Suc (w_calls w), w_meta := m\<rparr>"
  have r1: "rpc net (\<lambda>ev. SelectNodes (n_cfg net) ev 1 []) w = (Some (map (node_to_proto False) sel), w1)"
    using sel by (simp add: rpc_Delivered [OF net(2)] SelectNodes_def w1_def)
  obtain reps w2 where r2: "put_replicas net ?c ?data object_id (map (node_to_proto False) sel) [] w1 = (reps, w2)" by force
  have one: "length reps = 1"
    using put_replicas_up [OF net(1), of ?data ?c object_id "map (node_to_proto False) sel" "[]" w1]
      one_selected [OF Cons.prems, of "n_env net (w_calls w)" "requested_strategy (n_cfg net) []"] sel r2 len by (simp split: if_splits)
  let ?u = "snd (rpc net (\<lambda>ev. UpdateChunk ev object_id (chunk_to_proto (?c\<lparr>ci_replicas := reps\<rparr>))) w2)"
  have "w_meta w2 = m" using put_replicas_meta [of net ?c ?data object_id "map (node_to_proto False) sel" "[]" w1, unfolded r2]
    by (simp add: w1_def)
  then have "ms_nodes (w_meta ?u) = ms_nodes m"
    using UpdateChunk_placement(1) by (simp add: rpc_def Let_def net(2) split: prod.split)
  then have "online_nodes (w_meta ?u) \<noteq> []"
    using Cons.prems select_nodes_frame(3) [OF sel] by (simp add: online_nodes_def)
  then have "fst (put_chunks net object_id data (offset + cm_size cm) rest ?u) = None" by (rule Cons.IH)
  moreover have "\<not> word_of_nat (length reps) < required_acks (cc_write_ack (n_cfg net)) 1"
    by (simp add: one required_acks_def)
  ultimately show ?case
    unfolding put_chunks.simps Let_def net(3) r1 prod.case option.case r2 by simp
qed simp

text \<open>A file of one megabyte and one byte, in chunks of a megabyte.\<close>

definition two_chunk_file :: bytes where
  "two_chunk_file = replicate (2 ^ 20 + 1) 0"

definition two_chunk_net :: "(string \<Rightarrow> chunk_store) net" where
  "two_chunk_net = \<lparr>n_api = store_api, n_cfg = ClusterConfig_default\<lparr>cc_replication_factor := 1, cc_chunk_size_mb := 1\<rparr>,
     n_fate = (\<lambda>_. Delivered), n_env = (\<lambda>_. example_env), n_now = (\<lambda>_. 9)\<rparr>"

lemma length_two_chunk_file [simp]: "length two_chunk_file = 1048577"
  unfolding two_chunk_file_def length_replicate by simp

lemma two_chunk_total:
  "chunk_total (length two_chunk_file) (unat (mb_to_bytes (cc_chunk_size_mb (n_cfg two_chunk_net)))) = 2"
  by (simp add: two_chunk_net_def ClusterConfig_default_def mb_to_bytes_def chunk_total_def)

lemma two_chunk_ids: "ids_distinct two_chunk_net two_chunk_file example_world"
proof -
  have "setw0 4 (hex_string 16385) \<noteq> setw0 4 (hex_string 16386)"
    by (simp add: setw0_def hex_digit_def hex_string.simps [of 16385] hex_string.simps [of 16386] hex_string.simps [of 1024]
        hex_string.simps [of 64] hex_string.simps [of 4])
  then have "env_uuid example_env 1 \<noteq> env_uuid example_env 2" by (simp add: env_uuid_def example_env_def generate_uuid_def)
  moreover have "{1..2 :: nat} = {1, 2}" by auto
  ultimately have "inj_on (env_uuid example_env) {1..2}" by simp
  then show ?thesis unfolding ids_distinct_def two_chunk_total by (simp add: two_chunk_net_def numeral_2_eq_2)
qed

lemma two_chunk_put:
  "\<exists>res w'. put two_chunk_net ''f'' two_chunk_file ''me'' example_world = Some (res, w') \<and> pr_success res"
proof -
  let ?w = example_world and ?net = two_chunk_net
  have new: "ms_filename_to_id (w_meta ?w) ''f'' = None" and on: "online_nodes (w_meta ?w) \<noteq> []"
    by (simp_all add: example_world_def register_node_def MetadataStore_def load_def online_nodes_def um_assign_def)
  have "mb_to_bytes (cc_chunk_size_mb (n_cfg ?net)) \<noteq> 0" by (simp add: two_chunk_net_def mb_to_bytes_def)
  then obtain obj m where c: "create_object (n_env ?net (w_calls ?w)) ''f'' (word_of_nat (length two_chunk_file))
      (cc_replication_factor (n_cfg ?net)) ''me'' (mb_to_bytes (cc_chunk_size_mb (n_cfg ?net))) (w_meta ?w) = Some (Some obj, m)"
    using new by (simp add: create_object_simp)
  have "um_find (ms_objects_by_id (w_meta ?w)) (env_uuid (n_env ?net (w_calls ?w)) 0) = None"
    by (simp add: example_world_def register_node_def MetadataStore_def load_def)
  from created(5) [OF ms_inv_world this c] on
  have "online_nodes (w_meta (?w\<lparr>w_calls := Suc (w_calls ?w), w_meta := m\<rparr>)) \<noteq> []" by (simp add: online_nodes_def)
  then have "fst (put_chunks ?net (oi_object_id obj) two_chunk_file 0 (map chunk_to_proto (oi_chunks obj))
      (?w\<lparr>w_calls := Suc (w_calls ?w), w_meta := m\<rparr>)) = None"
    by (intro put_chunks_up) (simp_all add: two_chunk_net_def)
  then obtain w' where "put_chunks ?net (oi_object_id obj) two_chunk_file 0 (map chunk_to_proto (oi_chunks obj))
      (?w\<lparr>w_calls := Suc (w_calls ?w), w_meta := m\<rparr>) = (None, w')" by (metis prod.collapse)
  from put_runs [OF _ c this] show ?thesis by (simp add: two_chunk_net_def)
qed

text \<open>C39. The result of recording a chunk's replicas is ignored. Take an upload that succeeds with no
  metadata call lost, of an object with any number of chunks, under a non-empty name and with new and distinct
  ids. If instead the request that records the replicas of some chunk is lost (whatever happens to the other
  recordings), the upload still reports the same success, and no download of the object can succeed.\<close>

theorem lost_update_reported_as_success:
  assumes "\<And>i. n_fate net i = Delivered" "ms_inv (w_meta w)" "filename \<noteq> []" "length data < 2 ^ 64"
    and "um_find (ms_objects_by_id (w_meta w)) (env_uuid (n_env net (w_calls w)) 0) = None"
    and "ids_distinct net data w"
    and "put net filename data owner w = Some (res, w1)" "pr_success res"
    and "n_api net' = n_api net" "n_cfg net' = n_cfg net" "n_env net' = n_env net"
    and "n_fate net' (w_calls w) = Delivered" "\<And>i. n_fate net' (w_calls w + 2 * i + 1) = Delivered"
    and "j < max 1 (chunk_total (length data) (unat (mb_to_bytes (cc_chunk_size_mb (n_cfg net)))))"
    and "n_fate net' (w_calls w + 2 * j + 2) = RequestLost"
  shows "\<exists>w2. put net' filename data owner w = Some (res, w2) \<and> \<not> gr_success (fst (get net'' filename w2))"
proof -
  let ?ev = "n_env net (w_calls w)" and ?cfg = "n_cfg net" and ?sz = "word_of_nat (length data) :: u64"
  obtain obj m where c: "create_object ?ev filename ?sz (cc_replication_factor ?cfg) owner
        (mb_to_bytes (cc_chunk_size_mb ?cfg)) (w_meta w) = Some (Some obj, m)"
      and loop: "put_chunks net (oi_object_id obj) data 0 (map chunk_to_proto (oi_chunks obj))
        (w\<lparr>w_calls := Suc (w_calls w), w_meta := m\<rparr>) = (None, w1)"
      and res: "res = \<lparr>pr_success = True, pr_object_id = oi_object_id obj, pr_message = ''Upload complete''\<rparr>"
    by (rule put_created_as [OF assms(1,7,8)])
  note cr = created [OF assms(2,5) c] and plan = planned_chunks [OF assms(4,6) c]
  let ?w = "w\<lparr>w_calls := Suc (w_calls w), w_meta := m\<rparr>" and ?cs = "oi_chunks obj"
  have j: "j < length ?cs" using plan(1) assms(14) by simp
  have "locate_by_filename filename m = Some obj" using fun_cong [OF cr(3), of filename] by simp
  moreover have "?cs ! j \<in> set ?cs" using j by simp
  moreover from this have "ci_replicas (?cs ! j) = []" using plan(3) by blast
  ultimately have un: "unrecorded filename (ci_chunk_id (?cs ! j)) (w_meta ?w)"
    using cr(1) unfolding unrecorded_def by auto
  have once: "i = j" if "i < length ?cs" "ci_chunk_id (?cs ! i) = ci_chunk_id (?cs ! j)" for i
    using that j plan(2) by (auto simp: distinct_conv_nth)
  have "\<exists>w2. put_chunks net' (oi_object_id obj) data 0 (map chunk_to_proto ?cs) ?w = (None, w2)
      \<and> unrecorded filename (ci_chunk_id (?cs ! j)) (w_meta w2)"
    by (rule put_chunks_lockstep [OF assms(9-11) [symmetric] assms(1) loop _ _ _ un])
      (use assms(13,15) once in \<open>auto simp: same_placement_def chunk_to_proto_def\<close>)
  then obtain w2 where w2: "put_chunks net' (oi_object_id obj) data 0 (map chunk_to_proto ?cs) ?w = (None, w2)"
      "unrecorded filename (ci_chunk_id (?cs ! j)) (w_meta w2)" by blast
  have "put net' filename data owner w = Some (res, w2)"
    unfolding res by (rule put_runs [where m = m]) (use assms(10-12) c w2(1) in simp_all)
  with get_unrecorded [OF assms(3) w2(2)] show ?thesis by blast
qed

text \<open>The recording of the second chunk, the fifth call, is lost.\<close>

theorem lost_update_reported_as_success_witness:
  "\<exists>res w'. put (two_chunk_net\<lparr>n_fate := (\<lambda>i. if i = 4 then RequestLost else Delivered)\<rparr>) ''f'' two_chunk_file ''me'' example_world
      = Some (res, w') \<and> pr_success res \<and> \<not> gr_success (fst (get two_chunk_net ''f'' w'))"
proof -
  let ?net = "two_chunk_net\<lparr>n_fate := (\<lambda>i. if i = 4 then RequestLost else Delivered)\<rparr>"
  obtain res w1 where put: "put two_chunk_net ''f'' two_chunk_file ''me'' example_world = Some (res, w1)" "pr_success res"
    using two_chunk_put by blast
  have calls: "w_calls example_world = 0" by (simp add: example_world_def)
  have "um_find (ms_objects_by_id (w_meta example_world)) (env_uuid (n_env two_chunk_net (w_calls example_world)) 0) = None"
    by (simp add: example_world_def register_node_def MetadataStore_def load_def)
  note lost = lost_update_reported_as_success [OF _ ms_inv_world _ _ this two_chunk_ids put, of ?net 1 two_chunk_net]
  have "\<exists>w2. put ?net ''f'' two_chunk_file ''me'' example_world = Some (res, w2) \<and> \<not> gr_success (fst (get two_chunk_net ''f'' w2))"
    by (rule lost) (unfold two_chunk_total calls, simp_all add: two_chunk_net_def, presburger)
  with put(2) show ?thesis by blast
qed

section \<open>Uploads return\<close>

lemma rpc_calls: "w_calls (snd (rpc net handler w)) = Suc (w_calls w)"
  by (simp add: rpc_def Let_def split: prod.split fate.split)

lemma put_chunks_calls:
  assumes "put_chunks net object_id data offset cms w = (err, w')"
  shows "w_calls w' \<le> w_calls w + 2 * length cms \<and> (err = None \<longrightarrow> w_calls w' = w_calls w + 2 * length cms)"
  using assms
proof (induction cms arbitrary: offset w)
  case (Cons cm rest)
  let ?rf = "cc_replication_factor (n_cfg net)"
  let ?data = "if 0 < cm_size cm then take (unat (cm_size cm)) (drop (unat offset) data) else []"
  let ?c = "\<lparr>ci_chunk_id = cm_chunk_id cm, ci_object_id = object_id, ci_chunk_index = cm_chunk_index cm,
    ci_size = cm_size cm, ci_checksum = sha256 ?data, ci_version = 1, ci_replicas = []\<rparr>"
  obtain sel w1 where r1: "rpc net (\<lambda>ev. SelectNodes (n_cfg net) ev ?rf []) w = (sel, w1)" by force
  have c1: "w_calls w1 = Suc (w_calls w)" using rpc_calls [of net _ w, unfolded r1] r1 by (metis rpc_calls snd_conv)
  show ?case
  proof (cases sel)
    case None
    then show ?thesis using Cons.prems [unfolded put_chunks.simps Let_def r1] c1 by auto
  next
    case (Some nodes)
    obtain reps w2 where r2: "put_replicas net ?c ?data object_id nodes [] w1 = (reps, w2)" by force
    have c2: "w_calls w2 = Suc (w_calls w)"
      using put_replicas_meta [of net ?c ?data object_id nodes "[]" w1, unfolded r2] c1 by simp
    note step = Cons.prems [unfolded put_chunks.simps Let_def r1 Some prod.case option.case r2]
    show ?thesis
    proof (cases "word_of_nat (length reps) < required_acks (cc_write_ack (n_cfg net)) ?rf")
      case True
      then show ?thesis using step c2 by (auto simp: rpc_calls)
    next
      case False
      then show ?thesis using step Cons.IH c2 by (fastforce simp: rpc_calls simp del: put_chunks.simps)
    qed
  qed
qed simp

text \<open>The number of chunks planned for the data.\<close>

definition planned_count :: "'n net \<Rightarrow> bytes \<Rightarrow> nat" where
  "planned_count net data = max 1 (chunk_total (length data) (unat (mb_to_bytes (cc_chunk_size_mb (n_cfg net)))))"

text \<open>C4. An upload returns, whatever metadata calls and chunks are lost, if the configured chunk size is not a
  multiple of 4096 megabytes (the calls of the services other than the creation are taken to return or to
  fail, with no time limit). It makes one metadata call and at most two for each planned chunk, exactly
  two for each when it succeeds, and none after the first when no object was created.\<close>

theorem upload_returns:
  assumes "\<not> 4096 dvd unat (cc_chunk_size_mb (n_cfg net))" "length data < 2 ^ 64"
  shows "\<exists>res w'. put net filename data owner w = Some (res, w') \<and> w_calls w' \<le> w_calls w + 1 + 2 * planned_count net data
    \<and> (pr_success res \<longrightarrow> w_calls w' = w_calls w + 1 + 2 * planned_count net data)
    \<and> (pr_object_id res = [] \<longrightarrow> w_calls w' = w_calls w + 1)"
proof -
  let ?cfg = "n_cfg net" and ?ev = "n_env net (w_calls w)" and ?sz = "word_of_nat (length data) :: u64"
  let ?h = "CreateObject ?cfg ?ev filename ?sz (cc_replication_factor ?cfg) owner (cc_chunk_size_mb ?cfg) (w_meta w)"
  have "?h \<noteq> None"
    using assms(1) create_object_None [of ?ev filename ?sz "cc_replication_factor ?cfg" owner "mb_to_bytes (cc_chunk_size_mb ?cfg)" "w_meta w"]
    by (auto simp: CreateObject_def mb_to_bytes_zero split: option.split)
  then obtain resp m where h: "?h = Some (resp, m)" by auto
  show ?thesis
  proof (cases "n_fate net (w_calls w) = Delivered \<and> or_success resp")
    case False
    with h show ?thesis by (cases "n_fate net (w_calls w)") (auto simp: put_def rpc_partial_def Let_def)
  next
    case True
    then obtain obj where c: "create_object ?ev filename ?sz (cc_replication_factor ?cfg) owner
          (mb_to_bytes (cc_chunk_size_mb ?cfg)) (w_meta w) = Some (Some obj, m)"
        and resp: "resp = \<lparr>or_success = True, or_message = [], or_object = Some (to_proto obj)\<rparr>"
      using h by (auto elim: CreateObject_cases)
    let ?w = "w\<lparr>w_calls := Suc (w_calls w), w_meta := m\<rparr>"
    obtain err w' where pc: "put_chunks net (oi_object_id obj) data 0 (map chunk_to_proto (oi_chunks obj)) ?w = (err, w')"
      by force
    have obj: "length (oi_chunks obj) = planned_count net data" "oi_object_id obj \<noteq> []"
      using create_object_SomeD(3) [OF c] assms(2)
      by (simp_all add: new_object_def spec_plan_def planned_count_def unsigned_of_nat take_bit_nat_eq_self)
    have "\<exists>res. put net filename data owner w = Some (res, w') \<and> (pr_success res \<longleftrightarrow> err = None)
        \<and> pr_object_id res = oi_object_id obj"
      using h True pc resp
      by (cases err) (auto simp: put_def rpc_partial_def to_proto_def Let_def)
    with put_chunks_calls [OF pc] obj show ?thesis by auto
  qed
qed

text \<open>Every call after the second is lost.\<close>

theorem upload_returns_witness:
  "\<exists>res w'. put (two_chunk_net\<lparr>n_fate := (\<lambda>i. if i < 2 then Delivered else RequestLost)\<rparr>) ''f'' two_chunk_file ''me'' example_world
      = Some (res, w') \<and> w_calls w' \<le> 5"
proof -
  let ?net = "two_chunk_net\<lparr>n_fate := (\<lambda>i. if i < 2 then Delivered else RequestLost)\<rparr>"
  have "\<not> 4096 dvd unat (cc_chunk_size_mb (n_cfg ?net))" by (simp add: two_chunk_net_def)
  moreover have "chunk_total (length two_chunk_file) (unat (mb_to_bytes (cc_chunk_size_mb (n_cfg ?net)))) = 2"
    using two_chunk_total by simp
  ultimately show ?thesis
    using upload_returns [of ?net two_chunk_file "''f''" "''me''" example_world]
    by (auto simp: example_world_def planned_count_def)
qed

end
