(* ===== verification/Durability.thy ===== *)
theory Durability
  imports Recovery
begin

text \<open>
  What the replicas are for: files survive the failure of nodes. The client and the managers meet here:
  an upload that met its quorum can be downloaded while fewer nodes than the quorum are down, and after a
  repair every file can be downloaded while fewer nodes than the replication factor are. The failures
  happen between the operations: the nodes that are up at the download are given by \<open>up\<close>.
\<close>

section \<open>Reading from the replicas that are up\<close>

context available_storage
begin

lemma read_replicas_available:
  assumes "n_api net = api" "c \<noteq> []" "\<And>r. r \<in> set reps \<Longrightarrow> stored (w_storage w) (ri_address r) cid = Some (c, p)"
    and "r \<in> set reps" "up (ri_address r)"
  shows "fst (read_chunk_from_replicas net cid c reps w) = Some p"
  using assms(3,4)
proof (induction reps arbitrary: w)
  case (Cons rep reps)
  obtain rr n where rd: "sa_ReadChunk api (ri_address rep) cid (w_storage w) = (rr, n)" by force
  have frame: "stored n = stored (w_storage w)" using rd by (rule read_frame)
  show ?case
  proof (cases "\<exists>h d. rr = Some (True, h, d)")
    case True
    then obtain h d where rr: "rr = Some (True, h, d)" by blast
    then have "ch_checksum h = c" "d = p"
      using read_sound [of "ri_address rep" cid "w_storage w" h d n] rd Cons.prems(1) [of rep] by simp_all
    with rd rr assms(1) show ?thesis by simp
  next
    case False
    then have "\<not> up (ri_address rep)"
      using available_read [of "ri_address rep" "w_storage w" cid c p] Cons.prems(1) [of rep] rd by auto
    then have "r \<in> set reps" using Cons.prems(2) assms(5) by auto
    with Cons.IH [of "w\<lparr>w_storage := n\<rparr>"] Cons.prems(1) frame
    have "fst (read_chunk_from_replicas net cid c reps (w\<lparr>w_storage := n\<rparr>)) = Some p" by simp
    then show ?thesis using rd False assms(1)
      by (cases rr) (auto simp: Let_def split: prod.splits bool.splits)
  qed
qed simp

lemma get_chunks_available:
  assumes net: "n_api net = api"
    and "list_all2 (chunk_stored stored (w_storage w)) cs ps" "\<And>c. c \<in> set cs \<Longrightarrow> \<exists>r \<in> set (ci_replicas c). up (ri_address r)"
  shows "fst (get_chunks net (map chunk_to_proto cs) acc w) = None"
  using assms(2,3)
proof (induction cs arbitrary: ps acc w)
  case (Cons c cs)
  obtain p qs where ps: "ps = p # qs" "chunk_stored stored (w_storage w) c p"
      "list_all2 (chunk_stored stored (w_storage w)) cs qs"
    using Cons.prems(1) by (auto simp: list_all2_Cons1)
  obtain x w1 where rd: "read_chunk_from_replicas net (ci_chunk_id c) (ci_checksum c) (ci_replicas c) w = (x, w1)"
    by force
  obtain r where "r \<in> set (ci_replicas c)" "up (ri_address r)" using Cons.prems(2) [of c] by auto
  then have x: "x = Some p"
    using read_replicas_available [OF net _ _ \<open>r \<in> set (ci_replicas c)\<close>, of "ci_checksum c" w "ci_chunk_id c" p] ps(2) rd
    by (simp add: chunk_stored_def replicas_hold_def)
  have "list_all2 (chunk_stored stored (w_storage w1)) cs qs"
    using ps(3) chunk_stored_cong [OF chunk_read(1) [OF net ps(2) rd]] by simp
  with Cons.IH Cons.prems(2) rd x show ?case by simp
qed simp

lemma get_available:
  assumes net: "n_api net = api" "n_fate net (w_calls w) = Delivered" and f: "f \<noteq> []" "locate_by_filename f (w_meta w) = Some obj"
    and st: "list_all2 (chunk_stored stored (w_storage w)) (oi_chunks obj) ps"
    and up: "\<And>c. c \<in> set (oi_chunks obj) \<Longrightarrow> \<exists>r \<in> set (ci_replicas c). up (ri_address r)"
    and get: "get net f w = (g, w')"
  shows "gr_success g \<and> gr_data g = concat ps"
proof -
  let ?w = "w\<lparr>w_calls := Suc (w_calls w)\<rparr>"
  obtain err d where g: "get_chunks net (map chunk_to_proto (oi_chunks obj)) [] ?w = (err, d, w')"
      "gr_success g \<longleftrightarrow> err = None" "gr_data g = d"
    using get_located [OF f(1) net(2) f(2) get] by blast
  have st: "list_all2 (chunk_stored stored (w_storage ?w)) (oi_chunks obj) ps" using st by simp
  have "err = None" using get_chunks_available [OF net(1) st up, of "[]"] g(1) by simp
  with get_chunks_pieces [OF net(1) st, of "[]"] g show ?thesis by simp
qed

end

text \<open>Fewer failures than replicas on different nodes leave a replica.\<close>

lemma replica_up:
  assumes "distinct (map ri_address reps)" "ri_address ` set reps \<subseteq> A" "finite A" "card {a \<in> A. \<not> up a} < length reps"
  shows "\<exists>r \<in> set reps. up (ri_address r)"
proof (rule ccontr)
  assume "\<not> ?thesis"
  then have "ri_address ` set reps \<subseteq> {a \<in> A. \<not> up a}" using assms(2) by auto
  then have "card (ri_address ` set reps) \<le> card {a \<in> A. \<not> up a}" using assms(3) by (intro card_mono) auto
  moreover have "card (ri_address ` set reps) = length reps" using distinct_card [OF assms(1)] by simp
  ultimately show False using assms(4) by simp
qed

text \<open>Replicas on different nodes have different addresses where the nodes do.\<close>

lemma distinct_addresses:
  assumes "distinct (map ri_node_id reps)" "inj_on ni_address N"
    and "\<And>r. r \<in> set reps \<Longrightarrow> \<exists>n \<in> N. ni_id n = ri_node_id r \<and> ni_address n = ri_address r"
  shows "distinct (map ri_address reps)" "ri_address ` set reps \<subseteq> ni_address ` N"
proof -
  have "ri_node_id r = ri_node_id s" if "r \<in> set reps" "s \<in> set reps" "ri_address r = ri_address s" for r s
    using assms(2,3) that by (metis inj_onD)
  then have "r = s" if "r \<in> set reps" "s \<in> set reps" "ri_address r = ri_address s" for r s
    using assms(1) that unfolding distinct_map inj_on_def by blast
  then show "distinct (map ri_address reps)" using assms(1) unfolding distinct_map inj_on_def by blast
  show "ri_address ` set reps \<subseteq> ni_address ` N" using assms(3) by (force simp: image_iff)
qed

section \<open>Nodes that fail\<close>

text \<open>The same cluster after some nodes failed: they answer no call. The contract stays as it was.\<close>

definition failing :: "(string \<Rightarrow> bool) \<Rightarrow> 'n storage_api \<Rightarrow> 'n storage_api" where
  "failing alive api = \<lparr>
     sa_WriteChunk = (\<lambda>addr h d n. if alive addr then sa_WriteChunk api addr h d n else (None, n)),
     sa_ReadChunk = (\<lambda>addr cid n. if alive addr then sa_ReadChunk api addr cid n else (None, n)),
     sa_DeleteChunk = (\<lambda>addr cid n. if alive addr then sa_DeleteChunk api addr cid n else (None, n)),
     sa_ReplicateChunk = (\<lambda>addr h d source n. if alive addr then sa_ReplicateChunk api addr h d source n else (None, n))\<rparr>"


lemma failing_simps [simp]:
  "sa_WriteChunk (failing alive api) addr h d n = (if alive addr then sa_WriteChunk api addr h d n else (None, n))"
  "sa_ReadChunk (failing alive api) addr cid n = (if alive addr then sa_ReadChunk api addr cid n else (None, n))"
  "sa_ReplicateChunk (failing alive api) addr h d source n = (if alive addr then sa_ReplicateChunk api addr h d source n else (None, n))"
  by (simp_all add: failing_def)

context available_storage
begin

lemma failing_available: "available_storage (failing alive api) stored (\<lambda>a. alive a \<and> up a)"
  by unfold_locales (auto split: if_splits
    intro: write_done write_other write_undone read_sound read_frame replicate_done replicate_other replicate_undone
      available_read available_write available_replicate
    dest: write_undone replicate_undone)

end

section \<open>Uploads\<close>

text \<open>C6. A successful upload survives failures. Assumed: the name is not empty, every metadata call of
  the upload was delivered and the ids it drew are new and differ; the storage nodes keep their contract; nodes
  are not selected by round robin, and the online ones have different addresses. Then a download whose metadata
  call is delivered succeeds with the uploaded bytes, as long as fewer of the nodes that were online are down
  than the policy demands acknowledgements. (An upload whose recording of replicas was lost survives nothing:
  \<open>lost_update_reported_as_success\<close>.)\<close>

theorem upload_survives_failures:
  assumes "storage_contract (n_api net) stored" "\<And>i. n_fate net i = Delivered"
    and "ms_inv (w_meta w)" "filename \<noteq> []" "length data < 2 ^ 64"
    and "um_find (ms_objects_by_id (w_meta w)) (env_uuid (n_env net (w_calls w)) 0) = None" "ids_distinct net data w"
    and "cc_load_balance (n_cfg net) \<noteq> RoundRobin" "inj_on ni_address (set (online_nodes (w_meta w)))"
    and "put net filename data owner w = Some (res, w')" "pr_success res"
    and "available_storage (n_api net') stored up"
    and "card {a \<in> ni_address ` set (online_nodes (w_meta w)). \<not> up a}
      < (case cc_write_ack (n_cfg net) of All \<Rightarrow> unat (cc_replication_factor (n_cfg net))
         | Majority \<Rightarrow> unat (cc_replication_factor (n_cfg net)) div 2 + 1)"
    and "n_fate net' (w_calls w') = Delivered" "get net' filename w' = (g, w'')"
  shows "gr_success g \<and> gr_data g = data"
proof -
  let ?on = "set (online_nodes (w_meta w))"
  obtain obj ps where o: "locate_by_filename filename (w_meta w') = Some obj" "concat ps = data"
      "list_all2 (chunk_stored stored (w_storage w')) (oi_chunks obj) ps"
      "\<And>c. c \<in> set (oi_chunks obj) \<Longrightarrow> well_replicated net (online_nodes (w_meta w)) c"
    using put_uploads [OF assms(1-7,10,11)] by blast
  have "\<exists>r \<in> set (ci_replicas c). up (ri_address r)" if "c \<in> set (oi_chunks obj)" for c
  proof -
    note wr = o(4) [OF that, unfolded well_replicated_def unat_required_acks]
    have "distinct (map ri_address (ci_replicas c))" "ri_address ` set (ci_replicas c) \<subseteq> ni_address ` ?on"
      using distinct_addresses [OF _ assms(9), of "ci_replicas c"] wr assms(8) by blast+
    then show ?thesis using wr assms(13) by (intro replica_up) auto
  qed
  from available_storage.get_available [OF assms(12) refl assms(14,4) o(1,3) this assms(15)] o(2) show ?thesis by simp
qed

definition two_nodes :: "(string \<Rightarrow> chunk_store) world" where
  "two_nodes = \<lparr>w_meta = (MetadataStore ''p'' True None)\<lparr>ms_nodes := [(''n1'', online_node ''n1''), (''n2'', online_node ''n2'')]\<rparr>,
     w_storage = (\<lambda>_. ChunkStore ''/d'' []), w_calls = 0\<rparr>"

lemma two_nodes_put: "\<exists>res w'. put recovery_net ''f'' [1, 2] owner two_nodes = Some (res, w') \<and> pr_success res"
proof -
  have "chunk_total 2 4194304 = 1" by (simp add: chunk_total_def)
  then show ?thesis
    by (simp add: put_evaluate recovery_net_def example_cfg_def two_nodes_def MetadataStore_def load_def online_node_def
        example_node_def NodeInfo_default_def example_env_def)
qed

lemma two_nodes_facts:
  "ms_inv (w_meta two_nodes)" "um_find (ms_objects_by_id (w_meta two_nodes)) i = None"
  "ids_distinct recovery_net [1, 2] two_nodes" "inj_on ni_address (set (online_nodes (w_meta two_nodes)))"
  "ni_address ` set (online_nodes (w_meta two_nodes)) = {''hn1'', ''hn2''}"
proof -
  have "chunk_total (Suc (Suc 0)) 4194304 = 1" by (simp add: chunk_total_def)
  then show "ids_distinct recovery_net [1, 2] two_nodes"
    by (simp add: ids_distinct_def recovery_net_def example_cfg_def ClusterConfig_default_def mb_to_bytes_def)
qed (auto simp: two_nodes_def MetadataStore_def load_def ms_inv_def namespace_inv_def um_inv_def um_find_def online_node_def
    example_node_def NodeInfo_default_def online_nodes_def inj_on_def split: if_splits)

text \<open>One of the two nodes fails after the upload.\<close>

theorem upload_survives_failures_witness:
  "\<exists>res w'. put recovery_net ''f'' [1, 2] ''me'' two_nodes = Some (res, w')
     \<and> gr_data (fst (get (recovery_net\<lparr>n_api := failing (\<lambda>a. a \<noteq> ''hn2'') store_api\<rparr>) ''f'' w')) = [1, 2]"
proof -
  obtain res w' where put: "put recovery_net ''f'' [1, 2] ''me'' two_nodes = Some (res, w')" "pr_success res"
    using two_nodes_put by blast
  let ?net' = "recovery_net\<lparr>n_api := failing (\<lambda>a. a \<noteq> ''hn2'') store_api\<rparr>"
  have down: "{a \<in> ni_address ` set (online_nodes (w_meta two_nodes)). \<not> (a \<noteq> ''hn2'' \<and> True)} = {''hn2''}"
    unfolding two_nodes_facts(5) by auto
  have few: "card {a \<in> ni_address ` set (online_nodes (w_meta two_nodes)). \<not> (a \<noteq> ''hn2'' \<and> True)}
      < (case cc_write_ack (n_cfg recovery_net) of All \<Rightarrow> unat (cc_replication_factor (n_cfg recovery_net))
         | Majority \<Rightarrow> unat (cc_replication_factor (n_cfg recovery_net)) div 2 + 1)"
    unfolding down by (simp add: recovery_net_def example_cfg_def ClusterConfig_default_def)
  have api: "storage_contract (n_api recovery_net) store_stored"
    unfolding recovery_net_api by (rule store_cluster.storage_contract_axioms)
  have up: "available_storage (n_api ?net') store_stored (\<lambda>a. a \<noteq> ''hn2'' \<and> True)"
    using store_available.failing_available [of "\<lambda>a. a \<noteq> ''hn2''"] by simp
  have fate: "n_fate recovery_net i = Delivered" for i by (simp add: recovery_net_def example_net_def)
  have "gr_success (fst (get ?net' ''f'' w')) \<and> gr_data (fst (get ?net' ''f'' w')) = [1, 2]"
    by (rule upload_survives_failures [OF api fate two_nodes_facts(1) _ _ two_nodes_facts(2,3) _ two_nodes_facts(4) put up few _
        prod.collapse [symmetric]]) (simp_all add: fate, simp add: recovery_net_def example_cfg_def ClusterConfig_default_def)
  with put(1) show ?thesis by blast
qed

section \<open>Repairs\<close>

text \<open>What the registry and the recorded replicas have to do with each other: a replica is recorded under the
  address of its node, on different nodes, and the nodes have ids and addresses of their own.\<close>

definition registry_agrees :: "metadata_store \<Rightarrow> bool" where
  "registry_agrees m \<longleftrightarrow> inj_on ni_address (set (online_nodes m)) \<and> (\<forall>c \<in> all_chunks m. distinct (map ri_node_id (ci_replicas c))
     \<and> (\<forall>r \<in> set (ci_replicas c). \<forall>n. get_node (ri_node_id r) m = Some n \<longrightarrow> ni_address n = ri_address r \<and> ri_node_id r \<noteq> []))"

lemma live_replica_online:
  assumes "ms_inv m" "replica_live m r"
  obtains n where "get_node (ri_node_id r) m = Some n" "n \<in> set (online_nodes m)" "ni_id n = ri_node_id r"
proof -
  obtain n where n: "um_find (ms_nodes m) (ri_node_id r) = Some n" "ni_online n"
    using assms(2) by (auto simp: replica_live_def split: option.splits)
  then have "(ri_node_id r, n) \<in> set (ms_nodes m)" using assms(1) by (simp add: ms_inv_def um_find_mem)
  then have "n \<in> set (online_nodes m)" using n(2) by (force simp: online_nodes_def)
  moreover have "ni_id n = ri_node_id r" using assms(1) n(1) by (simp add: ms_inv_def)
  ultimately show ?thesis using that n(1) by (simp add: get_node_def)
qed

text \<open>After a repair the live replicas of every chunk are on different nodes, at their addresses.\<close>

lemma live_addresses:
  assumes inv: "ms_inv m" and inj: "inj_on ni_address (set (online_nodes m))" and dist: "distinct (map ri_node_id (ci_replicas c))"
    and addr: "\<And>r n. r \<in> set (ci_replicas c) \<Longrightarrow> get_node (ri_node_id r) m = Some n \<Longrightarrow> ni_address n = ri_address r"
    and few: "card {a \<in> ni_address ` set (online_nodes m). \<not> up a} < live_replicas m c"
  shows "\<exists>r \<in> set (ci_replicas c). up (ri_address r)"
proof -
  let ?live = "filter (replica_live m) (ci_replicas c)"
  have "\<exists>n \<in> set (online_nodes m). ni_id n = ri_node_id r \<and> ni_address n = ri_address r" if "r \<in> set ?live" for r
  proof -
    have r: "r \<in> set (ci_replicas c)" "replica_live m r" using that by simp_all
    obtain n where "get_node (ri_node_id r) m = Some n" "n \<in> set (online_nodes m)" "ni_id n = ri_node_id r"
      by (rule live_replica_online [OF inv r(2)])
    with addr [OF r(1)] show ?thesis by blast
  qed
  moreover have "distinct (map ri_node_id ?live)" using dist by (rule distinct_map_filter)
  ultimately have "distinct (map ri_address ?live)" "ri_address ` set ?live \<subseteq> ni_address ` set (online_nodes m)"
    using distinct_addresses [OF _ inj] by blast+
  then have "\<exists>r \<in> set ?live. up (ri_address r)" using few by (intro replica_up) (auto simp: live_replicas_def)
  then show ?thesis by auto
qed

lemma repaired_chunk_up:
  assumes inv: "ms_inv m'" and nodes: "ms_nodes m' = ms_nodes m" and reg: "registry_agrees m" and rf: "cc_replication_factor cfg \<noteq> 0"
    and new: "all_chunks m' \<subseteq> all_chunks m \<union> Collect (quorum_chunk cfg m)"
    and live: "\<And>c. c \<in> all_chunks m \<Longrightarrow> live_replicas m c \<noteq> 0"
    and restored: "\<forall>c \<in> set (get_under_replicated_chunks (cc_replication_factor cfg) m'). live_replicas m' c = 0"
    and few: "card {a \<in> ni_address ` set (online_nodes m). \<not> up a} < unat (cc_replication_factor cfg)"
    and c: "c \<in> all_chunks m'"
  shows "\<exists>r \<in> set (ci_replicas c). up (ri_address r)"
proof -
  have q: "0 < unat (required_acks (cc_write_ack cfg) (cc_replication_factor cfg))"
    using required_acks_pos [OF rf] by (simp add: word_less_nat_alt)
  have old: "c \<in> all_chunks m \<or> quorum_chunk cfg m c" using new c by blast
  then have "live_replicas m c \<noteq> 0" using live q by (auto simp: quorum_chunk_def)
  then have "unat (cc_replication_factor cfg) \<le> live_replicas m' c"
    using restored c replica_live_nodes [OF nodes] by (auto simp: set_under_replicated [OF inv] live_replicas_def not_less)
  then have "card {a \<in> ni_address ` set (online_nodes m'). \<not> up a} < live_replicas m' c"
    using few nodes by (simp add: online_nodes_def)
  moreover have "inj_on ni_address (set (online_nodes m'))" using reg nodes by (simp add: registry_agrees_def online_nodes_def)
  moreover have "distinct (map ri_node_id (ci_replicas c))" using old reg by (auto simp: quorum_chunk_def registry_agrees_def)
  moreover have "ni_address n = ri_address r" if "r \<in> set (ci_replicas c)" "get_node (ri_node_id r) m' = Some n" for r n
    using old reg that nodes by (auto simp: quorum_chunk_def get_node_def registry_agrees_def)
  ultimately show ?thesis by (intro live_addresses [OF inv]) blast+
qed

text \<open>C7. After one repair pass files survive failures. Assumed: the cluster is healthy during the pass
  (its calls are delivered, its online nodes up and at least as many as the replication factor, which is not
  zero and the same for the recovery manager and the metadata service, the manager's own node up and registered
  at its address if at all), online nodes have different addresses, every recorded replica is true and on a node
  of its own, recorded at its node's address, and every chunk of the store still has a live replica before the
  pass, however few. Then any file can be downloaded with its bytes by a download whose metadata call is
  delivered, as long as fewer of the online nodes are down than the replication factor. A file that had lost all
  replicas of a chunk is not covered: nothing can repair it.\<close>

theorem repaired_files_survive:
  assumes "available_storage (n_api net) stored up" "recoverable stored payload rm w" "owned (w_meta w)"
    and "healthy up net cfg rm (w_meta w)" "cc_replication_factor (n_cfg net) = cc_replication_factor cfg"
    and "registry_agrees (w_meta w)" "\<And>c. c \<in> all_chunks (w_meta w) \<Longrightarrow> live_replicas (w_meta w) c \<noteq> 0"
    and "repair_under_replicated_chunks net cfg rm w = (res, w')"
    and "available_storage (n_api net') stored up'"
    and "card {a \<in> ni_address ` set (online_nodes (w_meta w)). \<not> up' a} < unat (cc_replication_factor cfg)"
    and "n_fate net' (w_calls w') = Delivered" "filename \<noteq> []" "get net' filename w' = (g, w'')"
    and "layout (w_meta w) filename = Some ids"
  shows "gr_success g \<and> gr_data g = concat (map payload ids)"
proof -
  let ?m = "w_meta w" and ?m' = "w_meta w'"
  have rs: "replica_storage (n_api net) stored" using assms(1) by (simp add: available_storage_def)
  have inv: "ms_inv ?m" using assms(2) by (simp add: recoverable_def)
  have reg: "\<And>c r n. c \<in> all_chunks ?m \<Longrightarrow> r \<in> set (ci_replicas c) \<Longrightarrow> get_node (ri_node_id r) ?m = Some n \<Longrightarrow>
        ni_address n = ri_address r \<and> ri_node_id r \<noteq> []"
    using assms(6) by (simp_all add: registry_agrees_def)
  have up: "ri_node_id r \<noteq> [] \<and> up (ri_address r)" if c: "c \<in> all_chunks ?m" "r \<in> set (ci_replicas c)" "replica_live ?m r" for c r
  proof -
    obtain n where n: "get_node (ri_node_id r) ?m = Some n" "n \<in> set (online_nodes ?m)" by (rule live_replica_online [OF inv c(3)])
    then have "up (ni_address n)" using assms(4) by (simp add: healthy_def)
    with reg [OF c(1,2) n(1)] show ?thesis by simp
  qed
  note rec = replica_storage.repair_recovers [OF rs refl assms(2,8)]
  then have nodes: "ms_nodes ?m' = ms_nodes ?m" and lay: "layout ?m' = layout ?m" and rec': "recoverable stored payload rm w'"
      and new: "all_chunks ?m' \<subseteq> all_chunks ?m \<union> Collect (quorum_chunk cfg ?m)" by (simp_all add: recovers_def)
  have inv': "ms_inv ?m'" using rec' by (simp add: recoverable_def)
  note restored = repair_restores [OF assms(1-5) up assms(8)]
  obtain obj where obj: "locate_by_filename filename ?m' = Some obj" "map ci_chunk_id (oi_chunks obj) = ids"
    using assms(14) unfolding lay [symmetric] by (auto simp: layout_def)
  then have in_all: "c \<in> all_chunks ?m'" if "c \<in> set (oi_chunks obj)" for c
    using that by (auto simp: all_chunks_def locate_iff [OF inv'])
  have st: "list_all2 (chunk_stored stored (w_storage w')) (oi_chunks obj) (map (\<lambda>c. payload (ci_chunk_id c)) (oi_chunks obj))"
    using in_all rec' by (simp add: list_all2_conv_all_nth recoverable_def intact_def sound_chunk_def)
  have "\<exists>r \<in> set (ci_replicas c). up' (ri_address r)" if "c \<in> set (oi_chunks obj)" for c
    using repaired_chunk_up [OF inv' nodes assms(6) _ new assms(7) conjunct2 [OF restored] assms(10) in_all [OF that]] assms(4)
    by (simp add: healthy_def)
  from available_storage.get_available [OF assms(9) refl assms(11,12) obj(1) st this assms(13)] obj(2)
  show ?thesis by (auto simp: comp_def)
qed

text \<open>The file has one replica, on the second node; that node fails after the repair.\<close>

theorem repaired_files_survive_witness:
  "gr_data (fst (get (recovery_net\<lparr>n_api := failing (\<lambda>a. a \<noteq> ''hn2'') store_api\<rparr>) ''f''
     (snd (repair_under_replicated_chunks recovery_net example_cfg example_manager degraded_world)))) = [1, 2]"
proof -
  let ?w' = "snd (repair_under_replicated_chunks recovery_net example_cfg example_manager degraded_world)"
  let ?net' = "recovery_net\<lparr>n_api := failing (\<lambda>a. a \<noteq> ''hn2'') store_api\<rparr>"
  have api: "available_storage (n_api recovery_net) store_stored (\<lambda>_. True)"
    unfolding recovery_net_api by (rule store_available.available_storage_axioms)
  have up: "available_storage (n_api ?net') store_stored (\<lambda>a. a \<noteq> ''hn2'' \<and> True)"
    using store_available.failing_available [of "\<lambda>a. a \<noteq> ''hn2''"] by simp
  have on: "online_nodes (w_meta degraded_world) = [online_node ''n1'', online_node ''n2'']"
    by (simp add: online_nodes_def degraded_world_def online_node_def)
  have addr: "ni_address (online_node i) = ''h'' @ i" for i by (simp add: online_node_def example_node_def)
  have reg: "registry_agrees (w_meta degraded_world)"
    unfolding registry_agrees_def on degraded_chunks degraded_nodes by (auto simp: addr example_chunk_def)
  have live: "live_replicas (w_meta degraded_world) c \<noteq> 0" if "c \<in> all_chunks (w_meta degraded_world)" for c
    using that degraded_nodes [of "''n2''"]
    by (auto simp: degraded_chunks live_replicas_def example_chunk_def replica_live_def get_node_def online_node_def)
  have own: "owned (w_meta degraded_world)" by (simp add: owned_def degraded_objects example_chunk_def)
  have "healthy (\<lambda>_. True) recovery_net example_cfg example_manager (w_meta degraded_world)"
    by (simp add: healthy_def on recovery_net_def example_net_def example_cfg_def ClusterConfig_default_def)
  moreover have "{a \<in> ni_address ` set (online_nodes (w_meta degraded_world)). \<not> (a \<noteq> ''hn2'' \<and> True)} = {''hn2''}"
    unfolding on by (auto simp: addr)
  then have "card {a \<in> ni_address ` set (online_nodes (w_meta degraded_world)). \<not> (a \<noteq> ''hn2'' \<and> True)}
      < unat (cc_replication_factor example_cfg)" by (simp only:) (simp add: example_cfg_def)
  moreover have "layout (w_meta degraded_world) ''f'' = Some [''c'']"
    by (simp add: layout_def locate_by_filename_def degraded_world_def um_find_def example_chunk_def)
  ultimately have "gr_success (fst (get ?net' ''f'' ?w')) \<and> gr_data (fst (get ?net' ''f'' ?w')) = concat (map (\<lambda>_. [1, 2]) [''c''])"
    by (intro repaired_files_survive [OF api degraded_recoverable own _ _ reg live prod.collapse [symmetric] up _ _ _ prod.collapse [symmetric]])
      (simp_all add: recovery_net_def example_net_def)
  then show ?thesis by simp
qed

end
