(* ===== verification/RW_Lock.thy ===== *)
theory RW_Lock
  imports DSE_Prelude
begin

text \<open>
  \<open>include/common/rw_lock.hpp\<close>: the reader-writer lock over \<open>std::shared_mutex\<close>, and its guards. The
  lock's state is the threads that hold it; a call that blocks is one that is not enabled yet
  (\<open>None\<close>). A guard locks in its constructor and unlocks in its destructor.

  The second part is what the lock is for: an object whose operations each hold a guard from
  beginning to end. Threads interleave; an operation reads the object after it has the lock and
  writes it before it releases the lock. The locale \<open>guarded_object\<close> shows that such runs are
  serial, provided that the operations under the shared lock do not change the object.
\<close>

section \<open>Definitions\<close>

record 't rw_lock =
  rw_readers :: "'t list"
  rw_writer :: "'t option"

definition ReadWriteLock :: "'t rw_lock" where
  "ReadWriteLock = \<lparr>rw_readers = [], rw_writer = None\<rparr>"

definition lock_read :: "'t \<Rightarrow> 't rw_lock \<Rightarrow> 't rw_lock option" where
  "lock_read t l = (if rw_writer l = None then Some (l\<lparr>rw_readers := t # rw_readers l\<rparr>) else None)"

definition unlock_read :: "'t \<Rightarrow> 't rw_lock \<Rightarrow> 't rw_lock" where
  "unlock_read t l = l\<lparr>rw_readers := remove1 t (rw_readers l)\<rparr>"

definition lock_write :: "'t \<Rightarrow> 't rw_lock \<Rightarrow> 't rw_lock option" where
  "lock_write t l = (if rw_writer l = None \<and> rw_readers l = [] then Some (l\<lparr>rw_writer := Some t\<rparr>) else None)"

definition unlock_write :: "'t rw_lock \<Rightarrow> 't rw_lock" where
  "unlock_write l = l\<lparr>rw_writer := None\<rparr>"

text \<open>The guards: what the constructor and the destructor do.\<close>

datatype guard = ReadLockGuard | WriteLockGuard

fun guard_enter :: "guard \<Rightarrow> 't \<Rightarrow> 't rw_lock \<Rightarrow> 't rw_lock option" where
  "guard_enter ReadLockGuard t l = lock_read t l"
| "guard_enter WriteLockGuard t l = lock_write t l"

fun guard_leave :: "guard \<Rightarrow> 't \<Rightarrow> 't rw_lock \<Rightarrow> 't rw_lock" where
  "guard_leave ReadLockGuard t l = unlock_read t l"
| "guard_leave WriteLockGuard t l = unlock_write l"

section \<open>Guarded objects\<close>

text \<open>The shared object, the operation each thread is running with the state it has read, and the finished
  operations with their results. An operation that does not return is \<open>None\<close>.\<close>

record ('t, 'op, 'r, 's) shared =
  sh_lock :: "'t rw_lock"
  sh_state :: 's
  sh_running :: "'t \<Rightarrow> ('op \<times> 's) option"
  sh_log :: "('op \<times> 'r) list"

definition shared_start :: "'s \<Rightarrow> ('t, 'op, 'r, 's) shared" where
  "shared_start s = \<lparr>sh_lock = ReadWriteLock, sh_state = s, sh_running = Map.empty, sh_log = []\<rparr>"

inductive shared_step ::
  "('op \<Rightarrow> guard) \<Rightarrow> ('op \<Rightarrow> 's \<Rightarrow> ('r \<times> 's) option) \<Rightarrow> ('op \<Rightarrow> bool)
   \<Rightarrow> ('t, 'op, 'r, 's) shared \<Rightarrow> ('t, 'op, 'r, 's) shared \<Rightarrow> bool"
  for guard_of exec allowed where
  Enter: "allowed op \<Longrightarrow> sh_running g t = None \<Longrightarrow> guard_enter (guard_of op) t (sh_lock g) = Some l \<Longrightarrow>
    shared_step guard_of exec allowed g (g\<lparr>sh_lock := l, sh_running := (sh_running g)(t \<mapsto> (op, sh_state g))\<rparr>)"
| Leave: "sh_running g t = Some (op, s) \<Longrightarrow> exec op s = Some (r, s') \<Longrightarrow>
    shared_step guard_of exec allowed g (g\<lparr>sh_lock := guard_leave (guard_of op) t (sh_lock g), sh_state := s',
      sh_running := (sh_running g)(t := None), sh_log := sh_log g @ [(op, r)]\<rparr>)"

text \<open>The same operations one at a time: the final state, where each returns what the log says.\<close>

fun replay :: "('op \<Rightarrow> 's \<Rightarrow> ('r \<times> 's) option) \<Rightarrow> ('op \<times> 'r) list \<Rightarrow> 's \<Rightarrow> 's option" where
  "replay exec [] s = Some s"
| "replay exec ((op, r) # log) s =
     (case exec op s of None \<Rightarrow> None | Some (r', s') \<Rightarrow> if r' = r then replay exec log s' else None)"

lemma replay_append: "replay exec (xs @ ys) s = Option.bind (replay exec xs s) (replay exec ys)"
  by (induction xs arbitrary: s) (auto split: option.splits)

text \<open>The lock is held by exactly the threads that run, in the mode of their operation.\<close>

definition lock_inv :: "('op \<Rightarrow> guard) \<Rightarrow> ('t, 'op, 'r, 's) shared \<Rightarrow> bool" where
  "lock_inv guard_of g \<longleftrightarrow> distinct (rw_readers (sh_lock g)) \<and> (rw_readers (sh_lock g) = [] \<or> rw_writer (sh_lock g) = None)
     \<and> (\<forall>t. t \<in> set (rw_readers (sh_lock g)) \<longleftrightarrow> (\<exists>op s. sh_running g t = Some (op, s) \<and> guard_of op = ReadLockGuard))
     \<and> (\<forall>t. rw_writer (sh_lock g) = Some t \<longleftrightarrow> (\<exists>op s. sh_running g t = Some (op, s) \<and> guard_of op = WriteLockGuard))"

lemmas lock_defs = lock_read_def unlock_read_def lock_write_def unlock_write_def

lemma lock_inv_start: "lock_inv guard_of (shared_start s)"
  by (simp add: lock_inv_def shared_start_def ReadWriteLock_def)

lemma lock_inv_enter:
  assumes "lock_inv guard_of g" "sh_running g t = None" "guard_enter (guard_of op) t (sh_lock g) = Some l"
  shows "lock_inv guard_of (g\<lparr>sh_lock := l, sh_running := (sh_running g)(t \<mapsto> (op, s))\<rparr>)"
proof (cases "guard_of op")
  case ReadLockGuard
  then have l: "l = (sh_lock g)\<lparr>rw_readers := t # rw_readers (sh_lock g)\<rparr>" "rw_writer (sh_lock g) = None"
    using assms(3) by (simp_all add: lock_read_def split: if_splits)
  have "t \<notin> set (rw_readers (sh_lock g))" using assms(1,2) by (simp add: lock_inv_def)
  then show ?thesis using assms(1,2) l ReadLockGuard by (auto simp: lock_inv_def)
next
  case WriteLockGuard
  then have l: "l = (sh_lock g)\<lparr>rw_writer := Some t\<rparr>" "rw_writer (sh_lock g) = None" "rw_readers (sh_lock g) = []"
    using assms(3) by (simp_all add: lock_write_def split: if_splits)
  then show ?thesis using assms(1,2) WriteLockGuard by (auto simp: lock_inv_def)
qed

text \<open>A writer runs alone.\<close>

lemma writer_alone:
  assumes "lock_inv guard_of g" "sh_running g t = Some (op, s)" "guard_of op = WriteLockGuard" "sh_running g t' = Some x"
  shows "t' = t"
proof -
  obtain op' s' where x: "x = (op', s')" by force
  have w: "rw_writer (sh_lock g) = Some t" using assms(1-3) by (auto simp: lock_inv_def)
  then have "rw_readers (sh_lock g) = []" using assms(1) by (auto simp: lock_inv_def)
  then have "guard_of op' \<noteq> ReadLockGuard" using assms(1,4) x unfolding lock_inv_def by (metis list.set(1) empty_iff)
  then have "guard_of op' = WriteLockGuard" by (cases "guard_of op'") simp_all
  then have "rw_writer (sh_lock g) = Some t'" using assms(1,4) x unfolding lock_inv_def by blast
  with w show ?thesis by simp
qed

lemma lock_inv_leave:
  assumes "lock_inv guard_of g" "sh_running g t = Some (op, s)"
  shows "lock_inv guard_of (g\<lparr>sh_lock := guard_leave (guard_of op) t (sh_lock g), sh_state := s',
      sh_running := (sh_running g)(t := None), sh_log := log\<rparr>)"
proof (cases "guard_of op")
  case ReadLockGuard
  then show ?thesis using assms by (auto simp: lock_inv_def unlock_read_def)
next
  case WriteLockGuard
  then have "sh_running g t' = None" if "t' \<noteq> t" for t' using writer_alone [OF assms] that by (metis not_None_eq)
  moreover have "rw_writer (sh_lock g) = Some t" using assms WriteLockGuard unfolding lock_inv_def by blast
  then have "rw_readers (sh_lock g) = []" using assms(1) by (auto simp: lock_inv_def)
  ultimately show ?thesis using WriteLockGuard by (auto simp: lock_inv_def unlock_write_def)
qed

locale guarded_object =
  fixes guard_of :: "'op \<Rightarrow> guard"
    and exec :: "'op \<Rightarrow> 's \<Rightarrow> ('r \<times> 's) option"
    and allowed :: "'op \<Rightarrow> bool"
  assumes shared_pure: "allowed op \<Longrightarrow> guard_of op = ReadLockGuard \<Longrightarrow> exec op s = Some (r, s') \<Longrightarrow> s' = s"
begin

text \<open>What every thread has read is the object's state, and that state is the serial one.\<close>

definition serial_inv :: "'s \<Rightarrow> ('t, 'op, 'r, 's) shared \<Rightarrow> bool" where
  "serial_inv s0 g \<longleftrightarrow> lock_inv guard_of g \<and> replay exec (sh_log g) s0 = Some (sh_state g)
     \<and> (\<forall>t op s. sh_running g t = Some (op, s) \<longrightarrow> s = sh_state g \<and> allowed op)
     \<and> (\<forall>x \<in> set (sh_log g). allowed (fst x))"

lemma serial_step:
  assumes "shared_step guard_of exec allowed g g'" "serial_inv s0 g"
  shows "serial_inv s0 g'"
  using assms
proof cases
  case (Enter op t l)
  have "lock_inv guard_of g" using assms(2) by (simp add: serial_inv_def)
  from lock_inv_enter [OF this Enter(3,4), of "sh_state g"] show ?thesis
    using assms(2) Enter(1,2) by (auto simp: serial_inv_def)
next
  case (Leave t op s r s')
  have inv: "lock_inv guard_of g" "s = sh_state g" "allowed op" using assms(2) Leave(2) by (auto simp: serial_inv_def)
  have "s' = sh_state g \<or> (\<forall>t'. t' \<noteq> t \<longrightarrow> sh_running g t' = None)"
  proof (cases "guard_of op")
    case ReadLockGuard
    then show ?thesis using shared_pure [OF inv(3) _ Leave(3)] inv(2) by simp
  next
    case WriteLockGuard
    then show ?thesis using writer_alone [OF inv(1) Leave(2)] by (metis not_None_eq)
  qed
  moreover have "replay exec (sh_log g @ [(op, r)]) s0 = Some s'"
    using assms(2) Leave(3) inv(2) by (simp add: serial_inv_def replay_append)
  ultimately show ?thesis
    using assms(2) inv(3) lock_inv_leave [OF inv(1) Leave(2)] unfolding serial_inv_def Leave(1) by auto
qed

lemma serialisable:
  assumes "(shared_step guard_of exec allowed)\<^sup>*\<^sup>* (shared_start s0) g"
  shows "serial_inv s0 g"
  using assms
proof (induction rule: rtranclp_induct)
  case base
  show ?case by (simp add: serial_inv_def lock_inv_start) (simp add: shared_start_def)
next
  case (step g g')
  then show ?case using serial_step by blast
qed

text \<open>A writer that does not return blocks everybody: nothing is ever finished again.\<close>

lemma stuck_writer:
  assumes stuck: "lock_inv guard_of g" "sh_running g t = Some (op, s)" "guard_of op = WriteLockGuard" "exec op s = None"
    and run: "(shared_step guard_of exec allowed)\<^sup>*\<^sup>* g g'"
  shows "g' = g"
  using run
proof (induction rule: rtranclp_induct)
  case (step g1 g2)
  then have "shared_step guard_of exec allowed g g2" by simp
  then show ?case
  proof cases
    case (Enter op' t' l)
    have "rw_writer (sh_lock g) = Some t" using stuck(1-3) by (auto simp: lock_inv_def)
    then have "guard_enter (guard_of op') t' (sh_lock g) = None" by (cases "guard_of op'") (simp_all add: lock_defs)
    with Enter show ?thesis by simp
  next
    case (Leave t' op' s' r s'')
    with writer_alone [OF stuck(1-3) Leave(2)] stuck(2,4) show ?thesis by simp
  qed
qed simp

end

text \<open>Every serial history is a run: one thread makes the calls.\<close>

definition idle :: "'s \<Rightarrow> ('op \<times> 'r) list \<Rightarrow> (nat, 'op, 'r, 's) shared" where
  "idle s log = \<lparr>sh_lock = ReadWriteLock, sh_state = s, sh_running = Map.empty, sh_log = log\<rparr>"

lemma idle_call:
  assumes "allowed op" "exec op s = Some (r, s')"
  shows "(shared_step guard_of exec allowed)\<^sup>*\<^sup>* (idle s log) (idle s' (log @ [(op, r)]))"
proof -
  obtain l where l: "guard_enter (guard_of op) (0 :: nat) ReadWriteLock = Some l" "guard_leave (guard_of op) 0 l = ReadWriteLock"
    by (cases "guard_of op") (simp_all add: lock_defs ReadWriteLock_def)
  let ?g = "(idle s log)\<lparr>sh_lock := l, sh_running := [0 \<mapsto> (op, s)]\<rparr>"
  have "shared_step guard_of exec allowed (idle s log) ?g"
    using shared_step.Enter [of allowed op "idle s log" 0 guard_of l exec, OF assms(1)] l(1) by (simp add: idle_def)
  moreover have "shared_step guard_of exec allowed ?g (idle s' (log @ [(op, r)]))"
    using shared_step.Leave [of ?g 0 op s exec r s' guard_of allowed] assms(2) l(2) by (simp add: idle_def)
  ultimately show ?thesis by simp
qed

lemma serial_run:
  assumes "replay exec log s = Some s'" "\<forall>x \<in> set log. allowed (fst x)"
  shows "(shared_step guard_of exec allowed)\<^sup>*\<^sup>* (shared_start s) (idle s' log)"
  using assms
proof (induction log arbitrary: s' rule: rev_induct)
  case Nil
  then show ?case by (simp add: idle_def shared_start_def)
next
  case (snoc x log)
  obtain op r where x: "x = (op, r)" by force
  obtain s1 where "replay exec log s = Some s1" "exec op s1 = Some (r, s')"
    using snoc.prems(1) x by (auto simp: replay_append split: Option.bind_splits option.splits if_splits)
  with snoc.IH [of s1] snoc.prems(2) x idle_call [of allowed op exec s1 r s' guard_of log] show ?case by force
qed

section \<open>Mutual exclusion\<close>

text \<open>The steps of threads that use the guards: a thread releases only what it holds.\<close>

inductive rw_step :: "'t rw_lock \<Rightarrow> 't rw_lock \<Rightarrow> bool" where
  ReadGuard: "lock_read t l = Some l' \<Longrightarrow> rw_step l l'"
| ReadRelease: "t \<in> set (rw_readers l) \<Longrightarrow> rw_step l (unlock_read t l)"
| WriteGuard: "lock_write t l = Some l' \<Longrightarrow> rw_step l l'"
| WriteRelease: "rw_writer l = Some t \<Longrightarrow> rw_step l (unlock_write l)"

lemma rw_step_exclusive:
  "rw_step l l' \<Longrightarrow> rw_readers l = [] \<or> rw_writer l = None \<Longrightarrow> rw_readers l' = [] \<or> rw_writer l' = None"
  by (induction rule: rw_step.induct) (auto simp: lock_defs split: if_splits)

text \<open>No reader holds the lock while a writer does.\<close>

lemma rw_exclusive: "rw_step\<^sup>*\<^sup>* ReadWriteLock l \<Longrightarrow> rw_readers l = [] \<or> rw_writer l = None"
  by (induction rule: rtranclp_induct) (auto simp: ReadWriteLock_def dest: rw_step_exclusive)

text \<open>A lock that is free can be taken either way, and a held one is released by its holders.\<close>

lemma rw_no_deadlock: "\<exists>l'. rw_step l l'"
proof (cases "rw_writer l")
  case None
  then have "lock_read t l \<noteq> None" for t by (simp add: lock_read_def)
  then show ?thesis by (metis not_None_eq rw_step.ReadGuard)
next
  case (Some t)
  then show ?thesis by (blast intro: rw_step.WriteRelease)
qed

end
