(* ===== verification/Concurrent_Store.thy ===== *)
theory Concurrent_Store
  imports RW_Lock Metadata_Store
begin

text \<open>
  The metadata store under concurrent calls. \<open>metadata/metadata_store.cpp\<close> takes a guard of the store's lock at
  the beginning of every operation; the operations here are its critical sections, each with the guard
  the code takes (\<open>delete_object_by_filename\<close> is two: a lookup under a read guard, then
  \<open>delete_object\<close>). The locale \<open>guarded_object\<close> is interpreted on them, which is what allows the other
  theories to treat a call as one step. One section breaks its condition: \<open>select_nodes\<close> advances the
  round-robin index, a \<open>mutable\<close> member, under a read guard.
\<close>

section \<open>Definitions\<close>

datatype store_section =
    CreateSection call_env string u64 u32 string u32
  | DeleteSection call_env string
  | LookupSection string
  | LocateIdSection string
  | LocateNameSection string
  | ListSection string u32 u32
  | UpdateSection call_env string ChunkInfo
  | RegisterSection call_env NodeInfo
  | HeartbeatSection call_env string u64 u64
  | OfflineSection call_env string
  | NodesSection
  | NodeSection string
  | UnderReplicatedSection u32
  | SelectSection call_env u32 LoadBalanceStrategy
  | SetLeaderSection call_env string u64
  | LeaderSection
  | GenerationSection

datatype section_result =
    SObject "ObjectInfo option" | SBool bool | SId "string option" | SObjects "ObjectInfo list"
  | SNodes "NodeInfo list" | SNode "NodeInfo option" | SChunks "ChunkInfo list" | SString string | SNumber u64 | SVoid

text \<open>The guard each section takes.\<close>

fun section_guard :: "store_section \<Rightarrow> guard" where
  "section_guard (CreateSection ev filename sz rf owner chunk_size) = WriteLockGuard"
| "section_guard (DeleteSection ev object_id) = WriteLockGuard"
| "section_guard (LookupSection filename) = ReadLockGuard"
| "section_guard (LocateIdSection object_id) = ReadLockGuard"
| "section_guard (LocateNameSection filename) = ReadLockGuard"
| "section_guard (ListSection pre limit offset) = ReadLockGuard"
| "section_guard (UpdateSection ev object_id chunk) = WriteLockGuard"
| "section_guard (RegisterSection ev node) = WriteLockGuard"
| "section_guard (HeartbeatSection ev node_id free cnt) = WriteLockGuard"
| "section_guard (OfflineSection ev node_id) = WriteLockGuard"
| "section_guard NodesSection = ReadLockGuard"
| "section_guard (NodeSection node_id) = ReadLockGuard"
| "section_guard (UnderReplicatedSection rf) = ReadLockGuard"
| "section_guard (SelectSection ev cnt strategy) = ReadLockGuard"
| "section_guard (SetLeaderSection ev leader gen) = WriteLockGuard"
| "section_guard LeaderSection = ReadLockGuard"
| "section_guard GenerationSection = ReadLockGuard"

fun section_exec :: "store_section \<Rightarrow> metadata_store \<Rightarrow> (section_result \<times> metadata_store) option" where
  "section_exec (CreateSection ev filename sz rf owner chunk_size) s =
     map_option (map_prod SObject id) (create_object ev filename sz rf owner chunk_size s)"
| "section_exec (DeleteSection ev object_id) s = Some (map_prod SBool id (delete_object ev object_id s))"
| "section_exec (LookupSection filename) s = Some (SId (ms_filename_to_id s filename), s)"
| "section_exec (LocateIdSection object_id) s = Some (SObject (locate_by_id object_id s), s)"
| "section_exec (LocateNameSection filename) s = Some (SObject (locate_by_filename filename s), s)"
| "section_exec (ListSection pre limit offset) s = Some (SObjects (list_objects pre limit offset s), s)"
| "section_exec (UpdateSection ev object_id chunk) s = Some (map_prod SBool id (update_chunk ev object_id chunk s))"
| "section_exec (RegisterSection ev node) s = Some (map_prod SBool id (register_node ev node s))"
| "section_exec (HeartbeatSection ev node_id free cnt) s = Some (map_prod SBool id (update_node_heartbeat ev node_id free cnt s))"
| "section_exec (OfflineSection ev node_id) s = Some (map_prod SBool id (mark_node_offline ev node_id s))"
| "section_exec NodesSection s = Some (SNodes (get_nodes s), s)"
| "section_exec (NodeSection node_id) s = Some (SNode (get_node node_id s), s)"
| "section_exec (UnderReplicatedSection rf) s = Some (SChunks (get_under_replicated_chunks rf s), s)"
| "section_exec (SelectSection ev cnt strategy) s = Some (map_prod SNodes id (select_nodes ev cnt strategy s))"
| "section_exec (SetLeaderSection ev leader gen) s = Some (SVoid, set_leader ev leader gen s)"
| "section_exec LeaderSection s = Some (SString (leader_id s), s)"
| "section_exec GenerationSection s = Some (SNumber (generation s), s)"

text \<open>The exception.\<close>

fun no_round_robin :: "store_section \<Rightarrow> bool" where
  "no_round_robin (SelectSection ev cnt strategy) \<longleftrightarrow> strategy \<noteq> RoundRobin"
| "no_round_robin _ \<longleftrightarrow> True"

section \<open>Lemmas\<close>

interpretation store_sections: guarded_object section_guard section_exec no_round_robin
proof
  fix op s r s'
  assume "no_round_robin op" "section_guard op = ReadLockGuard" "section_exec op s = Some (r, s')"
  then show "s' = s"
    by (cases op) (auto simp: select_nodes_def Let_def split: if_splits LoadBalanceStrategy.splits)
qed

lemma select_one:
  assumes "online_nodes s \<noteq> []"
  shows "select_nodes ev 1 RoundRobin s = ([online_nodes s ! (unat (ms_round_robin_index s) mod length (online_nodes s))],
    s\<lparr>ms_round_robin_index := ms_round_robin_index s + 1\<rparr>)"
  using assms by (simp add: select_nodes_def online_nodes_def [symmetric] Let_def)

lemma next_turn_differs:
  assumes "distinct xs" "1 < length xs"
  shows "xs ! (Suc i mod length xs) \<noteq> xs ! (i mod length xs)"
proof -
  have "Suc i mod length xs \<noteq> i mod length xs" using assms(2) by (auto simp: mod_Suc)
  moreover have "Suc i mod length xs < length xs" "i mod length xs < length xs" using assms(2) by (auto intro!: mod_less_divisor)
  ultimately show ?thesis using assms(1) by (simp add: nth_eq_iff_index_eq)
qed

section \<open>Properties\<close>

text \<open>C9. The critical sections of the metadata store are serial, selections by round robin excluded: whatever the
  threads' interleaving, the results of the finished sections and the state of the store are those of the same
  sections one after the other, in the order in which they finished, and a section under the write guard runs
  alone. Every operation is one section, but \<open>delete_object_by_filename\<close>, which is a lookup and then a deletion.
  With round robin it does not hold (\<open>round_robin_race\<close>).\<close>

theorem concurrent_calls_serialise:
  assumes "(shared_step section_guard section_exec no_round_robin)\<^sup>*\<^sup>* (shared_start s) g"
  shows "replay section_exec (sh_log g) s = Some (sh_state g)
    \<and> (\<forall>t t' op s1 x. sh_running g t = Some (op, s1) \<longrightarrow> section_guard op = WriteLockGuard \<longrightarrow> sh_running g t' = Some x \<longrightarrow> t' = t)"
proof -
  have inv: "lock_inv section_guard g" "replay section_exec (sh_log g) s = Some (sh_state g)"
    using store_sections.serialisable [OF assms] by (simp_all add: store_sections.serial_inv_def)
  then show ?thesis using writer_alone [OF inv(1)] by metis
qed

theorem concurrent_calls_serialise_witness:
  "replay section_exec (sh_log (idle (MetadataStore ''p'' True None) [(LeaderSection, SString []), (GenerationSection, SNumber 0)]))
     (MetadataStore ''p'' True None) = Some (MetadataStore ''p'' True None)"
proof -
  let ?s = "MetadataStore ''p'' True None" and ?log = "[(LeaderSection, SString []), (GenerationSection, SNumber 0)]"
  have "replay section_exec ?log ?s = Some ?s" by (simp add: MetadataStore_def load_def leader_id_def generation_def)
  from concurrent_calls_serialise [OF serial_run [of _ _ _ _ no_round_robin, OF this]] show ?thesis by (simp add: idle_def)
qed

text \<open>C36. Selection by round robin is not serial. The index of the next node is a \<open>mutable\<close> member that
  \<open>select_nodes\<close> advances while it holds the lock in shared mode only, so two clients that select at
  the same time can both be given the same node: no order of the two calls explains it, whenever at
  least two nodes are online.\<close>

theorem round_robin_race:
  assumes "distinct (online_nodes s)" "1 < length (online_nodes s)" "unat (ms_round_robin_index s) + 1 < 2 ^ 64"
  shows "\<exists>(g :: (nat, store_section, section_result, metadata_store) shared) n.
    (shared_step section_guard section_exec (\<lambda>op. True))\<^sup>*\<^sup>* (shared_start s) g
    \<and> sh_log g = [(SelectSection ev 1 RoundRobin, SNodes [n]), (SelectSection ev' 1 RoundRobin, SNodes [n])]
    \<and> replay section_exec (sh_log g) s = None"
proof -
  let ?i = "unat (ms_round_robin_index s)" and ?on = "online_nodes s"
  let ?s' = "s\<lparr>ms_round_robin_index := ms_round_robin_index s + 1\<rparr>"
  let ?op = "SelectSection ev 1 RoundRobin" and ?op' = "SelectSection ev' 1 RoundRobin"
  let ?n = "?on ! (?i mod length ?on)"
  let ?step = "shared_step section_guard section_exec (\<lambda>op. True)"
  have ne: "?on \<noteq> []" using assms(2) by auto
  note sel = select_one [OF ne]
  define g1 :: "(nat, store_section, section_result, metadata_store) shared" where
    "g1 = (shared_start s)\<lparr>sh_lock := \<lparr>rw_readers = [0], rw_writer = None\<rparr>, sh_running := [0 \<mapsto> (?op, s)]\<rparr>"
  define g2 where "g2 = g1\<lparr>sh_lock := \<lparr>rw_readers = [1, 0], rw_writer = None\<rparr>, sh_running := [0 \<mapsto> (?op, s), 1 \<mapsto> (?op', s)]\<rparr>"
  define g3 where "g3 = g2\<lparr>sh_lock := \<lparr>rw_readers = [1], rw_writer = None\<rparr>, sh_state := ?s',
    sh_running := [1 \<mapsto> (?op', s)], sh_log := [(?op, SNodes [?n])]\<rparr>"
  define g4 where "g4 = g3\<lparr>sh_lock := ReadWriteLock, sh_running := Map.empty, sh_log := [(?op, SNodes [?n]), (?op', SNodes [?n])]\<rparr>"
  have "?step (shared_start s) g1"
    using shared_step.Enter [of "\<lambda>op. True" ?op "shared_start s" 0 section_guard _ section_exec]
    by (simp add: shared_start_def g1_def ReadWriteLock_def lock_defs)
  moreover have "?step g1 g2"
    using shared_step.Enter [of "\<lambda>op. True" ?op' g1 1 section_guard _ section_exec]
    by (simp add: shared_start_def g1_def g2_def ReadWriteLock_def lock_defs)
  moreover have "?step g2 g3"
    using shared_step.Leave [of g2 0 ?op s section_exec _ _ section_guard "\<lambda>op. True"] sel
    by (simp add: shared_start_def g1_def g2_def g3_def ReadWriteLock_def lock_defs fun_upd_twist)
  moreover have "?step g3 g4"
    using shared_step.Leave [of g3 1 ?op' s section_exec _ _ section_guard "\<lambda>op. True"] sel
    by (simp add: shared_start_def g1_def g2_def g3_def g4_def ReadWriteLock_def lock_defs)
  ultimately have "?step\<^sup>*\<^sup>* (shared_start s) g4" by (meson converse_rtranclp_into_rtranclp rtranclp.rtrancl_refl)
  moreover have "unat (ms_round_robin_index s + 1) = ?i + 1" using assms(3) by (simp add: unat_word_ariths)
  then have "?on ! (unat (ms_round_robin_index s + 1) mod length ?on) \<noteq> ?n"
    using next_turn_differs [OF assms(1,2), of ?i] by simp
  then have "replay section_exec (sh_log g4) s = None"
    using sel select_one [of ?s' ev'] ne by (simp add: g4_def online_nodes_def)
  ultimately show ?thesis by (auto simp: g4_def)
qed

definition two_online :: metadata_store where
  "two_online = snd (register_node example_env (example_node ''n2'' 1)
     (snd (register_node example_env (example_node ''n1'' 0) (MetadataStore ''p'' True None))))"

theorem round_robin_race_witness:
  "\<exists>(g :: (nat, store_section, section_result, metadata_store) shared) n.
    (shared_step section_guard section_exec (\<lambda>op. True))\<^sup>*\<^sup>* (shared_start two_online) g
    \<and> sh_log g = [(SelectSection example_env 1 RoundRobin, SNodes [n]), (SelectSection example_env 1 RoundRobin, SNodes [n])]
    \<and> replay section_exec (sh_log g) two_online = None"
proof -
  have "distinct (online_nodes two_online)" "1 < length (online_nodes two_online)" "ms_round_robin_index two_online = 0"
    by (simp_all add: two_online_def register_node_def persist_def MetadataStore_def load_def online_nodes_def Let_def
        example_env_def example_node_def NodeInfo_default_def um_assign_def um_find_def)
  then show ?thesis using round_robin_race [of two_online example_env example_env] by simp
qed

text \<open>C35. A caller that creates an object of non-zero size under a new name with a chunk size of 0 stops the whole metadata
  store: the planning loop never ends, and it runs under the write lock, so from then on no call of any client,
  not even a lookup, starts or finishes. (With an existing name or size 0 the call returns.) The calls beside it are
  any of the store's except selections by round robin.\<close>

theorem hanging_create_blocks_store:
  assumes "(shared_step section_guard section_exec no_round_robin)\<^sup>*\<^sup>* (shared_start s) g"
    and "sh_running g t = Some (CreateSection ev filename sz rf owner 0, s1)"
    and "ms_filename_to_id (sh_state g) filename = None" "sz \<noteq> 0"
    and "(shared_step section_guard section_exec no_round_robin)\<^sup>*\<^sup>* g g'"
  shows "g' = g"
proof -
  have inv: "lock_inv section_guard g" "s1 = sh_state g"
    using store_sections.serialisable [OF assms(1)] assms(2) by (auto simp: store_sections.serial_inv_def)
  then have "section_exec (CreateSection ev filename sz rf owner 0) s1 = None"
    using assms(3,4) create_object_None [of ev filename sz rf owner 0 s1] by simp
  from store_sections.stuck_writer [OF inv(1) assms(2) _ this assms(5)] show ?thesis by simp
qed

definition hung :: "(nat, store_section, section_result, metadata_store) shared" where
  "hung = (shared_start (MetadataStore ''p'' True None))\<lparr>sh_lock := \<lparr>rw_readers = [], rw_writer = Some 0\<rparr>,
     sh_running := [0 \<mapsto> (CreateSection example_env ''f'' 10 3 ''me'' 0, MetadataStore ''p'' True None)]\<rparr>"

theorem hanging_create_blocks_store_witness:
  "{g'. (shared_step section_guard section_exec no_round_robin)\<^sup>*\<^sup>* hung g'} = {hung}"
proof -
  let ?s = "MetadataStore ''p'' True None"
  let ?op = "CreateSection example_env ''f'' 10 3 ''me'' 0"
  have "shared_step section_guard section_exec no_round_robin (shared_start ?s) hung"
    using shared_step.Enter [of no_round_robin ?op "shared_start ?s" 0 section_guard _ section_exec]
    by (simp add: shared_start_def hung_def ReadWriteLock_def lock_defs)
  moreover have "sh_running hung 0 = Some (?op, ?s)" "ms_filename_to_id (sh_state hung) ''f'' = None"
    by (simp_all add: hung_def shared_start_def MetadataStore_def load_def)
  ultimately show ?thesis using hanging_create_blocks_store [of ?s hung 0 example_env "''f''" 10 3 "''me''" ?s] by auto
qed

end
