(* ===== verification/Concurrent_Chunks.thy ===== *)
theory Concurrent_Chunks
  imports RW_Lock Chunk_Store
begin

text \<open>
  The chunk store of a storage node under concurrent calls. Every operation of \<open>chunk/chunk_store.cpp\<close>
  holds the store's mutex from its first line on (\<open>std::lock_guard\<close>, which excludes all others, as a
  write guard does; \<open>read_chunk_range\<close> and \<open>verify_chunk\<close> look at what \<open>read_chunk\<close> returned). With the
  locale \<open>guarded_object\<close> concurrent calls are serial, and with the locale \<open>simulation\<close> they are those of a map
  from chunk ids to chunks.
\<close>

section \<open>Definitions\<close>

datatype chunk_call =
    WriteCall write_io ChunkHeaderData bytes
  | DeleteCall bool string
  | ReadCall bool string
  | ExistsCall string
  | StatsCall "u64 option"

datatype chunk_answer =
    Written "fs_error + bool"
  | Found "(ChunkHeaderData \<times> bytes) option"
  | Exists bool
  | Stats ChunkStoreStats

fun chunk_guard :: "chunk_call \<Rightarrow> guard" where
  "chunk_guard (WriteCall io h p) = WriteLockGuard"
| "chunk_guard (DeleteCall remove_ok cid) = WriteLockGuard"
| "chunk_guard (ReadCall readable cid) = WriteLockGuard"
| "chunk_guard (ExistsCall cid) = WriteLockGuard"
| "chunk_guard (StatsCall space) = WriteLockGuard"

fun chunk_step :: "chunk_call \<Rightarrow> chunk_store \<Rightarrow> chunk_answer \<times> chunk_store" where
  "chunk_step (WriteCall io h p) s = (let (ok, s') = write_chunk io h p s in (Written (Inr ok), s'))"
| "chunk_step (DeleteCall remove_ok cid) s = (let (r, s') = delete_chunk remove_ok cid s in (Written r, s'))"
| "chunk_step (ReadCall readable cid) s = (Found (read_chunk readable cid s), s)"
| "chunk_step (ExistsCall cid) s = (Exists (chunk_exists cid s), s)"
| "chunk_step (StatsCall space) s = (Stats (stats space s), s)"

text \<open>The specification: the same calls on a map. The statistics count its entries and add up their sizes.\<close>

definition map_stats :: "u64 option \<Rightarrow> chunk_map \<Rightarrow> ChunkStoreStats" where
  "map_stats space m =
     \<lparr>st_chunk_count = word_of_nat (card (dom m)), st_total_bytes = (\<Sum>cid \<in> dom m. ch_size (fst (the (m cid)))),
      st_free_bytes = estimate_free_space space\<rparr>"

fun map_call :: "chunk_call \<Rightarrow> chunk_map \<Rightarrow> chunk_answer \<times> chunk_map" where
  "map_call (WriteCall io h p) m = map_prod Written id (map_step (WriteOp io h p) m)"
| "map_call (DeleteCall remove_ok cid) m = map_prod Written id (map_step (DeleteOp remove_ok cid) m)"
| "map_call (ReadCall readable cid) m = (Found (m cid), m)"
| "map_call (ExistsCall cid) m = (Exists (m cid \<noteq> None), m)"
| "map_call (StatsCall space) m = (Stats (map_stats space m), m)"

text \<open>What is assumed of a call's environment; a file that exists can be opened.\<close>

fun call_ok :: "chunk_call \<Rightarrow> bool" where
  "call_ok (WriteCall io h p) \<longleftrightarrow> op_ok (WriteOp io h p)"
| "call_ok (DeleteCall remove_ok cid) \<longleftrightarrow> remove_ok"
| "call_ok (ReadCall readable cid) \<longleftrightarrow> readable"
| "call_ok _ \<longleftrightarrow> True"

section \<open>Lemmas\<close>

lemma stats_view:
  assumes "store_inv s"
  shows "stats space s = map_stats space (chunk_view s)"
proof -
  let ?m = "cs_chunk_sizes s"
  have dist: "distinct (map fst ?m)" and total: "cs_total_stored s = sum_list (map snd ?m)"
    using assms by (simp_all add: store_inv_def accounting_def um_inv_def)
  have find: "map_of ?m cid = map_option (\<lambda>(h, _). ch_size h) (chunk_view s cid)" for cid
    using assms by (simp add: store_inv_def indexed_def um_find_def)
  then have dom: "dom (chunk_view s) = fst ` set ?m"
    unfolding dom_map_of_conv_image_fst [symmetric] by (auto simp: dom_def)
  have "sum_list (map snd ?m) = sum_list (map (\<lambda>cid. the (map_of ?m cid)) (map fst ?m))"
    using dist by (intro arg_cong [where f = sum_list]) (auto simp: map_of_eq_Some_iff)
  also have "\<dots> = (\<Sum>cid \<in> fst ` set ?m. the (map_of ?m cid))"
    using dist sum_list_distinct_conv_sum_set [of "map fst ?m"] by simp
  also have "\<dots> = (\<Sum>cid \<in> dom (chunk_view s). ch_size (fst (the (chunk_view s cid))))"
    unfolding dom [symmetric] by (rule sum.cong) (auto simp: find)
  finally have "cs_total_stored s = (\<Sum>cid \<in> dom (chunk_view s). ch_size (fst (the (chunk_view s cid))))"
    using total by simp
  moreover have "card (dom (chunk_view s)) = length ?m"
    using dist distinct_card [of "map fst ?m"] by (simp add: dom)
  ultimately show ?thesis by (simp add: stats_def map_stats_def)
qed

interpretation chunk_sim: simulation chunk_step map_call chunk_view store_inv "\<lambda>op _. call_ok op"
proof
  fix s op r s'
  assume inv: "store_inv s" and ok: "call_ok op" and step: "chunk_step op s = (r, s')"
  show "map_call op (chunk_view s) = (r, chunk_view s')"
  proof (cases op)
    case (WriteCall io h p)
    then obtain ok where "store_step (WriteOp io h p) s = (Inr ok, s')" "r = Written (Inr ok)"
      using step by (auto split: prod.splits)
    with store_sim.sim [OF inv, of "WriteOp io h p"] ok WriteCall show ?thesis by simp
  next
    case (DeleteCall remove_ok cid)
    then obtain d where "store_step (DeleteOp remove_ok cid) s = (d, s')" "r = Written d"
      using step by (auto split: prod.splits)
    with store_sim.sim [OF inv, of "DeleteOp remove_ok cid"] ok DeleteCall show ?thesis by simp
  next
    case (ExistsCall cid)
    then show ?thesis using step store_inv_exists [OF inv, of cid] by (auto simp: chunk_exists_def)
  next
    case (StatsCall space)
    then show ?thesis using step stats_view [OF inv] by auto
  qed (use step ok in \<open>auto simp: chunk_view_def\<close>)
  show "store_inv s'"
  proof (cases op)
    case (WriteCall io h p)
    then obtain ok where "store_step (WriteOp io h p) s = (Inr ok, s')" using step by (auto split: prod.splits)
    with store_sim.inv_step [OF inv, of "WriteOp io h p"] ok WriteCall show ?thesis by simp
  next
    case (DeleteCall remove_ok cid)
    then obtain d where "store_step (DeleteOp remove_ok cid) s = (d, s')" using step by (auto split: prod.splits)
    with store_sim.inv_step [OF inv, of "DeleteOp remove_ok cid"] ok DeleteCall show ?thesis by simp
  qed (use inv step in auto)
qed

abbreviation chunk_exec :: "chunk_call \<Rightarrow> chunk_store \<Rightarrow> (chunk_answer \<times> chunk_store) option" where
  "chunk_exec op s \<equiv> Some (chunk_step op s)"

abbreviation map_exec :: "chunk_call \<Rightarrow> chunk_map \<Rightarrow> (chunk_answer \<times> chunk_map) option" where
  "map_exec op m \<equiv> Some (map_call op m)"

lemma chunk_guard_exclusive: "chunk_guard op = WriteLockGuard"
  by (cases op) simp_all

interpretation chunk_calls: guarded_object chunk_guard chunk_exec call_ok
  by unfold_locales (simp add: chunk_guard_exclusive)

lemma replay_map:
  assumes "store_inv s" "replay chunk_exec log s = Some s'" "\<forall>x \<in> set log. call_ok (fst x)"
  shows "replay map_exec log (chunk_view s) = Some (chunk_view s') \<and> store_inv s'"
  using assms
proof (induction log arbitrary: s)
  case (Cons x log)
  obtain op r where x: "x = (op, r)" by force
  obtain s1 where s1: "chunk_step op s = (r, s1)" "replay chunk_exec log s1 = Some s'"
    using Cons.prems(2) x by (auto split: prod.splits if_splits)
  have ok: "call_ok op" using Cons.prems(3) x by simp
  from Cons.IH [OF chunk_sim.inv_step [OF Cons.prems(1) ok s1(1)] s1(2)] Cons.prems(3)
  show ?case using chunk_sim.sim [OF Cons.prems(1) ok s1(1)] x by simp
qed simp

section \<open>Properties\<close>

text \<open>C8. The chunk store is linearizable where the file system does as \<open>call_ok\<close> says: a file that was closed without an
  error has all its bytes, a removal does not throw, an existing file can be read, and ids are shorter than
  \<open>2 ^ 32\<close> (opening, writing and renaming may fail). Whatever the interleaving of the calls of a storage node's
  threads (writes, deletes, reads, existence checks, statistics), their answers are those of a map from chunk ids
  to chunks that executes the same calls one after the other, in the order in which they finish. In particular no
  read sees a chunk half written, and no two calls run at the same time. What happens when a close loses bytes is
  \<open>unflushed_write_loses_chunk\<close>.\<close>

theorem chunk_store_linearizable:
  assumes "store_inv s" "(shared_step chunk_guard chunk_exec call_ok)\<^sup>*\<^sup>* (shared_start s) g"
  shows "replay map_exec (sh_log g) (chunk_view s) = Some (chunk_view (sh_state g)) \<and> store_inv (sh_state g)
    \<and> (\<forall>t t' x y. sh_running g t = Some x \<longrightarrow> sh_running g t' = Some y \<longrightarrow> t' = t)"
proof -
  have inv: "chunk_calls.serial_inv s g" by (rule chunk_calls.serialisable [OF assms(2)])
  then have "lock_inv chunk_guard g" and log: "replay chunk_exec (sh_log g) s = Some (sh_state g)"
      "\<forall>x \<in> set (sh_log g). call_ok (fst x)"
    by (simp_all add: chunk_calls.serial_inv_def)
  from writer_alone [OF this(1) _ chunk_guard_exclusive]
  have "\<forall>t t' x y. sh_running g t = Some x \<longrightarrow> sh_running g t' = Some y \<longrightarrow> t' = t" by (metis surj_pair)
  with replay_map [OF assms(1) log] show ?thesis by blast
qed

theorem chunk_store_linearizable_witness:
  "\<exists>log. map fst log = [WriteCall example_io (example_header ''a'' 2) [1, 2], ReadCall True ''a'', StatsCall None]
     \<and> replay map_exec log Map.empty = Some (chunk_view (snd (chunk_step (WriteCall example_io (example_header ''a'' 2) [1, 2])
         (ChunkStore ''/d'' []))))"
proof -
  let ?s = "ChunkStore ''/d'' []" and ?w = "WriteCall example_io (example_header ''a'' 2) [1, 2]"
  let ?s' = "snd (chunk_step ?w ?s)"
  let ?log = "[(?w, fst (chunk_step ?w ?s)), (ReadCall True ''a'', Found (read_chunk True ''a'' ?s')), (StatsCall None, Stats (stats None ?s'))]"
  have "replay chunk_exec ?log ?s = Some ?s'" by (simp del: chunk_step.simps(1) add: split_def)
  moreover have "\<forall>x \<in> set ?log. call_ok (fst x)" by (simp add: example_defs)
  ultimately have "(shared_step chunk_guard chunk_exec call_ok)\<^sup>*\<^sup>* (shared_start ?s) (idle ?s' ?log)" by (rule serial_run)
  note run = chunk_store_linearizable [OF store_inv_empty this]
  moreover have "chunk_view ?s = Map.empty" by (simp add: fun_eq_iff chunk_view_def read_chunk_def ChunkStore_def entry_files_def)
  ultimately show ?thesis by (intro exI [of _ ?log]) (simp del: chunk_step.simps(1) replay.simps add: idle_def)
qed

end
