(* ===== verification/Coordinator.thy ===== *)
theory Coordinator
  imports Metadata_Service "HOL-Library.Char_ord" "HOL-Library.List_Lexorder"
begin

text \<open>
  \<open>src/coordinator/coordinator_service.cpp\<close>: the leader election of the metadata nodes. A coordinator
  with its metadata store is a record, an operation takes and returns it; what an election learns from
  its peers is an argument (\<open>None\<close> for a peer that does not answer in time), and the announcements it
  sends are part of its result. A cluster of coordinators exchanging these messages is a step relation;
  the lemmas on it are invariants of its reachable states.
\<close>

section \<open>Definitions\<close>

record coordinator =
  co_node_id :: string
  co_peer_addresses :: "string list"
  co_metadata_store :: metadata_store
  co_is_leader :: bool
  co_generation :: u64
  co_running :: bool
  co_current_leader :: string

definition CoordinatorServiceImpl :: "string \<Rightarrow> string list \<Rightarrow> metadata_store \<Rightarrow> coordinator" where
  "CoordinatorServiceImpl node_id peer_addresses store =
     \<lparr>co_node_id = node_id, co_peer_addresses = peer_addresses, co_metadata_store = store, co_is_leader = False,
      co_generation = 0, co_running = False, co_current_leader = []\<rparr>"

definition node_priority :: "string \<Rightarrow> u64" where
  "node_priority node_id = foldl (\<lambda>priority c. priority * 256 + word_of_nat (of_char c)) 0 node_id"

text \<open>An announcement: the address it goes to, the leader and the generation.\<close>

record announcement =
  an_to :: string
  an_leader_id :: string
  an_generation :: u64

text \<open>The loop over the peers: it stops at the first one that answers without an acknowledgement.\<close>

fun higher_peer_exists :: "(string \<Rightarrow> bool option) \<Rightarrow> string list \<Rightarrow> bool" where
  "higher_peer_exists replies [] = False"
| "higher_peer_exists replies (peer # peers) =
     (if replies peer = Some False then True else higher_peer_exists replies peers)"

definition start_election ::
  "call_env \<Rightarrow> (string \<Rightarrow> bool option) \<Rightarrow> coordinator \<Rightarrow> announcement list \<times> coordinator" where
  "start_election ev replies c =
     (if higher_peer_exists replies (co_peer_addresses c) then ([], c)
      else let gen = co_generation c + 1;
               c1 = c\<lparr>co_is_leader := True, co_generation := gen, co_current_leader := co_node_id c,
                      co_metadata_store := set_leader ev (co_node_id c) gen (co_metadata_store c)\<rparr>
           in (map (\<lambda>peer. \<lparr>an_to = peer, an_leader_id = co_node_id c, an_generation = gen\<rparr>) (co_peer_addresses c), c1))"

text \<open>One iteration of \<open>election_loop\<close>.\<close>

definition election_tick ::
  "call_env \<Rightarrow> (string \<Rightarrow> bool option) \<Rightarrow> coordinator \<Rightarrow> announcement list \<times> coordinator" where
  "election_tick ev replies c = (if co_is_leader c then ([], c) else start_election ev replies c)"

definition start_coordinator :: "coordinator \<Rightarrow> bool \<times> coordinator" where
  "start_coordinator c = (\<not> co_running c, c\<lparr>co_running := True\<rparr>)"

definition stop_coordinator :: "coordinator \<Rightarrow> coordinator" where
  "stop_coordinator c = c\<lparr>co_running := False\<rparr>"

text \<open>The response is filled before the handler starts an election of its own.\<close>

definition RequestElection ::
  "call_env \<Rightarrow> (string \<Rightarrow> bool option) \<Rightarrow> u64 \<Rightarrow> coordinator \<Rightarrow> (bool \<times> string) \<times> announcement list \<times> coordinator" where
  "RequestElection ev replies priority c =
     (if priority < node_priority (co_node_id c)
      then ((True, co_current_leader c), start_election ev replies c)
      else ((False, co_current_leader c), [], c))"

definition AnnounceLeader :: "call_env \<Rightarrow> string \<Rightarrow> u64 \<Rightarrow> coordinator \<Rightarrow> bool \<times> coordinator" where
  "AnnounceLeader ev leader gen c =
     (True, c\<lparr>co_current_leader := leader, co_is_leader := (leader = co_node_id c), co_generation := gen,
              co_metadata_store := set_leader ev leader gen (co_metadata_store c)\<rparr>)"

definition CoordinatorHeartbeat :: "coordinator \<Rightarrow> bool \<times> string \<times> u64" where
  "CoordinatorHeartbeat c = (True, co_current_leader c, co_generation c)"

record TriggerRecoveryResponse =
  tr_success :: bool
  tr_message :: string
  tr_chunks_recovered :: u32

definition TriggerRecovery :: "call_env \<Rightarrow> string \<Rightarrow> coordinator \<Rightarrow> TriggerRecoveryResponse \<times> coordinator" where
  "TriggerRecovery ev failed_node_id c =
     (if \<not> co_is_leader c
      then (\<lparr>tr_success = False, tr_message = ''Not leader'', tr_chunks_recovered = 0\<rparr>, c)
      else (\<lparr>tr_success = True, tr_message = ''Recovery triggered'', tr_chunks_recovered = 0\<rparr>,
            c\<lparr>co_metadata_store := snd (mark_node_offline ev failed_node_id (co_metadata_store c))\<rparr>))"

definition GetLeader :: "coordinator \<Rightarrow> string \<times> u64 \<times> bool" where
  "GetLeader c = (co_current_leader c, co_generation c, co_is_leader c)"

definition coordinator_leader_id :: "coordinator \<Rightarrow> string" where
  "coordinator_leader_id c = co_current_leader c"

section \<open>A cluster of coordinators\<close>

text \<open>The coordinators by address, with the announcements under way. An election's replies are what the
  peers' handlers answer, or nothing; a peer that is asked may start an election of its own. The
  parameter says whether answers can be lost.\<close>

record election_cluster =
  ec_nodes :: "string \<Rightarrow> coordinator option"
  ec_sent :: "announcement list"

definition answer :: "election_cluster \<Rightarrow> u64 \<Rightarrow> string \<Rightarrow> bool option" where
  "answer s priority peer = map_option (\<lambda>p. priority < node_priority (co_node_id p)) (ec_nodes s peer)"

definition replies_ok :: "bool \<Rightarrow> election_cluster \<Rightarrow> coordinator \<Rightarrow> (string \<Rightarrow> bool option) \<Rightarrow> bool" where
  "replies_ok lossy s c replies \<longleftrightarrow>
     (\<forall>peer \<in> set (co_peer_addresses c). replies peer = answer s (node_priority (co_node_id c)) peer
        \<or> lossy \<and> replies peer = None)"

inductive election_step :: "bool \<Rightarrow> election_cluster \<Rightarrow> election_cluster \<Rightarrow> bool" for lossy where
  Tick: "ec_nodes s a = Some c \<Longrightarrow> replies_ok lossy s c replies \<Longrightarrow> election_tick ev replies c = (sent, c') \<Longrightarrow>
    election_step lossy s (s\<lparr>ec_nodes := (ec_nodes s)(a \<mapsto> c'), ec_sent := ec_sent s @ sent\<rparr>)"
| Asked: "ec_nodes s a = Some c \<Longrightarrow> ec_nodes s b = Some d \<Longrightarrow> a \<in> set (co_peer_addresses d) \<Longrightarrow>
    replies_ok lossy s c replies \<Longrightarrow>
    RequestElection ev replies (node_priority (co_node_id d)) c = (r, sent, c') \<Longrightarrow>
    election_step lossy s (s\<lparr>ec_nodes := (ec_nodes s)(a \<mapsto> c'), ec_sent := ec_sent s @ sent\<rparr>)"
| Announced: "m \<in> set (ec_sent s) \<Longrightarrow> ec_nodes s (an_to m) = Some c \<Longrightarrow>
    AnnounceLeader ev (an_leader_id m) (an_generation m) c = (r, c') \<Longrightarrow>
    election_step lossy s (s\<lparr>ec_nodes := (ec_nodes s)(an_to m \<mapsto> c'), ec_sent := remove1 m (ec_sent s)\<rparr>)"
| Lost: "lossy \<Longrightarrow> election_step lossy s (s\<lparr>ec_sent := remove1 m (ec_sent s)\<rparr>)"
| Triggered: "ec_nodes s a = Some c \<Longrightarrow> TriggerRecovery ev failed c = (r, c') \<Longrightarrow>
    election_step lossy s (s\<lparr>ec_nodes := (ec_nodes s)(a \<mapsto> c')\<rparr>)"

inductive election_reachable :: "bool \<Rightarrow> election_cluster \<Rightarrow> bool" for lossy where
  Start: "ec_sent s = [] \<Longrightarrow>
    (\<And>a c. ec_nodes s a = Some c \<Longrightarrow> \<exists>store. c = CoordinatorServiceImpl (co_node_id c) (co_peer_addresses c) store
        \<and> leader_id store = [] \<and> generation store = 0 \<and> co_node_id c \<noteq> []) \<Longrightarrow>
    election_reachable lossy s"
| Step: "election_reachable lossy s \<Longrightarrow> election_step lossy s s' \<Longrightarrow> election_reachable lossy s'"

section \<open>Priorities\<close>

text \<open>The id as a number in base 256.\<close>

definition id_value :: "string \<Rightarrow> nat" where
  "id_value s = foldl (\<lambda>n c. n * 256 + of_char c) 0 s"

lemma of_char_less: "(of_char c :: nat) < 256"
  using of_char_eq_iff [of c] nat_of_char_less_256 [of c] by simp

lemma id_value_Nil [simp]: "id_value [] = 0"
  by (simp add: id_value_def)

lemma id_value_snoc: "id_value (s @ [c]) = id_value s * 256 + of_char c"
  by (simp add: id_value_def)

lemma digit_less:
  fixes a b c x y :: nat
  assumes "x < b" "y < b"
  shows "a * b + x < c * b + y \<longleftrightarrow> a < c \<or> a = c \<and> x < y"
proof (cases a c rule: linorder_cases)
  case less
  then have "Suc a * b \<le> c * b" by (intro mult_le_mono1) simp
  with less assms show ?thesis by simp
next
  case greater
  then have "Suc c * b \<le> a * b" by (intro mult_le_mono1) simp
  with greater assms show ?thesis by simp
qed simp

lemma id_value_less: "id_value s < 256 ^ length s"
proof (induction s rule: rev_induct)
  case (snoc c s)
  then show ?case using digit_less [OF of_char_less [of c], of 0 "id_value s" "256 ^ length s"]
    by (simp add: id_value_snoc mult.commute)
qed simp

lemma id_value_append: "id_value (s @ t) = id_value s * 256 ^ length t + id_value t"
proof (induction t rule: rev_induct)
  case (snoc c t)
  have "id_value (s @ t @ [c]) = id_value ((s @ t) @ [c])" by simp
  then show ?case using snoc by (simp only: id_value_snoc) (simp add: algebra_simps)
qed simp

lemma node_priority_value: "node_priority s = word_of_nat (id_value s)"
  by (induction s rule: rev_induct) (simp_all add: node_priority_def id_value_def)

lemma unat_node_priority: "unat (node_priority s) = id_value s mod 2 ^ 64"
  by (simp add: node_priority_value unsigned_of_nat take_bit_eq_mod)

lemma id_value_lex:
  "length s = length t \<Longrightarrow> id_value s < id_value t \<longleftrightarrow> s < t"
proof (induction s arbitrary: t)
  case (Cons x s)
  then obtain y u where t: "t = y # u" "length s = length u" by (cases t) auto
  have v: "id_value (z # w) = of_char z * 256 ^ length w + id_value w" for z w
    using id_value_append [of "[z]" w] by (simp add: id_value_def)
  have "id_value s < 256 ^ length u" "id_value u < 256 ^ length u" using id_value_less [of s] id_value_less [of u] t(2) by simp_all
  from digit_less [OF this, of "of_char x" "of_char y"] Cons.IH [OF t(2)] t show ?case
    by (simp add: v less_char_def)
qed simp

lemma id_value_small: "length s \<le> 8 \<Longrightarrow> id_value s < 2 ^ 64"
proof -
  assume "length s \<le> 8"
  then have "(256 :: nat) ^ length s \<le> 256 ^ 8" by (intro power_increasing) simp_all
  with id_value_less [of s] show ?thesis by simp
qed

section \<open>Elections\<close>

lemma higher_peer_exists_iff: "higher_peer_exists replies peers \<longleftrightarrow> (\<exists>p \<in> set peers. replies p = Some False)"
  by (induction peers) auto

lemma set_leader_effect [simp]:
  "leader_id (set_leader ev l g m) = l" "generation (set_leader ev l g m) = g"
  by (simp_all add: set_leader_def leader_id_def generation_def)

lemma mark_offline_leader [simp]:
  "leader_id (snd (mark_node_offline ev i m)) = leader_id m" "generation (snd (mark_node_offline ev i m)) = generation m"
  by (simp_all add: mark_node_offline_def Let_def leader_id_def generation_def split: option.split)

text \<open>What a coordinator says of the leader is what its store says, and it leads when it names itself.\<close>

definition co_ok :: "coordinator \<Rightarrow> bool" where
  "co_ok c \<longleftrightarrow> (co_is_leader c \<longleftrightarrow> co_current_leader c = co_node_id c) \<and> co_node_id c \<noteq> []
     \<and> leader_id (co_metadata_store c) = co_current_leader c \<and> generation (co_metadata_store c) = co_generation c"

text \<open>What each operation does to a coordinator: it keeps its identity and the invariant, and changes the
  known leader only by winning or by an announcement.\<close>

definition same_identity :: "coordinator \<Rightarrow> coordinator \<Rightarrow> bool" where
  "same_identity c c' \<longleftrightarrow> co_node_id c' = co_node_id c \<and> co_peer_addresses c' = co_peer_addresses c"

lemma start_election_effect:
  assumes "start_election ev replies c = (sent, c')" "co_ok c"
  shows "co_ok c' \<and> same_identity c c'
    \<and> (c' = c \<and> sent = []
       \<or> (\<forall>p \<in> set (co_peer_addresses c). replies p \<noteq> Some False) \<and> co_is_leader c' \<and> co_current_leader c' = co_node_id c
         \<and> co_generation c' = co_generation c + 1
         \<and> sent = map (\<lambda>p. \<lparr>an_to = p, an_leader_id = co_node_id c, an_generation = co_generation c'\<rparr>) (co_peer_addresses c))"
  using assms by (auto simp: start_election_def Let_def higher_peer_exists_iff co_ok_def same_identity_def split: if_splits)

text \<open>A leader's id belongs to a coordinator of the cluster; where no answer is lost, to one with a lower
  priority than each of its peers.\<close>

definition elected :: "bool \<Rightarrow> election_cluster \<Rightarrow> string \<Rightarrow> bool" where
  "elected lossy s l \<longleftrightarrow> (\<exists>b d. ec_nodes s b = Some d \<and> co_node_id d = l
     \<and> (lossy \<or> (\<forall>p \<in> set (co_peer_addresses d). \<forall>q. ec_nodes s p = Some q \<longrightarrow>
          node_priority (co_node_id d) < node_priority (co_node_id q))))"

definition cluster_ok :: "bool \<Rightarrow> election_cluster \<Rightarrow> bool" where
  "cluster_ok lossy s \<longleftrightarrow>
     (\<forall>a c. ec_nodes s a = Some c \<longrightarrow> co_ok c \<and> (co_current_leader c = [] \<or> elected lossy s (co_current_leader c)))
     \<and> (\<forall>m \<in> set (ec_sent s). elected lossy s (an_leader_id m))"

lemma elected_update:
  assumes "ec_nodes s a = Some c" "same_identity c c'"
  shows "elected lossy (s\<lparr>ec_nodes := (ec_nodes s)(a \<mapsto> c'), ec_sent := ms\<rparr>) l = elected lossy s l"
proof -
  let ?id = "\<lambda>t b. map_option (\<lambda>d. (co_node_id d, co_peer_addresses d)) (ec_nodes t b)"
  have e: "elected lossy t l \<longleftrightarrow> (\<exists>b ps. ?id t b = Some (l, ps) \<and> (lossy \<or> (\<forall>p \<in> set ps. \<forall>i qs. ?id t p = Some (i, qs) \<longrightarrow>
      node_priority l < node_priority i)))" for t :: election_cluster
    unfolding elected_def by fastforce
  have "?id (s\<lparr>ec_nodes := (ec_nodes s)(a \<mapsto> c'), ec_sent := ms\<rparr>) b = ?id s b" for b
    using assms by (simp add: same_identity_def)
  then show ?thesis unfolding e by (simp only:)
qed

lemma cluster_ok_update:
  assumes "cluster_ok lossy s" "ec_nodes s a = Some c" "same_identity c c'" "co_ok c'"
    and "co_current_leader c' = [] \<or> elected lossy s (co_current_leader c')" "\<forall>m \<in> set ms. elected lossy s (an_leader_id m)"
  shows "cluster_ok lossy (s\<lparr>ec_nodes := (ec_nodes s)(a \<mapsto> c'), ec_sent := ms\<rparr>)"
  using assms by (simp add: cluster_ok_def elected_update)

lemma election_won:
  assumes ok: "cluster_ok lossy s" and c: "ec_nodes s a = Some c" and r: "replies_ok lossy s c replies"
    and e: "start_election ev replies c = (sent, c')"
  shows "cluster_ok lossy (s\<lparr>ec_nodes := (ec_nodes s)(a \<mapsto> c'), ec_sent := ec_sent s @ sent\<rparr>)"
proof -
  have inv: "co_ok c" "co_current_leader c = [] \<or> elected lossy s (co_current_leader c)"
      "\<forall>m \<in> set (ec_sent s). elected lossy s (an_leader_id m)"
    using ok c by (auto simp: cluster_ok_def)
  note eff = start_election_effect [OF e inv(1)]
  have won: "elected lossy s (co_node_id c)" if "\<forall>p \<in> set (co_peer_addresses c). replies p \<noteq> Some False"
  proof -
    have "node_priority (co_node_id c) < node_priority (co_node_id q)"
      if "\<not> lossy" "p \<in> set (co_peer_addresses c)" "ec_nodes s p = Some q" for p q
    proof -
      have "replies p = Some (node_priority (co_node_id c) < node_priority (co_node_id q))"
        using r that by (auto simp: replies_ok_def answer_def)
      with \<open>\<forall>p \<in> set (co_peer_addresses c). replies p \<noteq> Some False\<close> that(2) show ?thesis by auto
    qed
    with c show ?thesis by (auto simp: elected_def)
  qed
  show ?thesis
    using eff inv won by (intro cluster_ok_update [OF ok c]) auto
qed

lemma election_step_ok:
  assumes "election_step lossy s s'" "cluster_ok lossy s"
  shows "cluster_ok lossy s'"
  using assms
proof (cases rule: election_step.cases)
  case (Tick a c replies ev sent c')
  show ?thesis
  proof (cases "co_is_leader c")
    case True
    then have "s' = s" using Tick by (simp add: election_tick_def map_upd_triv)
    with assms(2) show ?thesis by simp
  next
    case False
    then have "start_election ev replies c = (sent, c')" using Tick(4) by (simp add: election_tick_def)
    from election_won [OF assms(2) Tick(2,3) this] show ?thesis by (simp add: Tick(1))
  qed
next
  case (Asked a c b d replies ev r sent c')
  then consider "start_election ev replies c = (sent, c')" | "sent = []" "c' = c"
    by (auto simp: RequestElection_def split: if_splits)
  then show ?thesis
  proof cases
    case 1
    from election_won [OF assms(2) Asked(2,5) this] show ?thesis by (simp add: Asked(1))
  next
    case 2
    then have "s' = s" using Asked by (simp add: map_upd_triv)
    with assms(2) show ?thesis by simp
  qed
next
  case (Announced m c ev r c')
  have c': "same_identity c c'" "co_ok c'" "co_current_leader c' = an_leader_id m"
    using Announced assms(2) by (auto simp: AnnounceLeader_def same_identity_def co_ok_def cluster_ok_def)
  have "elected lossy s (an_leader_id m)" using Announced(2) assms(2) by (simp add: cluster_ok_def)
  moreover have "\<forall>x \<in> set (remove1 m (ec_sent s)). elected lossy s (an_leader_id x)"
    using assms(2) set_remove1_subset [of m "ec_sent s"] by (auto simp: cluster_ok_def)
  ultimately show ?thesis
    unfolding Announced(1) using c' by (intro cluster_ok_update [OF assms(2) Announced(3)]) simp_all
next
  case (Lost m)
  have "elected lossy (s\<lparr>ec_sent := ms\<rparr>) l = elected lossy s l" for ms l by (simp add: elected_def)
  then show ?thesis
    using assms(2) set_remove1_subset [of m "ec_sent s"] unfolding Lost(1) by (auto simp: cluster_ok_def)
next
  case (Triggered a c ev failed r c')
  have "same_identity c c'" "co_ok c'" "co_current_leader c' = co_current_leader c"
    using Triggered assms(2) by (auto simp: TriggerRecovery_def same_identity_def co_ok_def cluster_ok_def split: if_splits)
  with assms(2) cluster_ok_update [OF assms(2) Triggered(2), of c' "ec_sent s"] show ?thesis
    using Triggered(2) unfolding Triggered(1) by (auto simp: cluster_ok_def)
qed

lemma election_reachable_ok: "election_reachable lossy s \<Longrightarrow> cluster_ok lossy s"
proof (induction rule: election_reachable.induct)
  case (Start s)
  have "co_ok c \<and> co_current_leader c = []" if node: "ec_nodes s a = Some c" for a c
  proof -
    obtain store where "c = CoordinatorServiceImpl (co_node_id c) (co_peer_addresses c) store"
        "leader_id store = []" "generation store = 0" "co_node_id c \<noteq> []"
      using Start(2) [OF node] by blast
    then show ?thesis by (metis CoordinatorServiceImpl_def co_ok_def coordinator.select_convs)
  qed
  with Start(1) show ?case by (simp add: cluster_ok_def)
next
  case (Step s s')
  then show ?case using election_step_ok by blast
qed

section \<open>Properties of the election\<close>

text \<open>C26. In every reachable state of the cluster, whatever is lost, each coordinator is consistent: it says
  it is the leader exactly when the leader it names is itself, its metadata store records the same
  leader and generation, and the leader it names, if any, is a coordinator of the cluster.\<close>

theorem coordinators_consistent:
  assumes "election_reachable lossy s" "ec_nodes s a = Some c"
  shows "(co_is_leader c \<longleftrightarrow> co_current_leader c = co_node_id c)
    \<and> leader_id (co_metadata_store c) = co_current_leader c \<and> generation (co_metadata_store c) = co_generation c
    \<and> (co_current_leader c = [] \<or> (\<exists>b d. ec_nodes s b = Some d \<and> co_node_id d = co_current_leader c))"
  using election_reachable_ok [OF assms(1)] assms(2) unfolding cluster_ok_def co_ok_def elected_def by blast

text \<open>Two coordinators that are each other's peers.\<close>

definition example_cluster :: "string \<Rightarrow> string \<Rightarrow> election_cluster" where
  "example_cluster i j = \<lparr>ec_nodes = [''h1'' \<mapsto> CoordinatorServiceImpl i [''h2''] (MetadataStore ''p'' True None),
     ''h2'' \<mapsto> CoordinatorServiceImpl j [''h1''] (MetadataStore ''q'' True None)], ec_sent = []\<rparr>"

lemma example_cluster_reachable:
  assumes "i \<noteq> []" "j \<noteq> []"
  shows "election_reachable lossy (example_cluster i j)"
proof (rule election_reachable.Start)
  fix a c assume "ec_nodes (example_cluster i j) a = Some c"
  then have "c = CoordinatorServiceImpl i [''h2''] (MetadataStore ''p'' True None)
      \<or> c = CoordinatorServiceImpl j [''h1''] (MetadataStore ''q'' True None)"
    by (auto simp: example_cluster_def split: if_splits)
  then show "\<exists>store. c = CoordinatorServiceImpl (co_node_id c) (co_peer_addresses c) store
      \<and> leader_id store = [] \<and> generation store = 0 \<and> co_node_id c \<noteq> []"
    using assms by (auto simp: CoordinatorServiceImpl_def MetadataStore_def load_def leader_id_def generation_def)
qed (simp add: example_cluster_def)

definition after_election :: "string \<Rightarrow> string \<Rightarrow> election_cluster" where
  "after_election i j = (let s = example_cluster i j; c = CoordinatorServiceImpl i [''h2''] (MetadataStore ''p'' True None);
     (sent, c') = election_tick example_env (answer s (node_priority i)) c
   in s\<lparr>ec_nodes := (ec_nodes s)(''h1'' \<mapsto> c'), ec_sent := sent\<rparr>)"

lemma after_election_reachable:
  assumes "i \<noteq> []" "j \<noteq> []"
  shows "election_reachable lossy (after_election i j)"
proof -
  let ?s = "example_cluster i j" and ?c = "CoordinatorServiceImpl i [''h2''] (MetadataStore ''p'' True None)"
  let ?r = "election_tick example_env (answer ?s (node_priority i)) ?c"
  have "election_step lossy ?s (?s\<lparr>ec_nodes := (ec_nodes ?s)(''h1'' \<mapsto> snd ?r), ec_sent := ec_sent ?s @ fst ?r\<rparr>)"
    by (rule election_step.Tick [where c = ?c and replies = "answer ?s (node_priority i)" and ev = example_env])
      (simp_all add: example_cluster_def replies_ok_def CoordinatorServiceImpl_def)
  moreover have "ec_sent ?s = []" by (simp add: example_cluster_def)
  ultimately have "election_step lossy ?s (after_election i j)"
    by (simp add: after_election_def Let_def split_def)
  with example_cluster_reachable [OF assms] show ?thesis by (rule election_reachable.Step)
qed

theorem coordinators_consistent_witness:
  "\<exists>c. ec_nodes (after_election ''a'' ''b'') ''h1'' = Some c \<and> co_is_leader c
     \<and> leader_id (co_metadata_store c) = ''a''"
proof -
  have "\<exists>c. ec_nodes (after_election ''a'' ''b'') ''h1'' = Some c \<and> co_is_leader c \<and> co_node_id c = ''a''"
    by (simp add: after_election_def Let_def example_cluster_def election_tick_def start_election_def answer_def
        CoordinatorServiceImpl_def node_priority_def)
  then obtain c where c: "ec_nodes (after_election ''a'' ''b'') ''h1'' = Some c" "co_is_leader c" "co_node_id c = ''a''"
    by blast
  with coordinators_consistent [OF after_election_reachable [of "''a''" "''b''" True] c(1)] show ?thesis by simp
qed




definition split_step :: "string \<Rightarrow> election_cluster \<Rightarrow> election_cluster" where
  "split_step a s = (case ec_nodes s a of None \<Rightarrow> s | Some c \<Rightarrow>
     (let (sent, c') = election_tick example_env (\<lambda>_. None) c
      in s\<lparr>ec_nodes := (ec_nodes s)(a \<mapsto> c'), ec_sent := ec_sent s @ sent\<rparr>))"

lemma split_step_reachable:
  assumes "election_reachable True s" "ec_nodes s a = Some c"
  shows "election_reachable True (split_step a s)"
proof -
  have "election_step True s (split_step a s)"
    using election_step.Tick [OF assms(2), of True "\<lambda>_. None" example_env, OF _ prod.collapse [symmetric]] assms(2)
    by (simp add: split_step_def Let_def split_def replies_ok_def)
  with assms(1) show ?thesis by (rule election_reachable.Step)
qed

text \<open>C40. With answers lost, two coordinators can lead at the same time in the same generation, each the
  leader of its own metadata store.\<close>

theorem lost_answers_split_brain:
  "\<exists>s c d. election_reachable True s \<and> ec_nodes s ''h1'' = Some c \<and> ec_nodes s ''h2'' = Some d
     \<and> co_is_leader c \<and> co_is_leader d \<and> co_node_id c \<noteq> co_node_id d \<and> co_generation c = co_generation d
     \<and> leader_id (co_metadata_store c) \<noteq> leader_id (co_metadata_store d)"
proof -
  define s1 where "s1 = split_step ''h1'' (example_cluster ''a'' ''b'')"
  define s2 where "s2 = split_step ''h2'' s1"
  have e: "election_tick ev (\<lambda>_. None) (CoordinatorServiceImpl i ps m) = (map (\<lambda>p. \<lparr>an_to = p, an_leader_id = i, an_generation = 1\<rparr>) ps,
      (CoordinatorServiceImpl i ps m)\<lparr>co_is_leader := True, co_generation := 1, co_current_leader := i,
        co_metadata_store := set_leader ev i 1 m\<rparr>)" for ev i ps m
    by (simp add: election_tick_def start_election_def higher_peer_exists_iff CoordinatorServiceImpl_def)
  have "election_reachable True (example_cluster ''a'' ''b'')" by (rule example_cluster_reachable) simp_all
  then have "election_reachable True s1"
    unfolding s1_def by (rule split_step_reachable) (simp add: example_cluster_def)
  moreover have n1: "ec_nodes s1 ''h2'' = Some (CoordinatorServiceImpl ''b'' [''h1''] (MetadataStore ''q'' True None))"
    by (simp add: s1_def split_step_def example_cluster_def e)
  ultimately have r: "election_reachable True s2" unfolding s2_def by (rule split_step_reachable)
  moreover have "\<exists>c d. ec_nodes s2 ''h1'' = Some c \<and> ec_nodes s2 ''h2'' = Some d
     \<and> co_is_leader c \<and> co_is_leader d \<and> co_node_id c \<noteq> co_node_id d \<and> co_generation c = co_generation d
     \<and> leader_id (co_metadata_store c) \<noteq> leader_id (co_metadata_store d)"
    by (simp add: s2_def s1_def split_step_def example_cluster_def e) (simp add: CoordinatorServiceImpl_def)
  ultimately show ?thesis by blast
qed

text \<open>The priority is the id read as a number in base 256, modulo \<open>2 ^ 64\<close>: only the last eight
  characters count, ids of one length of at most eight characters are ordered as the comment says,
  lexicographically, but a longer id beats a shorter one that comes after it.\<close>

theorem node_priority_order:
  "(length t = 8 \<longrightarrow> node_priority (s @ t) = node_priority t)
   \<and> (length s = length t \<and> length t \<le> 8 \<longrightarrow> (node_priority s < node_priority t \<longleftrightarrow> s < t))
   \<and> node_priority ''b'' < node_priority ''aa'' \<and> ''aa'' < ''b''"
proof (intro conjI impI)
  assume t: "length t = 8"
  have "id_value (s @ t) mod 2 ^ 64 = (id_value s * 2 ^ 64 + id_value t) mod 2 ^ 64"
    using t by (simp add: id_value_append)
  also have "\<dots> = id_value t mod 2 ^ 64" by (rule mod_mult_self3)
  finally have "unat (node_priority (s @ t)) = unat (node_priority t)" by (simp only: unat_node_priority)
  then show "node_priority (s @ t) = node_priority t" by (rule unsigned_word_eqI)
next
  assume "length s = length t \<and> length t \<le> 8"
  moreover from this have "unat (node_priority s) = id_value s" "unat (node_priority t) = id_value t"
    using id_value_small [of s] id_value_small [of t] by (simp_all add: unat_node_priority)
  ultimately show "node_priority s < node_priority t \<longleftrightarrow> s < t" by (simp add: word_less_nat_alt id_value_lex)
qed (simp_all add: node_priority_def less_char_def)

theorem node_priority_order_witness:
  "node_priority ''my-coordinator-1'' = node_priority ''dinator-1'' \<and> (node_priority ''n1'' < node_priority ''n2'' \<longleftrightarrow> ''n1'' < ''n2'')"
  using node_priority_order [of "''inator-1''" "''my-coord''"] node_priority_order [of "''inator-1''" "''d''"]
    node_priority_order [of "''n2''" "''n1''"] by simp

end
