(* ===== verification/Config.thy ===== *)
theory Config
  imports Metadata_Service
begin

text \<open>
  \<open>src/common/config.cpp\<close> and \<open>config.hpp\<close>: a process's configuration, its file and its environment
  variables. \<open>std::stoul\<close> is modelled with its exceptions; the loaders return the exception they end
  with, if any, and the configuration as it is then. The singleton is the value threaded through.
\<close>

section \<open>Definitions\<close>

record Config =
  cf_cluster :: ClusterConfig
  cf_node_id :: string
  cf_storage_path :: string
  cf_listen_address :: string
  cf_advertise_address :: string
  cf_metadata_persist_path :: string
  cf_use_rocksdb :: bool

definition Config_default :: Config where
  "Config_default = \<lparr>cf_cluster = ClusterConfig_default, cf_node_id = [], cf_storage_path = ''./storage'',
     cf_listen_address = ''0.0.0.0:50053'', cf_advertise_address = [],
     cf_metadata_persist_path = ''./metadata_store.json'', cf_use_rocksdb = False\<rparr>"

datatype config_error = InvalidArgument | OutOfRange

definition is_space :: "char \<Rightarrow> bool" where
  "is_space c \<longleftrightarrow> (let n = of_char c :: nat in n = 32 \<or> 9 \<le> n \<and> n \<le> 13)"

definition is_digit :: "char \<Rightarrow> bool" where
  "is_digit c \<longleftrightarrow> (let n = of_char c :: nat in 48 \<le> n \<and> n \<le> 57)"

definition digits_value :: "string \<Rightarrow> nat" where
  "digits_value ds = foldl (\<lambda>n c. n * 10 + (of_char c - 48)) 0 ds"

text \<open>\<open>std::stoul\<close> in base ten: leading space, a sign, digits; what follows them is ignored, and a minus
  sign negates in 64 bits.\<close>

definition stoul :: "string \<Rightarrow> config_error + u64" where
  "stoul s =
     (let t = dropWhile is_space s;
          neg = (t \<noteq> [] \<and> hd t = CHR ''-'');
          u = (if t \<noteq> [] \<and> (hd t = CHR ''-'' \<or> hd t = CHR ''+'') then tl t else t);
          ds = takeWhile is_digit u
      in if ds = [] then Inl InvalidArgument
         else if digits_value ds \<ge> 2 ^ 64 then Inl OutOfRange
         else Inr (if neg then - word_of_nat (digits_value ds) else word_of_nat (digits_value ds)))"

text \<open>A 32-bit setting: the value is narrowed on assignment.\<close>

definition set_u32 :: "(u32 \<Rightarrow> ClusterConfig \<Rightarrow> ClusterConfig) \<Rightarrow> string \<Rightarrow> Config \<Rightarrow> config_error + Config" where
  "set_u32 upd val c =
     (case stoul val of Inl e \<Rightarrow> Inl e | Inr n \<Rightarrow> Inr (c\<lparr>cf_cluster := upd (ucast n) (cf_cluster c)\<rparr>))"

definition set_cluster :: "(ClusterConfig \<Rightarrow> ClusterConfig) \<Rightarrow> Config \<Rightarrow> config_error + Config" where
  "set_cluster upd c = Inr (c\<lparr>cf_cluster := upd (cf_cluster c)\<rparr>)"

definition apply_setting :: "string \<Rightarrow> string \<Rightarrow> Config \<Rightarrow> config_error + Config" where
  "apply_setting key val c =
     (if key = ''replication_factor'' then set_u32 (\<lambda>n cl. cl\<lparr>cc_replication_factor := n\<rparr>) val c
      else if key = ''chunk_size_mb'' then set_u32 (\<lambda>n cl. cl\<lparr>cc_chunk_size_mb := n\<rparr>) val c
      else if key = ''heartbeat_interval_sec'' then set_u32 (\<lambda>n cl. cl\<lparr>cc_heartbeat_interval_sec := n\<rparr>) val c
      else if key = ''heartbeat_timeout_sec'' then set_u32 (\<lambda>n cl. cl\<lparr>cc_heartbeat_timeout_sec := n\<rparr>) val c
      else if key = ''metadata_address'' then set_cluster (\<lambda>cl. cl\<lparr>cc_metadata_address := val\<rparr>) c
      else if key = ''coordinator_address'' then set_cluster (\<lambda>cl. cl\<lparr>cc_coordinator_address := val\<rparr>) c
      else if key = ''node_id'' then Inr (c\<lparr>cf_node_id := val\<rparr>)
      else if key = ''storage_path'' then Inr (c\<lparr>cf_storage_path := val\<rparr>)
      else if key = ''listen_address'' then Inr (c\<lparr>cf_listen_address := val\<rparr>)
      else if key = ''advertise_address'' then Inr (c\<lparr>cf_advertise_address := val\<rparr>)
      else if key = ''metadata_persist_path'' then Inr (c\<lparr>cf_metadata_persist_path := val\<rparr>)
      else if key = ''load_balance'' then
        (if val = ''round_robin'' then set_cluster (\<lambda>cl. cl\<lparr>cc_load_balance := RoundRobin\<rparr>) c
         else if val = ''least_used'' then set_cluster (\<lambda>cl. cl\<lparr>cc_load_balance := LeastUsed\<rparr>) c
         else if val = ''random'' then set_cluster (\<lambda>cl. cl\<lparr>cc_load_balance := Random\<rparr>) c
         else Inr c)
      else if key = ''write_ack'' then
        set_cluster (\<lambda>cl. cl\<lparr>cc_write_ack := (if val = ''all'' then All else Majority)\<rparr>) c
      else if key = ''use_rocksdb'' then Inr (c\<lparr>cf_use_rocksdb := (val = ''true'' \<or> val = ''1'')\<rparr>)
      else Inr c)"

definition load_line :: "string \<Rightarrow> Config \<Rightarrow> config_error + Config" where
  "load_line line c =
     (if line = [] \<or> hd line = CHR ''#'' then Inr c
      else if CHR ''='' \<notin> set line then Inr c
      else let key = takeWhile (\<lambda>x. x \<noteq> CHR ''='') line
           in apply_setting key (drop (length key + 1) line) c)"

text \<open>\<open>std::getline\<close> until the end of the file.\<close>

fun getlines :: "string \<Rightarrow> string \<Rightarrow> string list" where
  "getlines acc [] = (if acc = [] then [] else [acc])"
| "getlines acc (c # cs) = (if c = CHR 0x0A then acc # getlines [] cs else getlines (acc @ [c]) cs)"

fun load_lines :: "string list \<Rightarrow> Config \<Rightarrow> config_error option \<times> Config" where
  "load_lines [] c = (None, c)"
| "load_lines (line # rest) c = (case load_line line c of Inl e \<Rightarrow> (Some e, c) | Inr c1 \<Rightarrow> load_lines rest c1)"

text \<open>\<open>content\<close> is \<open>None\<close> where the file cannot be opened.\<close>

definition load_from_file :: "string option \<Rightarrow> Config \<Rightarrow> config_error option \<times> Config" where
  "load_from_file content c = (case content of None \<Rightarrow> (None, c) | Some text \<Rightarrow> load_lines (getlines [] text) c)"

definition env_setting :: "(string \<Rightarrow> string option) \<Rightarrow> string \<Rightarrow> (string \<Rightarrow> Config \<Rightarrow> config_error + Config)
   \<Rightarrow> Config \<Rightarrow> config_error + Config" where
  "env_setting getenv name f c = (case getenv name of None \<Rightarrow> Inr c | Some v \<Rightarrow> f v c)"

fun env_settings :: "(Config \<Rightarrow> config_error + Config) list \<Rightarrow> Config \<Rightarrow> config_error option \<times> Config" where
  "env_settings [] c = (None, c)"
| "env_settings (f # fs) c = (case f c of Inl e \<Rightarrow> (Some e, c) | Inr c1 \<Rightarrow> env_settings fs c1)"

definition load_from_env :: "(string \<Rightarrow> string option) \<Rightarrow> Config \<Rightarrow> config_error option \<times> Config" where
  "load_from_env getenv c = env_settings
     [env_setting getenv ''DSE_NODE_ID'' (\<lambda>v c. Inr (c\<lparr>cf_node_id := v\<rparr>)),
      env_setting getenv ''DSE_STORAGE_PATH'' (\<lambda>v c. Inr (c\<lparr>cf_storage_path := v\<rparr>)),
      env_setting getenv ''DSE_LISTEN_ADDRESS'' (\<lambda>v c. Inr (c\<lparr>cf_listen_address := v\<rparr>)),
      env_setting getenv ''DSE_ADVERTISE_ADDRESS'' (\<lambda>v c. Inr (c\<lparr>cf_advertise_address := v\<rparr>)),
      env_setting getenv ''DSE_METADATA_ADDRESS'' (\<lambda>v. set_cluster (\<lambda>cl. cl\<lparr>cc_metadata_address := v\<rparr>)),
      env_setting getenv ''DSE_COORDINATOR_ADDRESS'' (\<lambda>v. set_cluster (\<lambda>cl. cl\<lparr>cc_coordinator_address := v\<rparr>)),
      env_setting getenv ''DSE_REPLICATION_FACTOR'' (set_u32 (\<lambda>n cl. cl\<lparr>cc_replication_factor := n\<rparr>)),
      env_setting getenv ''DSE_CHUNK_SIZE_MB'' (set_u32 (\<lambda>n cl. cl\<lparr>cc_chunk_size_mb := n\<rparr>))] c"

definition advertise_address :: "Config \<Rightarrow> string" where
  "advertise_address c = (if cf_advertise_address c = [] then cf_listen_address c else cf_advertise_address c)"

definition chunk_size_bytes :: "Config \<Rightarrow> u32" where
  "chunk_size_bytes c = cc_chunk_size_mb (cf_cluster c) * 1024 * 1024"

section \<open>Numbers\<close>

lemma hex_digit_char: "n < 10 \<Longrightarrow> (of_char (hex_digit n) :: nat) = 48 + n"
proof -
  assume "n < 10"
  then have "n \<in> {0, 1, 2, 3, 4, 5, 6, 7, 8, 9}" by auto
  then show ?thesis by (auto simp: hex_digit_def)
qed

lemma dec_string_digits: "list_all is_digit (dec_string n) \<and> dec_string n \<noteq> [] \<and> digits_value (dec_string n) = n"
proof (induction n rule: dec_string.induct)
  case (1 n)
  show ?case
  proof (cases "n < 10")
    case True
    then show ?thesis by (simp add: dec_string.simps [of n] is_digit_def hex_digit_char digits_value_def)
  next
    case False
    have "(of_char (hex_digit (n mod 10)) :: nat) = 48 + n mod 10" by (rule hex_digit_char) simp
    then show ?thesis using 1 False
      by (simp add: dec_string.simps [of n] is_digit_def digits_value_def)
  qed
qed

lemma stoul_digits:
  assumes "list_all is_digit ds" "ds \<noteq> []" "digits_value ds < 2 ^ 64"
  shows "stoul ds = Inr (word_of_nat (digits_value ds))"
proof -
  obtain d r where d: "ds = d # r" "is_digit d" using assms(1,2) by (cases ds) auto
  then have "\<not> is_space d" "d \<noteq> CHR ''-''" "d \<noteq> CHR ''+''" by (auto simp: is_digit_def is_space_def Let_def)
  moreover have "takeWhile is_digit ds = ds" using assms(1) by (simp add: list_all_iff)
  ultimately show ?thesis using assms(3) d(1) by (simp add: stoul_def)
qed

lemma stoul_dec_string: "stoul (dec_string (unat (n :: u32))) = Inr (ucast n)"
proof -
  have "unat n < 2 ^ 64" using unsigned_less [of n] by (rule less_trans) simp
  then show ?thesis using dec_string_digits [of "unat n"] by (simp add: stoul_digits unsigned_ucast_eq)
qed

lemma set_u32_dec: "set_u32 upd (dec_string (unat n)) c = Inr (c\<lparr>cf_cluster := upd n (cf_cluster c)\<rparr>)"
proof -
  have "(ucast (ucast n :: u64) :: u32) = n" by (rule unsigned_word_eqI) (simp add: unsigned_ucast_eq take_bit_word_eq_self)
  then show ?thesis by (simp add: set_u32_def stoul_dec_string)
qed

section \<open>Lines\<close>

lemma getlines_line:
  "CHR 0x0A \<notin> set line \<Longrightarrow> getlines acc (line @ CHR 0x0A # rest) = (acc @ line) # getlines [] rest"
  by (induction line arbitrary: acc) auto

lemma getlines_unlines:
  "\<forall>l \<in> set ls. CHR 0x0A \<notin> set l \<Longrightarrow> getlines [] (concat (map (\<lambda>l. l @ nl) ls)) = ls"
  by (induction ls) (simp_all add: getlines_line nl_def)

lemma load_line_setting:
  assumes "key \<noteq> []" "hd key \<noteq> CHR ''#''" "CHR ''='' \<notin> set key"
  shows "load_line (key @ CHR ''='' # val) c = apply_setting key val c"
proof -
  have "takeWhile (\<lambda>x. x \<noteq> CHR ''='') (key @ CHR ''='' # val) = key"
    using assms(3) by (subst takeWhile_append2) auto
  with assms show ?thesis by (simp add: load_line_def)
qed

section \<open>Properties of the configuration\<close>

text \<open>A configuration as the lines of a file.\<close>

definition balance_name :: "LoadBalanceStrategy \<Rightarrow> string" where
  "balance_name b = (case b of RoundRobin \<Rightarrow> ''round_robin'' | LeastUsed \<Rightarrow> ''least_used'' | Random \<Rightarrow> ''random'')"

definition config_settings :: "Config \<Rightarrow> (string \<times> string) list" where
  "config_settings c = (let cl = cf_cluster c in
     [(''replication_factor'', dec_string (unat (cc_replication_factor cl))),
      (''chunk_size_mb'', dec_string (unat (cc_chunk_size_mb cl))),
      (''heartbeat_interval_sec'', dec_string (unat (cc_heartbeat_interval_sec cl))),
      (''heartbeat_timeout_sec'', dec_string (unat (cc_heartbeat_timeout_sec cl))),
      (''metadata_address'', cc_metadata_address cl), (''coordinator_address'', cc_coordinator_address cl),
      (''node_id'', cf_node_id c), (''storage_path'', cf_storage_path c), (''listen_address'', cf_listen_address c),
      (''advertise_address'', cf_advertise_address c), (''metadata_persist_path'', cf_metadata_persist_path c),
      (''load_balance'', balance_name (cc_load_balance cl)),
      (''write_ack'', if cc_write_ack cl = All then ''all'' else ''majority''),
      (''use_rocksdb'', if cf_use_rocksdb c then ''true'' else ''false'')])"

definition config_text :: "Config \<Rightarrow> string" where
  "config_text c = concat (map (\<lambda>l. l @ nl) (map (\<lambda>(key, val). key @ CHR ''='' # val) (config_settings c)))"

lemma apply_balance: "apply_setting ''load_balance'' (balance_name b) c = set_cluster (\<lambda>cl. cl\<lparr>cc_load_balance := b\<rparr>) c"
  by (cases b) (simp_all add: apply_setting_def balance_name_def)

lemma apply_numbers:
  "apply_setting ''replication_factor'' (dec_string (unat n)) c = Inr (c\<lparr>cf_cluster := (cf_cluster c)\<lparr>cc_replication_factor := n\<rparr>\<rparr>)"
  "apply_setting ''chunk_size_mb'' (dec_string (unat n)) c = Inr (c\<lparr>cf_cluster := (cf_cluster c)\<lparr>cc_chunk_size_mb := n\<rparr>\<rparr>)"
  "apply_setting ''heartbeat_interval_sec'' (dec_string (unat n)) c = Inr (c\<lparr>cf_cluster := (cf_cluster c)\<lparr>cc_heartbeat_interval_sec := n\<rparr>\<rparr>)"
  "apply_setting ''heartbeat_timeout_sec'' (dec_string (unat n)) c = Inr (c\<lparr>cf_cluster := (cf_cluster c)\<lparr>cc_heartbeat_timeout_sec := n\<rparr>\<rparr>)"
  by (simp_all add: apply_setting_def set_u32_dec)

lemma apply_write_ack:
  "apply_setting ''write_ack'' (if a = All then ''all'' else ''majority'') c = set_cluster (\<lambda>cl. cl\<lparr>cc_write_ack := a\<rparr>) c"
  by (cases a) (simp_all add: apply_setting_def)

lemma apply_rocksdb: "apply_setting ''use_rocksdb'' (if b then ''true'' else ''false'') c = Inr (c\<lparr>cf_use_rocksdb := b\<rparr>)"
  by (simp add: apply_setting_def)

lemma apply_strings:
  "apply_setting ''metadata_address'' v c = set_cluster (\<lambda>cl. cl\<lparr>cc_metadata_address := v\<rparr>) c"
  "apply_setting ''coordinator_address'' v c = set_cluster (\<lambda>cl. cl\<lparr>cc_coordinator_address := v\<rparr>) c"
  "apply_setting ''node_id'' v c = Inr (c\<lparr>cf_node_id := v\<rparr>)"
  "apply_setting ''storage_path'' v c = Inr (c\<lparr>cf_storage_path := v\<rparr>)"
  "apply_setting ''listen_address'' v c = Inr (c\<lparr>cf_listen_address := v\<rparr>)"
  "apply_setting ''advertise_address'' v c = Inr (c\<lparr>cf_advertise_address := v\<rparr>)"
  "apply_setting ''metadata_persist_path'' v c = Inr (c\<lparr>cf_metadata_persist_path := v\<rparr>)"
  by (simp_all add: apply_setting_def)

lemmas apply_settings = apply_balance apply_numbers apply_write_ack apply_rocksdb apply_strings

text \<open>C31. A configuration written as the lines of a file, one setting each, is loaded back exactly, over
  whatever configuration was there before and with no exception. The strings contain no line break.\<close>

theorem config_round_trip:
  assumes "\<forall>(key, val) \<in> set (config_settings c). CHR 0x0A \<notin> set val"
  shows "load_from_file (Some (config_text c)) c0 = (None, c)"
proof -
  have "\<forall>l \<in> set (map (\<lambda>(key, val). key @ CHR ''='' # val) (config_settings c)). CHR 0x0A \<notin> set l"
    using assms by (auto simp: config_settings_def Let_def)
  then have "load_from_file (Some (config_text c)) c0
      = load_lines (map (\<lambda>(key, val). key @ CHR ''='' # val) (config_settings c)) c0"
    unfolding load_from_file_def config_text_def by (simp only: getlines_unlines option.case)
  also have "\<dots> = (None, c)"
    by (simp add: config_settings_def Let_def load_line_setting apply_settings set_cluster_def
        del: append_Cons append.simps)
  finally show ?thesis .
qed

theorem config_round_trip_witness:
  "load_from_file (Some (config_text (Config_default\<lparr>cf_node_id := ''n1''\<rparr>))) Config_default
   = (None, Config_default\<lparr>cf_node_id := ''n1''\<rparr>)"
proof (rule config_round_trip)
  have "CHR 0x0A \<notin> set (dec_string n)" for n
    using dec_string_digits [of n] by (auto simp: list_all_iff is_digit_def)
  then show "\<forall>(key, val) \<in> set (config_settings (Config_default\<lparr>cf_node_id := ''n1''\<rparr>)). CHR 0x0A \<notin> set val"
    by (simp add: config_settings_def Config_default_def ClusterConfig_default_def balance_name_def Let_def)
qed

end
