(* ===== verification/Thread_Pool.thy ===== *)
theory Thread_Pool
  imports DSE_Prelude "HOL-Library.Multiset"
begin

text \<open>
  \<open>src/common/thread_pool.cpp\<close> and \<open>thread_pool.hpp\<close>: a queue of tasks and a fixed number of worker
  threads under one mutex and one condition variable. Each critical section and each notification is an
  atomic step; the steps interleave freely. A worker is about to enter its critical section, asleep on
  the condition variable, running a task, or has returned. The fields \<open>tp_submitted\<close>, \<open>tp_started\<close> and
  \<open>tp_finished\<close> record the history. Futures and the tasks' results are not modelled (a
  \<open>packaged_task\<close> keeps its exception to itself, so running a task always returns to the loop).
\<close>

section \<open>Definitions\<close>

datatype 'a worker = Ready | Asleep | Running 'a | Exited

record 'a pool =
  tp_workers :: "'a worker list"
  tp_tasks :: "'a list"
  tp_stop :: bool
  tp_pending :: nat
  tp_notified :: bool
  tp_submitted :: "'a list"
  tp_started :: "'a list"
  tp_finished :: "'a list"

definition ThreadPool :: "nat \<Rightarrow> 'a pool" where
  "ThreadPool num_threads = \<lparr>tp_workers = replicate num_threads Ready, tp_tasks = [], tp_stop = False,
     tp_pending = 0, tp_notified = False, tp_submitted = [], tp_started = [], tp_finished = []\<rparr>"

text \<open>The critical section of \<open>submit\<close>; a call of \<open>notify_one\<close> follows it.\<close>

definition submit :: "'a \<Rightarrow> 'a pool \<Rightarrow> string + 'a pool" where
  "submit task p =
     (if tp_stop p then Inl ''ThreadPool is stopped''
      else Inr (p\<lparr>tp_tasks := tp_tasks p @ [task], tp_submitted := tp_submitted p @ [task],
                  tp_pending := tp_pending p + 1\<rparr>))"

text \<open>\<open>notify_one\<close> wakes some sleeping worker, where there is one.\<close>

definition notify_one :: "nat \<Rightarrow> 'a pool \<Rightarrow> 'a pool" where
  "notify_one i p = p\<lparr>tp_pending := tp_pending p - 1,
     tp_workers := (if Asleep \<in> set (tp_workers p) then (tp_workers p)[i := Ready] else tp_workers p)\<rparr>"

text \<open>A worker's critical section in \<open>worker_loop\<close>: the wait's predicate, the exit, or the front task.\<close>

definition worker_section :: "nat \<Rightarrow> 'a pool \<Rightarrow> 'a pool" where
  "worker_section i p =
     (if \<not> tp_stop p \<and> tp_tasks p = [] then p\<lparr>tp_workers := (tp_workers p)[i := Asleep]\<rparr>
      else if tp_stop p \<and> tp_tasks p = [] then p\<lparr>tp_workers := (tp_workers p)[i := Exited]\<rparr>
      else p\<lparr>tp_workers := (tp_workers p)[i := Running (hd (tp_tasks p))], tp_tasks := tl (tp_tasks p),
             tp_started := tp_started p @ [hd (tp_tasks p)]\<rparr>)"

definition worker_done :: "nat \<Rightarrow> 'a \<Rightarrow> 'a pool \<Rightarrow> 'a pool" where
  "worker_done i task p = p\<lparr>tp_workers := (tp_workers p)[i := Ready], tp_finished := tp_finished p @ [task]\<rparr>"

text \<open>\<open>shutdown\<close>: its critical section (\<open>False\<close> where it returns at once), \<open>notify_all\<close>, and the joins,
  which return when every worker has.\<close>

definition shutdown_section :: "'a pool \<Rightarrow> bool \<times> 'a pool" where
  "shutdown_section p = (\<not> tp_stop p, p\<lparr>tp_stop := True\<rparr>)"

definition notify_all :: "'a pool \<Rightarrow> 'a pool" where
  "notify_all p = p\<lparr>tp_notified := True, tp_workers := map (\<lambda>w. if w = Asleep then Ready else w) (tp_workers p)\<rparr>"

definition shutdown_joined :: "'a pool \<Rightarrow> bool" where
  "shutdown_joined p \<longleftrightarrow> (\<forall>w \<in> set (tp_workers p). w = Exited)"

inductive worker_step :: "'a pool \<Rightarrow> 'a pool \<Rightarrow> bool" where
  Section: "i < length (tp_workers p) \<Longrightarrow> tp_workers p ! i = Ready \<Longrightarrow> worker_step p (worker_section i p)"
| Done: "i < length (tp_workers p) \<Longrightarrow> tp_workers p ! i = Running task \<Longrightarrow> worker_step p (worker_done i task p)"

inductive pool_step :: "'a pool \<Rightarrow> 'a pool \<Rightarrow> bool" where
  Worker: "worker_step p p' \<Longrightarrow> pool_step p p'"
| Submit: "submit task p = Inr p' \<Longrightarrow> pool_step p p'"
| NotifyOne: "0 < tp_pending p \<Longrightarrow> i < length (tp_workers p) \<Longrightarrow>
    Asleep \<in> set (tp_workers p) \<Longrightarrow> tp_workers p ! i = Asleep \<Longrightarrow> pool_step p (notify_one i p)"
| NotifyNone: "0 < tp_pending p \<Longrightarrow> Asleep \<notin> set (tp_workers p) \<Longrightarrow> pool_step p (notify_one i p)"
| Spurious: "i < length (tp_workers p) \<Longrightarrow> tp_workers p ! i = Asleep \<Longrightarrow>
    pool_step p (p\<lparr>tp_workers := (tp_workers p)[i := Ready]\<rparr>)"
| Shutdown: "shutdown_section p = (r, p') \<Longrightarrow> pool_step p p'"
| NotifyAll: "tp_stop p \<Longrightarrow> pool_step p (notify_all p)"

inductive pool_reachable :: "nat \<Rightarrow> 'a pool \<Rightarrow> bool" for num_threads where
  New: "pool_reachable num_threads (ThreadPool num_threads)"
| Step: "pool_reachable num_threads p \<Longrightarrow> pool_step p p' \<Longrightarrow> pool_reachable num_threads p'"

section \<open>The invariant\<close>

definition running :: "'a worker list \<Rightarrow> 'a list" where
  "running ws = concat (map (\<lambda>w. case w of Running t \<Rightarrow> [t] | _ \<Rightarrow> []) ws)"

definition awake :: "'a worker \<Rightarrow> bool" where
  "awake w \<longleftrightarrow> w \<noteq> Asleep \<and> w \<noteq> Exited"

definition pool_ok :: "nat \<Rightarrow> 'a pool \<Rightarrow> bool" where
  "pool_ok n p \<longleftrightarrow> length (tp_workers p) = n \<and> tp_submitted p = tp_started p @ tp_tasks p
     \<and> mset (tp_started p) = mset (tp_finished p) + mset (running (tp_workers p))
     \<and> (Exited \<in> set (tp_workers p) \<longrightarrow> tp_stop p \<and> tp_tasks p = [])
     \<and> (tp_notified p \<longrightarrow> tp_stop p \<and> Asleep \<notin> set (tp_workers p))
     \<and> (tp_tasks p \<noteq> [] \<and> tp_pending p = 0 \<and> 0 < n \<longrightarrow> (\<exists>w \<in> set (tp_workers p). awake w))"

lemma running_update:
  "i < length ws \<Longrightarrow> mset (running (ws[i := w])) + mset (running [ws ! i]) = mset (running ws) + mset (running [w])"
  by (induction ws arbitrary: i) (auto simp: running_def nth_Cons' less_Suc_eq_0_disj split: nat.splits)

lemma running_simps [simp]: "running [Ready] = []" "running [Asleep] = []" "running [Exited] = []" "running [Running t] = [t]"
  by (simp_all add: running_def)

lemma running_notify: "running (map (\<lambda>w. if w = Asleep then Ready else w) ws) = running ws"
  by (induction ws) (auto simp: running_def split: worker.splits)

lemma set_update_other: "x \<in> set (ws[i := w]) \<Longrightarrow> x \<noteq> w \<Longrightarrow> x \<in> set ws"
  using set_update_subset_insert [of ws i w] by blast

lemma worker_section_ok:
  assumes "pool_ok n p" "i < length (tp_workers p)" "tp_workers p ! i = Ready"
  shows "pool_ok n (worker_section i p)"
proof -
  note upd = running_update [OF assms(2)] and mem = set_update_memI [OF assms(2)]
  consider "\<not> tp_stop p" "tp_tasks p = []" | "tp_stop p" "tp_tasks p = []" | "tp_tasks p \<noteq> []" by blast
  then show ?thesis
  proof cases
    case 1
    then show ?thesis using assms upd [of Asleep]
      by (auto simp: pool_ok_def worker_section_def dest: set_update_other)
  next
    case 2
    then show ?thesis using assms upd [of Exited]
      by (auto simp: pool_ok_def worker_section_def dest: set_update_other)
  next
    case 3
    have "awake (Running (hd (tp_tasks p)))" by (simp add: awake_def)
    with 3 show ?thesis using assms upd [of "Running (hd (tp_tasks p))"] mem [of "Running (hd (tp_tasks p))"]
      by (auto simp: pool_ok_def worker_section_def dest: set_update_other)
  qed
qed

lemma worker_step_ok: "worker_step p p' \<Longrightarrow> pool_ok n p \<Longrightarrow> pool_ok n p'"
proof (induction rule: worker_step.induct)
  case (Section i p)
  then show ?case by (intro worker_section_ok)
next
  case (Done i p task)
  have "awake Ready" by (simp add: awake_def)
  then show ?case using Done running_update [OF Done(1), of Ready] set_update_memI [OF Done(1), of Ready]
    by (auto simp: pool_ok_def worker_done_def dest: set_update_other)
qed

lemma pool_step_ok: "pool_step p p' \<Longrightarrow> pool_ok n p \<Longrightarrow> pool_ok n p'"
proof (induction rule: pool_step.induct)
  case (Worker p p')
  then show ?case by (rule worker_step_ok)
next
  case (Submit task p p')
  then show ?case by (auto simp: submit_def pool_ok_def split: if_splits)
next
  case (NotifyOne p i)
  have "awake Ready" by (simp add: awake_def)
  then show ?case using NotifyOne running_update [OF NotifyOne(2), of Ready] set_update_memI [OF NotifyOne(2), of Ready]
    by (auto simp: pool_ok_def notify_one_def dest: set_update_other)
next
  case (NotifyNone p i)
  then show ?case
    by (cases "tp_workers p") (auto simp: pool_ok_def notify_one_def awake_def)
next
  case (Spurious i p)
  have "awake Ready" by (simp add: awake_def)
  then show ?case using Spurious running_update [OF Spurious(1), of Ready] set_update_memI [OF Spurious(1), of Ready]
    by (auto simp: pool_ok_def dest: set_update_other)
next
  case (Shutdown p r p')
  then show ?case by (auto simp: shutdown_section_def pool_ok_def)
next
  case (NotifyAll p)
  then show ?case by (auto simp: notify_all_def pool_ok_def running_notify awake_def)
qed

lemma pool_reachable_ok: "pool_reachable n p \<Longrightarrow> pool_ok n p"
proof (induction rule: pool_reachable.induct)
  case New
  show ?case by (simp add: ThreadPool_def pool_ok_def running_def map_replicate_const)
next
  case (Step p p')
  then show ?case by (blast intro: pool_step_ok)
qed

section \<open>Draining the queue\<close>

text \<open>What is left to do after a shutdown: two for a queued task or a running one, one for a worker that has
  to look at the queue again.\<close>

definition worker_weight :: "'a worker \<Rightarrow> nat" where
  "worker_weight w = (case w of Ready \<Rightarrow> 1 | Asleep \<Rightarrow> 1 | Running t \<Rightarrow> 2 | Exited \<Rightarrow> 0)"

definition drain :: "'a pool \<Rightarrow> nat" where
  "drain p = 2 * length (tp_tasks p) + sum_list (map worker_weight (tp_workers p))"

lemma weight_update:
  "i < length ws \<Longrightarrow> sum_list (map worker_weight (ws[i := w])) + worker_weight (ws ! i)
     = sum_list (map worker_weight ws) + worker_weight w"
  by (induction ws arbitrary: i) (auto simp: nth_Cons' less_Suc_eq_0_disj split: nat.splits)

lemma drain_decreases:
  assumes "tp_stop p" "worker_step p p'"
  shows "drain p' < drain p" "tp_stop p'"
proof -
  have "drain p' < drain p \<and> tp_stop p'"
    using assms(2)
  proof (cases rule: worker_step.cases)
    case (Section i)
    note upd = weight_update [OF Section(2)]
    show ?thesis
    proof (cases "tp_tasks p")
      case Nil
      then show ?thesis using assms(1) upd [of Exited] Section
        by (simp add: drain_def worker_section_def worker_weight_def)
    next
      case (Cons t ts)
      then show ?thesis using assms(1) upd [of "Running t"] Section
        by (simp add: drain_def worker_section_def worker_weight_def)
    qed
  next
    case (Done i task)
    then show ?thesis using assms(1) weight_update [OF Done(2), of Ready]
      by (simp add: drain_def worker_done_def worker_weight_def)
  qed
  then show "drain p' < drain p" "tp_stop p'" by blast+
qed

lemma drain_progress:
  assumes "pool_ok n p" "tp_notified p" "\<not> shutdown_joined p"
  shows "\<exists>p'. worker_step p p'"
proof -
  obtain w where "w \<in> set (tp_workers p)" "w \<noteq> Exited" using assms(3) by (auto simp: shutdown_joined_def)
  moreover from this have "w \<noteq> Asleep" using assms(1,2) by (auto simp: pool_ok_def)
  ultimately obtain i where "i < length (tp_workers p)" "tp_workers p ! i = Ready \<or> (\<exists>t. tp_workers p ! i = Running t)"
    by (metis in_set_conv_nth worker.exhaust)
  then show ?thesis by (blast intro: worker_step.intros)
qed

lemma worker_steps_ok:
  "worker_step\<^sup>*\<^sup>* p p' \<Longrightarrow> pool_ok n p \<Longrightarrow> tp_stop p \<Longrightarrow> tp_notified p \<Longrightarrow>
   pool_ok n p' \<and> tp_stop p' \<and> tp_notified p' \<and> tp_submitted p' = tp_submitted p"
proof (induction rule: rtranclp_induct)
  case (step q r)
  then have q: "pool_ok n q" "tp_stop q" "tp_notified q" "tp_submitted q = tp_submitted p" by blast+
  have "tp_notified r = tp_notified q \<and> tp_submitted r = tp_submitted q"
    using step(2) by (cases rule: worker_step.cases) (auto simp: worker_section_def worker_done_def)
  with q step(2) worker_step_ok drain_decreases(2) show ?case by metis
qed simp

lemma joined_finished:
  assumes "pool_ok n p" "shutdown_joined p" "0 < n"
  shows "tp_tasks p = [] \<and> mset (tp_finished p) = mset (tp_submitted p)"
proof -
  have "\<forall>w \<in> set (tp_workers p). w = Exited" using assms(2) by (simp add: shutdown_joined_def)
  then have "running (tp_workers p) = []" by (auto simp: running_def)
  moreover have "Exited \<in> set (tp_workers p)"
    using assms \<open>\<forall>w \<in> set (tp_workers p). w = Exited\<close> by (cases "tp_workers p") (auto simp: pool_ok_def)
  ultimately show ?thesis using assms(1) by (auto simp: pool_ok_def)
qed

section \<open>Properties of the pool\<close>

text \<open>C30. Every reachable state of a pool is well formed, under all interleavings of submissions, wake-ups
  (spurious ones included), workers and shutdowns: it has its workers; the tasks submitted are, in
  order, those started and those queued, so each is started once and first in first out; the tasks
  started are those finished and those running; a worker has returned only where the pool is stopped
  and the queue is empty; and no wake-up is lost, a queue with tasks and no notification under way
  has a worker that is not asleep.\<close>

theorem pool_well_formed:
  assumes "pool_reachable n p"
  shows "length (tp_workers p) = n \<and> tp_submitted p = tp_started p @ tp_tasks p
    \<and> mset (tp_started p) = mset (tp_finished p) + mset (running (tp_workers p))
    \<and> (Exited \<in> set (tp_workers p) \<longrightarrow> tp_stop p \<and> tp_tasks p = [])
    \<and> (tp_tasks p \<noteq> [] \<and> tp_pending p = 0 \<and> 0 < n \<longrightarrow> (\<exists>w \<in> set (tp_workers p). w \<noteq> Asleep \<and> w \<noteq> Exited))"
  using pool_reachable_ok [OF assms] unfolding pool_ok_def awake_def by blast

lemma example_pool_reachable:
  "pool_reachable 1 ((ThreadPool 1)\<lparr>tp_tasks := [t], tp_submitted := [t], tp_pending := 1\<rparr>)"
  by (rule pool_reachable.Step [OF pool_reachable.New pool_step.Submit [of t]]) (simp add: submit_def ThreadPool_def)

theorem pool_well_formed_witness:
  "length (tp_workers ((ThreadPool 1)\<lparr>tp_tasks := [3 :: nat], tp_submitted := [3], tp_pending := 1\<rparr>)) = 1"
  using pool_well_formed [OF example_pool_reachable [of "3 :: nat"]] by blast

text \<open>C27. A shutdown of a pool with workers runs every task: once it has notified the workers, every run
  of the workers ends, however they interleave; it can stop only where all of them have returned, and
  then every task that was ever submitted has finished.\<close>

theorem shutdown_drains_pool:
  assumes "pool_reachable n p" "tp_stop p" "tp_notified p" "0 < n"
  shows "wfP (\<lambda>r q. worker_step q r \<and> worker_step\<^sup>*\<^sup>* p q)
    \<and> (\<forall>q. worker_step\<^sup>*\<^sup>* p q \<and> (\<nexists>r. worker_step q r) \<longrightarrow>
        shutdown_joined q \<and> tp_tasks q = [] \<and> mset (tp_finished q) = mset (tp_submitted p))"
proof (intro conjI allI impI)
  note ok = worker_steps_ok [OF _ pool_reachable_ok [OF assms(1)] assms(2,3)]
  show "wfP (\<lambda>r q. worker_step q r \<and> worker_step\<^sup>*\<^sup>* p q)"
    by (rule wfp_if_convertible_to_nat [where f = drain]) (use ok drain_decreases(1) in blast)
  fix q assume q: "worker_step\<^sup>*\<^sup>* p q \<and> (\<nexists>r. worker_step q r)"
  then have okq: "pool_ok n q" "tp_notified q" "tp_submitted q = tp_submitted p" using ok by blast+
  then have "shutdown_joined q" using drain_progress q by blast
  with joined_finished [OF okq(1) this assms(4)] okq(3)
  show "shutdown_joined q" "tp_tasks q = []" "mset (tp_finished q) = mset (tp_submitted p)" by simp_all
qed

theorem shutdown_drains_pool_witness:
  "{q. worker_step\<^sup>*\<^sup>* (notify_all (snd (shutdown_section ((ThreadPool 1)\<lparr>tp_tasks := [3 :: nat], tp_submitted := [3],
      tp_pending := 1\<rparr>)))) q \<and> (\<nexists>r. worker_step q r) \<and> tp_finished q \<noteq> [3]} = {}"
proof -
  let ?p = "(ThreadPool 1)\<lparr>tp_tasks := [3 :: nat], tp_submitted := [3], tp_pending := 1\<rparr>"
  have "pool_reachable 1 (snd (shutdown_section ?p))"
    by (rule pool_reachable.Step [OF example_pool_reachable pool_step.Shutdown [OF prod.collapse [symmetric]]])
  then have "pool_reachable 1 (notify_all (snd (shutdown_section ?p)))"
    by (rule pool_reachable.Step) (auto intro: pool_step.NotifyAll simp: shutdown_section_def)
  from shutdown_drains_pool [OF this] show ?thesis
    by (auto simp: notify_all_def shutdown_section_def)
qed

end
