(* ===== verification/Cli.thy ===== *)
theory Cli
  imports Client
begin

text \<open>
  \<open>src/client/cli_main.cpp\<close>: the command line client. Its argument loop, its dispatch on the command,
  its exit codes and its output, over the client library. \<open>nets\<close> gives the network to the metadata
  service at an address; the local file system is a map from paths to contents with a predicate for
  the paths that can be written. A run is \<open>None\<close> where the upload does not return.
\<close>

section \<open>Definitions\<close>
















section \<open>Arguments\<close>







section \<open>Properties of the command line client\<close>






end
