(* ===== verification/Grpc_Util.thy ===== *)
theory Grpc_Util
  imports Client
begin

text \<open>
  \<open>src/network/grpc_util.cpp\<close>: the channels of the clients and the server of a node, with the limits on the
  size of a message. gRPC itself is not part of the sources: whether a server starts is a parameter,
  and what a channel does with a message above its limit is the locale \<open>limited_channels\<close> (the
  call ends with \<open>RESOURCE_EXHAUSTED\<close> before anything is sent), over the encoded size of a message, a
  parameter too. The limit is a bound on the configuration: a chunk must be smaller than 64 megabytes.
\<close>

section \<open>Definitions\<close>

record channel =
  chn_address :: string
  chn_max_receive :: nat
  chn_max_send :: nat

definition create_channel :: "string \<Rightarrow> channel" where
  "create_channel address =
     \<lparr>chn_address = address, chn_max_receive = 64 * 1024 * 1024, chn_max_send = 64 * 1024 * 1024\<rparr>"

record 'svc server =
  srv_address :: string
  srv_services :: "'svc list"
  srv_max_receive :: nat
  srv_max_send :: nat

text \<open>\<open>start\<close> says whether \<open>BuildAndStart\<close> succeeds; otherwise it returns a null pointer.\<close>

definition build_server :: "('svc server \<Rightarrow> bool) \<Rightarrow> string \<Rightarrow> 'svc list \<Rightarrow> 'svc server option" where
  "build_server start address services =
     (let builder = \<lparr>srv_address = address, srv_services = foldl (\<lambda>xs svc. xs @ [svc]) [] services,
        srv_max_receive = 64 * 1024 * 1024, srv_max_send = 64 * 1024 * 1024\<rparr>
      in if start builder then Some builder else None)"

section \<open>Calls over a channel with a limit\<close>

text \<open>The first planned chunk is as large as the chunk size allows.\<close>

lemma spec_plan_first:
  "\<exists>c cs. spec_plan uuid object_id sz chunk_size = c # cs \<and> unat (ci_size c) = min (unat sz) (unat chunk_size)"
proof -
  let ?n = "max 1 (chunk_total (unat sz) (unat chunk_size))"
  have "[0..<?n] = 0 # [1..<?n]" by (simp add: upt_conv_Cons)
  moreover have "unat (word_of_nat (planned_size (unat sz) (unat chunk_size) 0) :: u64) = min (unat sz) (unat chunk_size)"
    using unsigned_less [of sz, where 'a = nat]
    by (simp add: planned_size_def unsigned_of_nat take_bit_nat_eq_self min_less_iff_disj min.commute)
  ultimately show ?thesis by (simp add: spec_plan_def plan_chunk_def)
qed

text \<open>\<open>wire h d\<close> is the encoded size of a request that carries a chunk; it exceeds the payload's.\<close>

locale limited_channels = storage_contract api stored
  for api :: "'n storage_api" and stored +
  fixes wire :: "ChunkHeaderData \<Rightarrow> bytes \<Rightarrow> nat"
  assumes wire_payload: "length d < wire h d"
    and oversized: "chn_max_send (create_channel addr) < wire h d \<Longrightarrow> sa_WriteChunk api addr h d n = (None, n)"
begin

lemma oversized_write:
  assumes "n_api net = api" "64 * 1024 * 1024 \<le> length data"
  shows "write_chunk_to_node net addr chunk data object_id w = (False, w)"
proof -
  have "chn_max_send (create_channel addr) < wire h data" for h
    using wire_payload [of data h] assms(2) by (simp add: create_channel_def)
  then have "sa_WriteChunk api addr h data n = (None, n)" for h n by (rule oversized)
  with assms(1) show ?thesis by (simp add: write_chunk_to_node_def)
qed

lemma oversized_replicas:
  assumes "n_api net = api" "64 * 1024 * 1024 \<le> length data"
  shows "put_replicas net chunk data object_id nodes reps w = (reps, w)"
  by (induction nodes) (simp_all add: oversized_write [OF assms])

lemma oversized_first_chunk:
  assumes "n_api net = api" "\<And>i. n_fate net i = Delivered" "quorum net"
    and "64 * 1024 * 1024 \<le> unat (cm_size cm)" "64 * 1024 * 1024 \<le> length data"
  shows "\<exists>msg w'. put_chunks net object_id data 0 (cm # rest) w = (Some msg, w') \<and> w_storage w' = w_storage w"
proof -
  have "0 < cm_size cm" using assms(4) by (auto simp: word_gt_0)
  moreover have big: "64 * 1024 * 1024 \<le> length (take (unat (cm_size cm)) data)" using assms(4,5) by simp
  ultimately show ?thesis
    using assms(3) oversized_replicas [OF assms(1) big]
    by (simp add: Let_def rpc_def assms(2) quorum_def split: prod.split)
qed

text \<open>An upload whose first chunk does not fit ends with an error, and nothing is stored.\<close>

lemma oversized_put:
  assumes net: "n_api net = api" "\<And>i. n_fate net i = Delivered" "quorum net"
    and len: "64 * 1024 * 1024 \<le> length data" "length data < 2 ^ 64"
    and cs: "64 * 1024 * 1024 \<le> unat (mb_to_bytes (cc_chunk_size_mb (n_cfg net)))"
  shows "\<exists>res w'. put net filename data owner w = Some (res, w') \<and> \<not> pr_success res \<and> w_storage w' = w_storage w"
proof (cases "ms_filename_to_id (w_meta w) filename")
  case None
  let ?cs = "mb_to_bytes (cc_chunk_size_mb (n_cfg net))" and ?sz = "word_of_nat (length data) :: u64"
  let ?ev = "n_env net (w_calls w)" and ?rf = "cc_replication_factor (n_cfg net)"
  let ?obj = "new_object ?ev filename ?sz ?rf owner ?cs"
  have nz: "?cs \<noteq> 0" using cs by (metis unat_0 not_numeral_le_zero mult_eq_0_iff zero_neq_numeral le_zero_eq)
  obtain m where c: "create_object ?ev filename ?sz ?rf owner ?cs (w_meta w) = Some (Some ?obj, m)"
    using create_object_simp [OF None, of ?sz ?cs ?ev ?rf owner] nz by simp
  have sz: "unat ?sz = length data" using len(2) by (simp add: unsigned_of_nat take_bit_nat_eq_self)
  obtain c1 cs1 where first: "oi_chunks ?obj = c1 # cs1" "unat (ci_size c1) = min (unat ?sz) (unat ?cs)"
    using spec_plan_first [of "\<lambda>i. env_uuid ?ev (i + 1)" "env_uuid ?ev 0" ?sz ?cs] by (auto simp: new_object_def)
  let ?w = "w\<lparr>w_calls := Suc (w_calls w), w_meta := m\<rparr>"
  have "64 * 1024 * 1024 \<le> unat (cm_size (chunk_to_proto c1))"
    using first(2) len(1) cs sz by (simp add: chunk_to_proto_def)
  from oversized_first_chunk [OF net this len(1), of "oi_object_id ?obj" "map chunk_to_proto cs1" ?w]
  obtain msg w' where loop: "put_chunks net (oi_object_id ?obj) data 0 (map chunk_to_proto (oi_chunks ?obj)) ?w = (Some msg, w')"
      "w_storage w' = w_storage w"
    by (auto simp: first(1))
  have "put net filename data owner w
      = Some (\<lparr>pr_success = False, pr_object_id = oi_object_id ?obj, pr_message = msg\<rparr>, w')"
    using c loop(1) by (simp add: put_def rpc_partial_def net(2) CreateObject_def to_proto_def Let_def)
  with loop(2) show ?thesis by simp
next
  case (Some x)
  then show ?thesis
    by (simp add: put_def rpc_partial_def net(2) CreateObject_def create_object_def Let_def)
qed

end

text \<open>The cluster of chunk stores behind channels that enforce the limit, with 16 bytes for the encoding
  of the other fields.\<close>

definition limited_store_api :: "(string \<Rightarrow> chunk_store) storage_api" where
  "limited_store_api = store_api\<lparr>sa_WriteChunk := \<lambda>addr h d n.
     if chn_max_send (create_channel addr) < length d + 16 then (None, n) else sa_WriteChunk store_api addr h d n\<rparr>"

interpretation limited_store: limited_channels limited_store_api store_stored "\<lambda>h d. length d + 16"
  by unfold_locales (auto simp: limited_store_api_def store_cluster.read_frame dest: store_cluster.write_done store_cluster.write_other
      store_cluster.read_sound store_cluster.write_undone split: if_splits)

section \<open>Properties\<close>

text \<open>C37. A chunk size of 64 megabytes or more cannot be used for files as large: over channels made by
  \<open>create_channel\<close>, with no metadata call lost and a policy that demands at least one acknowledgement, an upload
  whose first chunk has 64 megabytes or more always returns, with an error, and stores nothing, because a message
  that carries a chunk is larger than the chunk and channels refuse to send it.\<close>

theorem oversized_chunks_refused:
  assumes "limited_channels (n_api net) stored wire" "\<And>i. n_fate net i = Delivered" "quorum net"
    and "64 * 1024 * 1024 \<le> length data" "length data < 2 ^ 64"
    and "64 * 1024 * 1024 \<le> unat (mb_to_bytes (cc_chunk_size_mb (n_cfg net)))"
  shows "\<exists>res w'. put net filename data owner w = Some (res, w') \<and> \<not> pr_success res \<and> w_storage w' = w_storage w"
  by (rule limited_channels.oversized_put [OF assms(1) refl assms(2-6)])

theorem oversized_chunks_refused_witness:
  "\<exists>res w'. put (example_net\<lparr>n_api := limited_store_api, n_cfg := ClusterConfig_default\<lparr>cc_chunk_size_mb := 64\<rparr>\<rparr>)
      ''f'' (replicate 67108864 0) ''me'' example_world = Some (res, w') \<and> \<not> pr_success res
    \<and> w_storage w' = w_storage example_world"
proof -
  let ?net = "example_net\<lparr>n_api := limited_store_api, n_cfg := ClusterConfig_default\<lparr>cc_chunk_size_mb := 64\<rparr>\<rparr>"
  have "limited_channels (n_api ?net) store_stored (\<lambda>h d. length d + 16)"
    using limited_store.limited_channels_axioms by simp
  moreover have "n_fate ?net i = Delivered" for i by (simp add: example_net_def)
  moreover have "quorum ?net" by (simp add: quorum_def required_acks_def ClusterConfig_default_def)
  moreover have "64 * 1024 * 1024 \<le> unat (mb_to_bytes (cc_chunk_size_mb (n_cfg ?net)))" by (simp add: mb_to_bytes_def)
  ultimately show ?thesis
    using oversized_chunks_refused [of ?net store_stored "\<lambda>h d. length d + 16" "replicate 67108864 0"] by simp
qed

end
