(* ===== verification/Node_Main.thy ===== *)
theory Node_Main
  imports Config Coordinator Grpc_Util
begin

text \<open>
  \<open>src/metadata/metadata_node_main.cpp\<close>: the metadata node's process. Its argument loop, the order in
  which the configuration is loaded, and the components it builds: one metadata store shared by the
  metadata service and the coordinator, whose id is the same on every node. The files, the environment and
  whether the server starts are arguments. A node that serves is a step relation: calls of the two
  services and iterations of the election loop in any order, until a signal ends the waiting loop
  and the node saves its store.
\<close>

section \<open>Definitions\<close>

record node_args =
  na_config_path :: string
  na_listen_addr :: string
  na_coordinator_peers :: "string list"

definition node_args_default :: node_args where
  "node_args_default = \<lparr>na_config_path = [], na_listen_addr = ''0.0.0.0:50051'', na_coordinator_peers = []\<rparr>"

text \<open>\<open>value_after\<close>: what follows \<open>key=\<close>, the empty string where the argument does not start so.\<close>

definition value_after :: "string \<Rightarrow> string \<Rightarrow> string" where
  "value_after key arg = (if take (length key + 1) arg = key @ ''='' then drop (length key + 1) arg else [])"

fun parse_node_args :: "string list \<Rightarrow> node_args \<Rightarrow> node_args" where
  "parse_node_args [] a = a"
| "parse_node_args (arg # rest) a =
     (if arg = ''--config'' \<and> rest \<noteq> [] then parse_node_args (tl rest) (a\<lparr>na_config_path := hd rest\<rparr>)
      else if arg = ''--address'' \<and> rest \<noteq> [] then parse_node_args (tl rest) (a\<lparr>na_listen_addr := hd rest\<rparr>)
      else if value_after ''--address'' arg \<noteq> []
      then parse_node_args rest (a\<lparr>na_listen_addr := value_after ''--address'' arg\<rparr>)
      else if arg = ''--peer'' \<and> rest \<noteq> []
      then parse_node_args (tl rest) (a\<lparr>na_coordinator_peers := na_coordinator_peers a @ [hd rest]\<rparr>)
      else if value_after ''--peer'' arg \<noteq> []
      then parse_node_args rest (a\<lparr>na_coordinator_peers := na_coordinator_peers a @ [value_after ''--peer'' arg]\<rparr>)
      else parse_node_args rest a)"

definition node_config :: "node_args \<Rightarrow> (string \<Rightarrow> string option) \<Rightarrow> (string \<Rightarrow> string option) \<Rightarrow> Config
   \<Rightarrow> config_error option \<times> Config" where
  "node_config a files getenv cfg =
     (case (if na_config_path a \<noteq> [] then load_from_file (files (na_config_path a)) cfg else (None, cfg)) of
        (Some e, c) \<Rightarrow> (Some e, c)
      | (None, c) \<Rightarrow>
          (case load_from_env getenv c of
             (Some e, c1) \<Rightarrow> (Some e, c1)
           | (None, c1) \<Rightarrow> (None, c1\<lparr>cf_listen_address := na_listen_addr a\<rparr>)))"

text \<open>An exception is not caught. Where \<open>main\<close> returns, the coordinator is destroyed; it has no destructor that
  joins its thread, so one that was not stopped ends the process with \<open>std::terminate\<close>.\<close>

datatype node_service = MetadataSvc | CoordinatorSvc

datatype node_outcome = Uncaught config_error | Terminated | Exit nat | Serving Config "node_service server" coordinator

definition leave_main :: "nat \<Rightarrow> coordinator \<Rightarrow> node_outcome" where
  "leave_main code c = (if co_running c then Terminated else Exit code)"

definition metadata_node_main ::
  "string list \<Rightarrow> (string \<Rightarrow> string option) \<Rightarrow> (string \<Rightarrow> string option) \<Rightarrow> bool \<Rightarrow> (node_service server \<Rightarrow> bool)
   \<Rightarrow> node_outcome" where
  "metadata_node_main argv files getenv readable start =
     (let a = parse_node_args argv node_args_default
      in case node_config a files getenv Config_default of
           (Some e, _) \<Rightarrow> Uncaught e
         | (None, cfg) \<Rightarrow>
             (let store = MetadataStore (cf_metadata_persist_path cfg) readable (files (cf_metadata_persist_path cfg));
                  coord = snd (start_coordinator (CoordinatorServiceImpl ''coordinator-1'' (na_coordinator_peers a) store))
              in case build_server start (na_listen_addr a) [MetadataSvc, CoordinatorSvc] of
                   None \<Rightarrow> leave_main 1 coord
                 | Some server \<Rightarrow> Serving cfg server coord))"

text \<open>The serving process. A call of the store that does not return (\<open>np_hung\<close>) holds the store's lock, so no other
  call or election goes on.\<close>

record node_process =
  np_running :: bool
  np_hung :: bool
  np_coordinator :: coordinator

definition node_process_start :: "coordinator \<Rightarrow> node_process" where
  "node_process_start c = \<lparr>np_running = True, np_hung = False, np_coordinator = c\<rparr>"

definition signal_handler :: "node_process \<Rightarrow> node_process" where
  "signal_handler p = p\<lparr>np_running := False\<rparr>"

abbreviation np_store :: "node_process \<Rightarrow> metadata_store" where
  "np_store p \<equiv> co_metadata_store (np_coordinator p)"

abbreviation with_store :: "metadata_store \<Rightarrow> node_process \<Rightarrow> node_process" where
  "with_store m p \<equiv> p\<lparr>np_coordinator := (np_coordinator p)\<lparr>co_metadata_store := m\<rparr>\<rparr>"

inductive node_step :: "node_process \<Rightarrow> node_process \<Rightarrow> bool" where
  Signal: "node_step p (signal_handler p)"
| Called: "\<not> np_hung p \<Longrightarrow> ms_step op (np_store p) = (r, m) \<Longrightarrow>
    node_step p ((with_store m p)\<lparr>np_hung := (r = MsHangs)\<rparr>)"
| Selected: "\<not> np_hung p \<Longrightarrow> select_nodes ev cnt strategy (np_store p) = (ns, m) \<Longrightarrow> node_step p (with_store m p)"
| Elected: "\<not> np_hung p \<Longrightarrow> co_running (np_coordinator p) \<Longrightarrow> election_tick ev replies (np_coordinator p) = (sent, c) \<Longrightarrow>
    node_step p (p\<lparr>np_coordinator := c\<rparr>)"
| Asked: "\<not> np_hung p \<Longrightarrow> RequestElection ev replies priority (np_coordinator p) = (r, sent, c) \<Longrightarrow>
    node_step p (p\<lparr>np_coordinator := c\<rparr>)"
| Announced: "\<not> np_hung p \<Longrightarrow> AnnounceLeader ev leader gen (np_coordinator p) = (r, c) \<Longrightarrow>
    node_step p (p\<lparr>np_coordinator := c\<rparr>)"
| Triggered: "\<not> np_hung p \<Longrightarrow> TriggerRecovery ev failed (np_coordinator p) = (r, c) \<Longrightarrow>
    node_step p (p\<lparr>np_coordinator := c\<rparr>)"

text \<open>The waiting loop and what follows it: \<open>None\<close> while \<open>g_running\<close> is set, and where a call hangs, since
  \<open>Shutdown\<close> waits for the calls under way. Otherwise the coordinator stops, the server shuts down and
  the store is saved.\<close>

definition metadata_node_stop :: "call_env \<Rightarrow> node_process \<Rightarrow> (node_outcome \<times> metadata_store) option" where
  "metadata_node_stop ev p =
     (if np_running p \<or> np_hung p then None
      else let c1 = stop_coordinator (np_coordinator p);
               m = snd (persist ev (co_metadata_store c1))
           in Some (leave_main 0 c1, m))"

section \<open>Lemmas\<close>

text \<open>The two spellings of an option are the same, and options are taken in order.\<close>

lemma parse_peer: "p \<noteq> [] \<Longrightarrow> parse_node_args [''--peer'', p] a = parse_node_args [''--peer='' @ p] a"
  by (simp add: value_after_def)

lemma parse_address: "x \<noteq> [] \<Longrightarrow> parse_node_args [''--address'', x] a = parse_node_args [''--address='' @ x] a"
  by (simp add: value_after_def)

lemma build_server_cases:
  "build_server start address services = (if start \<lparr>srv_address = address, srv_services = services,
     srv_max_receive = 67108864, srv_max_send = 67108864\<rparr>
   then Some \<lparr>srv_address = address, srv_services = services, srv_max_receive = 67108864, srv_max_send = 67108864\<rparr> else None)"
proof -
  have "foldl (\<lambda>xs svc. xs @ [svc]) ys services = ys @ services" for ys by (induction services arbitrary: ys) simp_all
  then show ?thesis by (simp add: build_server_def Let_def)
qed

lemma serving_cases:
  assumes "metadata_node_main argv files getenv readable start = Serving cfg server c"
  shows "co_running c \<and> \<not> co_is_leader c \<and> co_node_id c = ''coordinator-1''
    \<and> co_current_leader c = [] \<and> co_generation c = 0
    \<and> srv_address server = na_listen_addr (parse_node_args argv node_args_default)
    \<and> cf_listen_address cfg = srv_address server
    \<and> co_metadata_store c = MetadataStore (cf_metadata_persist_path cfg) readable (files (cf_metadata_persist_path cfg))"
  using assms by (auto simp: metadata_node_main_def node_config_def Let_def start_coordinator_def leave_main_def
      build_server_cases CoordinatorServiceImpl_def split: prod.splits option.splits if_splits)

lemma served_store_empty:
  assumes "metadata_node_main argv files getenv readable start = Serving cfg server c"
  shows "locate_by_filename f (co_metadata_store c) = None" "get_nodes (co_metadata_store c) = []"
    "leader_id (co_metadata_store c) = []" "generation (co_metadata_store c) = 0"
    "ms_persist_path (co_metadata_store c) = cf_metadata_persist_path cfg"
  using serving_cases [OF assms]
  by (simp_all add: MetadataStore_def load_def locate_by_filename_def get_nodes_def leader_id_def generation_def)

text \<open>The path of the snapshot never changes.\<close>

lemma persist_path [simp]: "ms_persist_path (snd (persist ev s)) = ms_persist_path s"
  by (simp add: persist_def Let_def)

lemma set_leader_path [simp]: "ms_persist_path (set_leader ev l g s) = ms_persist_path s"
  by (simp add: set_leader_def)

lemma mark_node_offline_path [simp]: "ms_persist_path (snd (mark_node_offline ev i s)) = ms_persist_path s"
  by (simp add: mark_node_offline_def Let_def split: option.split)

lemma delete_object_path [simp]: "ms_persist_path (snd (delete_object ev i s)) = ms_persist_path s"
  by (simp add: delete_object_def Let_def split: option.split)

lemma ms_step_path: "ms_persist_path (snd (ms_step op s)) = ms_persist_path s"
proof (cases op)
  case (MsCreate ev filename sz rf owner chunk_size)
  then show ?thesis
    by (auto simp: create_object_def Let_def split: option.splits Option.bind_splits)
qed (auto simp: delete_object_by_filename_def update_chunk_def register_node_def update_node_heartbeat_def
    Let_def split: option.splits prod.splits)

lemma start_election_path:
  "start_election ev replies c = (sent, c') \<Longrightarrow> ms_persist_path (co_metadata_store c') = ms_persist_path (co_metadata_store c)"
  by (auto simp: start_election_def Let_def split: if_splits)

lemma select_nodes_path: "ms_persist_path (snd (select_nodes ev cnt strategy s)) = ms_persist_path s"
  by (simp add: select_nodes_def Let_def split: LoadBalanceStrategy.split prod.split)

lemma node_step_path: "node_step p p' \<Longrightarrow> ms_persist_path (np_store p') = ms_persist_path (np_store p)"
proof (induction rule: node_step.induct)
  case (Called p op r m)
  then show ?case using ms_step_path [of op "np_store p"] by simp
next
  case (Selected p ev cnt strategy ns m)
  then show ?case using select_nodes_path [of ev cnt strategy "np_store p"] by simp
qed (auto simp: signal_handler_def election_tick_def RequestElection_def AnnounceLeader_def TriggerRecovery_def
    split: if_splits dest: start_election_path)

lemma node_steps_path: "node_step\<^sup>*\<^sup>* p p' \<Longrightarrow> ms_persist_path (np_store p') = ms_persist_path (np_store p)"
  by (induction rule: rtranclp_induct) (simp_all add: node_step_path)

section \<open>Properties\<close>

text \<open>C34. A metadata node that is stopped by a signal, with no call hanging and its snapshot file
  writable, exits with code 0 and leaves in the snapshot file what the store's snapshot records (the leader, the
  nodes, and of an object everything but its checksum and its chunks, of which only the number is recorded), but
  a node started again on that file serves none of it: it reads back no object, no node and no leader.\<close>

theorem restart_forgets_metadata:
  assumes "metadata_node_main argv files getenv readable start = Serving cfg server c"
    and "node_step\<^sup>*\<^sup>* (node_process_start c) p" "\<not> np_running p" "\<not> np_hung p"
    and "ev_open_ok ev" "length (snapshot_text (np_store p)) \<le> ev_flushed ev" "ev_rename_ok ev"
    and "metadata_node_main argv (files(cf_metadata_persist_path cfg \<mapsto> snapshot_text (np_store p))) getenv readable' start'
      = Serving cfg' server' c'"
  shows "\<exists>m. metadata_node_stop ev p = Some (Exit 0, m) \<and> ms_persist_path m = cf_metadata_persist_path cfg
    \<and> ms_snapshot m = Some (snapshot_text (np_store p))
    \<and> locate_by_filename f (co_metadata_store c') = None \<and> get_nodes (co_metadata_store c') = []
    \<and> leader_id (co_metadata_store c') = []"
proof -
  let ?m = "snd (persist ev (np_store p))"
  have "ms_persist_path (np_store p) = cf_metadata_persist_path cfg"
    using node_steps_path [OF assms(2)] served_store_empty(5) [OF assms(1)] by (simp add: node_process_start_def)
  moreover have "metadata_node_stop ev p = Some (Exit 0, ?m)"
    using assms(3,4) by (simp add: metadata_node_stop_def stop_coordinator_def leave_main_def)
  moreover have "ms_snapshot ?m = Some (snapshot_text (np_store p))"
    using assms(5-7) by (simp add: persist_def Let_def)
  ultimately show ?thesis using served_store_empty [OF assms(8)] by simp
qed

text \<open>A node that is told nothing, one that knows a peer, and the first after a file was created and a
  signal arrived.\<close>

definition plain_node :: "string list \<Rightarrow> coordinator" where
  "plain_node peers = \<lparr>co_node_id = ''coordinator-1'', co_peer_addresses = peers,
     co_metadata_store = MetadataStore (cf_metadata_persist_path Config_default) True None, co_is_leader = False,
     co_generation = 0, co_running = True, co_current_leader = []\<rparr>"

abbreviation plain_server :: "node_service server" where
  "plain_server \<equiv> \<lparr>srv_address = ''0.0.0.0:50051'', srv_services = [MetadataSvc, CoordinatorSvc],
     srv_max_receive = 67108864, srv_max_send = 67108864\<rparr>"

lemma load_from_empty_env: "load_from_env Map.empty cfg = (None, cfg)"
  by (simp add: load_from_env_def env_setting_def)

lemma value_after_peer: "value_after ''--address'' ''--peer'' = []"
  by (simp add: value_after_def)

lemma plain_node_serves:
  "metadata_node_main [] files Map.empty readable (\<lambda>_. True) = Serving (Config_default\<lparr>cf_listen_address := ''0.0.0.0:50051''\<rparr>)
     plain_server ((plain_node [])\<lparr>co_metadata_store := MetadataStore (cf_metadata_persist_path Config_default) readable
       (files (cf_metadata_persist_path Config_default))\<rparr>)"
  "metadata_node_main [''--peer'', q] Map.empty Map.empty True (\<lambda>_. True)
     = Serving (Config_default\<lparr>cf_listen_address := ''0.0.0.0:50051''\<rparr>) plain_server (plain_node [q])"
  by (simp_all add: metadata_node_main_def node_args_default_def node_config_def load_from_empty_env build_server_cases
      start_coordinator_def CoordinatorServiceImpl_def plain_node_def value_after_peer Let_def)

definition used_node :: node_process where
  "used_node = signal_handler (with_store (snd (ms_step (MsCreate example_env ''f'' 10 3 ''me'' 4) (co_metadata_store (plain_node []))))
     (node_process_start (plain_node [])))"

lemma used_node_reached:
  "node_step\<^sup>*\<^sup>* (node_process_start (plain_node [])) used_node" "\<not> np_running used_node" "\<not> np_hung used_node"
  "\<exists>obj. locate_by_filename ''f'' (np_store used_node) = Some obj"
proof -
  let ?p = "node_process_start (plain_node [])" and ?op = "MsCreate example_env ''f'' 10 3 ''me'' 4"
  let ?s = "MetadataStore (cf_metadata_persist_path Config_default) True None"
  have "ms_filename_to_id ?s ''f'' = None" and fresh: "um_find (ms_objects_by_id ?s) (env_uuid example_env 0) = None"
    by (simp_all add: MetadataStore_def load_def)
  then obtain obj m where new: "create_object example_env ''f'' 10 3 ''me'' 4 ?s = Some (Some obj, m)"
    by (simp add: create_object_simp)
  then have c: "ms_step ?op (np_store ?p) = (MsObject (Some obj), m)" "locate_by_filename ''f'' m = Some obj"
    using fun_cong [OF created(3) [OF ms_inv_initial fresh new], of "''f''"] by (simp_all add: node_process_start_def plain_node_def)
  have "node_step ?p (with_store m ?p)"
    using node_step.Called [OF _ c(1)] by (simp add: node_process_start_def)
  then show "node_step\<^sup>*\<^sup>* ?p used_node"
    using node_step.Signal [of "with_store m ?p"] c(1) by (simp add: used_node_def node_process_start_def)
  show "\<not> np_running used_node" "\<not> np_hung used_node" "\<exists>obj. locate_by_filename ''f'' (np_store used_node) = Some obj"
    using c by (simp_all add: used_node_def signal_handler_def node_process_start_def)
qed

theorem restart_forgets_metadata_witness:
  "\<exists>obj m cfg server c. locate_by_filename ''f'' (np_store used_node) = Some obj
     \<and> metadata_node_stop (example_env\<lparr>ev_flushed := length (snapshot_text (np_store used_node))\<rparr>) used_node = Some (Exit 0, m)
     \<and> ms_snapshot m = Some (snapshot_text (np_store used_node))
     \<and> metadata_node_main [] [cf_metadata_persist_path Config_default \<mapsto> snapshot_text (np_store used_node)] Map.empty True (\<lambda>_. True)
       = Serving cfg server c
     \<and> locate_by_filename ''f'' (co_metadata_store c) = None"
proof -
  let ?ev = "example_env\<lparr>ev_flushed := length (snapshot_text (np_store used_node))\<rparr>"
  let ?files = "[cf_metadata_persist_path Config_default \<mapsto> snapshot_text (np_store used_node)]"
  have first: "metadata_node_main [] Map.empty Map.empty True (\<lambda>_. True)
      = Serving (Config_default\<lparr>cf_listen_address := ''0.0.0.0:50051''\<rparr>) plain_server (plain_node [])"
    by (simp add: plain_node_serves(1)) (simp add: plain_node_def)
  obtain cfg server c where again: "metadata_node_main [] ?files Map.empty True (\<lambda>_. True) = Serving cfg server c"
    using plain_node_serves(1) by blast
  have "ev_open_ok ?ev" "length (snapshot_text (np_store used_node)) \<le> ev_flushed ?ev" "ev_rename_ok ?ev"
    by (simp_all add: example_env_def)
  note stop = restart_forgets_metadata [OF first used_node_reached(1-3) this, of True "\<lambda>_. True" cfg server c "''f''"]
  show ?thesis using stop again used_node_reached(4) by auto
qed

text \<open>A cluster of metadata nodes that all serve from the start: its coordinators are as \<open>main\<close> built them, then
  the election goes on with every request answered, and the nodes' stores are called.\<close>

definition served :: "coordinator \<Rightarrow> bool" where
  "served c \<longleftrightarrow> (\<exists>argv files getenv readable start cfg server.
     metadata_node_main argv files getenv readable start = Serving cfg server c)"

inductive served_reachable :: "election_cluster \<Rightarrow> bool" where
  Served: "ec_sent s = [] \<Longrightarrow> (\<And>a c. ec_nodes s a = Some c \<Longrightarrow> served c) \<Longrightarrow> served_reachable s"
| Election: "served_reachable s \<Longrightarrow> election_step False s s' \<Longrightarrow> served_reachable s'"
| Call: "served_reachable s \<Longrightarrow> ec_nodes s a = Some c \<Longrightarrow> ms_step op (co_metadata_store c) = (r, m) \<Longrightarrow>
    served_reachable (s\<lparr>ec_nodes := (ec_nodes s)(a \<mapsto> c\<lparr>co_metadata_store := m\<rparr>)\<rparr>)"
| Select: "served_reachable s \<Longrightarrow> ec_nodes s a = Some c \<Longrightarrow>
    select_nodes ev cnt strategy (co_metadata_store c) = (ns, m) \<Longrightarrow>
    served_reachable (s\<lparr>ec_nodes := (ec_nodes s)(a \<mapsto> c\<lparr>co_metadata_store := m\<rparr>)\<rparr>)"

text \<open>What holds of a node with a peer in the cluster, and of the announcements: only nodes without one win, and
  what they announce reaches nobody.\<close>

definition opposed :: "election_cluster \<Rightarrow> coordinator \<Rightarrow> bool" where
  "opposed s c \<longleftrightarrow> (\<exists>p \<in> set (co_peer_addresses c). ec_nodes s p \<noteq> None)"

definition unled :: "coordinator \<Rightarrow> bool" where
  "unled c \<longleftrightarrow> \<not> co_is_leader c \<and> co_current_leader c = [] \<and> co_generation c = 0"

definition served_ok :: "election_cluster \<Rightarrow> bool" where
  "served_ok s \<longleftrightarrow> (\<forall>a c. ec_nodes s a = Some c \<longrightarrow> co_node_id c = ''coordinator-1'' \<and> (opposed s c \<longrightarrow> unled c))
     \<and> (\<forall>m \<in> set (ec_sent s). ec_nodes s (an_to m) = None)"

lemma served_fresh: "served c \<Longrightarrow> co_node_id c = ''coordinator-1'' \<and> unled c"
  using serving_cases unfolding served_def unled_def by blast

lemma opposed_stands_down:
  assumes "served_ok s" "ec_nodes s a = Some c" "replies_ok False s c replies" "opposed s c"
  shows "start_election ev replies c = ([], c)"
proof -
  obtain p d where p: "p \<in> set (co_peer_addresses c)" "ec_nodes s p = Some d" using assms(4) by (auto simp: opposed_def)
  have "co_node_id c = co_node_id d" using assms(1,2) p(2) by (simp add: served_ok_def)
  then have "replies p = Some False" using assms(3) p by (auto simp: replies_ok_def answer_def)
  with p(1) have "higher_peer_exists replies (co_peer_addresses c)" by (auto simp: higher_peer_exists_iff)
  then show ?thesis by (simp add: start_election_def)
qed

lemma served_ok_update:
  assumes "served_ok s" "ec_nodes s a = Some c" "same_identity c c'"
    and "opposed s c \<longrightarrow> unled c'" "\<forall>m \<in> set ms. ec_nodes s (an_to m) = None"
  shows "served_ok (s\<lparr>ec_nodes := (ec_nodes s)(a \<mapsto> c'), ec_sent := ms\<rparr>)"
proof -
  let ?s = "s\<lparr>ec_nodes := (ec_nodes s)(a \<mapsto> c'), ec_sent := ms\<rparr>"
  have "opposed ?s d \<longleftrightarrow> opposed s d" for d using assms(2) by (auto simp: opposed_def)
  moreover have "opposed s c' \<longleftrightarrow> opposed s c" using assms(3) by (simp add: opposed_def same_identity_def)
  ultimately show ?thesis using assms by (auto simp: served_ok_def same_identity_def)
qed

lemma served_election:
  assumes ok: "served_ok s" "ec_nodes s a = Some c" "replies_ok False s c replies"
    and e: "start_election ev replies c = (sent, c')"
  shows "served_ok (s\<lparr>ec_nodes := (ec_nodes s)(a \<mapsto> c'), ec_sent := ec_sent s @ sent\<rparr>)"
proof (rule served_ok_update [OF ok(1,2)])
  show "same_identity c c'" using e by (auto simp: start_election_def same_identity_def Let_def split: if_splits)
  show "opposed s c \<longrightarrow> unled c'"
    using opposed_stands_down [OF ok, of ev] ok(1,2) e by (auto simp: served_ok_def)
  have "an_to m \<in> set (co_peer_addresses c) \<and> \<not> opposed s c" if "m \<in> set sent" for m
    using that e opposed_stands_down [OF ok, of ev] by (auto simp: start_election_def Let_def split: if_splits)
  then show "\<forall>m \<in> set (ec_sent s @ sent). ec_nodes s (an_to m) = None"
    using ok(1) by (auto simp: served_ok_def opposed_def)
qed

lemma served_step:
  assumes "election_step False s s'" "served_ok s"
  shows "served_ok s'"
  using assms
proof (cases rule: election_step.cases)
  case (Tick a c replies ev sent c')
  have "served_ok (s\<lparr>ec_nodes := (ec_nodes s)(a \<mapsto> c), ec_sent := ec_sent s @ []\<rparr>)"
    using assms(2) Tick(2) by (simp add: map_upd_triv)
  with Tick served_election [OF assms(2) Tick(2,3), of ev sent c'] show ?thesis
    by (cases "co_is_leader c") (simp_all add: election_tick_def)
next
  case (Asked a c b d replies ev r sent c')
  then consider "start_election ev replies c = (sent, c')" | "sent = []" "c' = c"
    by (auto simp: RequestElection_def split: if_splits)
  then show ?thesis
    using served_election [OF assms(2) Asked(2,5), of ev sent c'] Asked(1,2) assms(2)
    by cases (simp_all add: map_upd_triv)
next
  case (Triggered a c ev failed r c')
  have "same_identity c c'" "opposed s c \<longrightarrow> unled c'"
    using Triggered(2,3) assms(2)
    by (auto simp: TriggerRecovery_def same_identity_def served_ok_def unled_def split: if_splits)
  with served_ok_update [OF assms(2) Triggered(2), of c' "ec_sent s"] assms(2) show ?thesis
    by (simp add: Triggered(1) served_ok_def)
qed (auto simp: served_ok_def)

lemma served_store:
  assumes "served_ok s" "ec_nodes s a = Some c"
  shows "served_ok (s\<lparr>ec_nodes := (ec_nodes s)(a \<mapsto> c\<lparr>co_metadata_store := m\<rparr>)\<rparr>)"
proof -
  have "same_identity c (c\<lparr>co_metadata_store := m\<rparr>)" by (simp add: same_identity_def)
  moreover have "opposed s c \<longrightarrow> unled (c\<lparr>co_metadata_store := m\<rparr>)"
    using assms by (simp add: served_ok_def unled_def)
  moreover have "\<forall>m \<in> set (ec_sent s). ec_nodes s (an_to m) = None" using assms(1) by (simp add: served_ok_def)
  ultimately have "served_ok (s\<lparr>ec_nodes := (ec_nodes s)(a \<mapsto> c\<lparr>co_metadata_store := m\<rparr>), ec_sent := ec_sent s\<rparr>)"
    by (rule served_ok_update [OF assms])
  then show ?thesis by simp
qed

lemma served_reachable_ok: "served_reachable s \<Longrightarrow> served_ok s"
proof (induction rule: served_reachable.induct)
  case (Served s)
  then show ?case using served_fresh by (auto simp: served_ok_def)
next
  case (Election s s')
  then show ?case using served_step by blast
next
  case (Call s a c op r m)
  then show ?case using served_store by blast
next
  case (Select s a c ev cnt strategy ns m)
  then show ?case using served_store by blast
qed

text \<open>C38. In a cluster of metadata nodes that all serve from the start, with every election request to a node of the
  cluster answered, a node that has another one (or itself) as its peer is never a leader and never
  learns of one, whatever elections are held, announcements delivered and metadata calls made:
  every node starts with the same id, so candidate and peer have the same priority, and the peer's
  answer makes the candidate stand down.\<close>

theorem served_nodes_never_win:
  assumes "served_reachable s" "ec_nodes s a = Some c" "p \<in> set (co_peer_addresses c)" "ec_nodes s p = Some d"
  shows "\<not> co_is_leader c \<and> co_current_leader c = [] \<and> co_generation c = 0
    \<and> (\<forall>ev replies. replies_ok False s c replies \<longrightarrow> start_election ev replies c = ([], c))"
proof -
  have ok: "served_ok s" using assms(1) by (rule served_reachable_ok)
  have opp: "opposed s c" using assms(3,4) by (auto simp: opposed_def)
  show ?thesis
    using ok assms(2) opp opposed_stands_down [OF ok assms(2) _ opp] by (auto simp: served_ok_def unled_def)
qed

text \<open>Two nodes that are each other's peers, after a file was created on the first and the election loop of the
  second has run.\<close>

definition served_pair :: "metadata_store \<Rightarrow> election_cluster" where
  "served_pair m = \<lparr>ec_nodes = [''h1'' \<mapsto> (plain_node [''h2''])\<lparr>co_metadata_store := m\<rparr>, ''h2'' \<mapsto> plain_node [''h1'']],
     ec_sent = []\<rparr>"

lemma served_pair_reachable:
  assumes "ms_step op (co_metadata_store (plain_node [''h2''])) = (r, m)"
  shows "served_reachable (served_pair m)"
proof -
  let ?s = "served_pair (co_metadata_store (plain_node [''h2'']))"
  have "served (plain_node [q])" for q using plain_node_serves(2) [of q] unfolding served_def by blast
  then have "served_reachable ?s"
    by (intro served_reachable.Served) (auto simp: served_pair_def split: if_splits)
  from served_reachable.Call [OF this _ assms, of "''h1''"]
  have "served_reachable (?s\<lparr>ec_nodes := (ec_nodes ?s)(''h1'' \<mapsto> (plain_node [''h2''])\<lparr>co_metadata_store := m\<rparr>)\<rparr>)"
    by (simp add: served_pair_def)
  then have called: "served_reachable (served_pair m)" by (simp add: served_pair_def fun_upd_twist)
  have "election_step False (served_pair m) ((served_pair m)\<lparr>ec_nodes := (ec_nodes (served_pair m))(''h2'' \<mapsto> plain_node [''h1'']),
      ec_sent := ec_sent (served_pair m) @ []\<rparr>)"
    by (rule election_step.Tick [where c = "plain_node [''h1'']" and replies = "\<lambda>_. Some False"])
      (simp_all add: served_pair_def plain_node_def replies_ok_def answer_def election_tick_def start_election_def)
  from served_reachable.Election [OF called this] show ?thesis by (simp add: served_pair_def)
qed

theorem served_nodes_never_win_witness:
  "\<exists>m obj. ms_step (MsCreate example_env ''f'' 10 3 ''me'' 4) (co_metadata_store (plain_node [''h2''])) = (MsObject (Some obj), m)
     \<and> start_election example_env (\<lambda>_. Some False) ((plain_node [''h2''])\<lparr>co_metadata_store := m\<rparr>)
       = ([], (plain_node [''h2''])\<lparr>co_metadata_store := m\<rparr>)"
proof -
  have "ms_filename_to_id (co_metadata_store (plain_node [''h2''])) ''f'' = None"
    by (simp add: plain_node_def MetadataStore_def load_def)
  then obtain obj m where new: "ms_step (MsCreate example_env ''f'' 10 3 ''me'' 4) (co_metadata_store (plain_node [''h2'']))
      = (MsObject (Some obj), m)"
    by (simp add: create_object_simp)
  have "replies_ok False (served_pair m) ((plain_node [''h2''])\<lparr>co_metadata_store := m\<rparr>) (\<lambda>_. Some False)"
    by (simp add: replies_ok_def answer_def served_pair_def plain_node_def)
  with served_nodes_never_win [OF served_pair_reachable [OF new], of "''h1''" _ "''h2''"] new show ?thesis
    by (simp add: served_pair_def plain_node_def)
qed

text \<open>A metadata node whose server does not start never exits with code 1, as it means to: the election thread
  is running, and destroying it terminates the process.\<close>

theorem failed_server_terminates:
  assumes "fst (node_config (parse_node_args argv node_args_default) files getenv Config_default) = None"
    and "\<And>server. \<not> start server"
  shows "metadata_node_main argv files getenv readable start = Terminated"
  using assms by (auto simp: metadata_node_main_def Let_def build_server_def leave_main_def start_coordinator_def
      split: prod.split option.split)

theorem failed_server_terminates_witness:
  "metadata_node_main [] Map.empty Map.empty True (\<lambda>_. False) = Terminated"
  by (rule failed_server_terminates)
    (simp_all add: node_args_default_def node_config_def load_from_empty_env)

end
