(* ===== verification/Spec2Isabelle.thy ===== *)
theory Spec2Isabelle
  imports Interleaving Client_Calls Durability Concurrent_Store Concurrent_Chunks Coordinator Config Thread_Pool Heartbeat Cli Node_Main
begin

text \<open>
  A verification of the distributed storage engine: a C++ object store with a metadata service,
  storage nodes, replication, recovery, leader election and a command line client.

  \<^bold>\<open>The program.\<close> A client splits a file into chunks that the metadata service plans, writes each chunk
  to storage nodes the service selects, demands a quorum of acknowledgements and records the replicas
  with the service; a download locates the file and reads each chunk from a replica whose digest is
  the recorded one. A storage node keeps its chunks in a local store of files. A recovery manager
  repairs chunks with too few live replicas through a replication manager; storage nodes send
  heartbeats; the metadata nodes elect a leader.

  \<^bold>\<open>Theories and sources\<close> (file names under \<open>src/\<close> of the repository).
  \<^item> \<open>DSE_Prelude\<close>: bytes and words, hexadecimal and decimal text, unordered maps as association lists with
    an arbitrary iteration order, histories of operations, and the shared interfaces: the locale
    \<open>byte_codec\<close> (a writer and a reader of a field), the locale \<open>simulation\<close> (an implementation against a
    specification, over whole histories) and the locale \<open>forward_simulation\<close> (the same for labelled
    step relations and their traces).
  \<^item> \<open>DSE_Types\<close>: \<open>include/common/types.hpp\<close>, a record per struct.
  \<^item> \<open>Checksum\<close>: \<open>common/checksum.cpp\<close>. The repository's SHA-256, loop by loop, is the function of FIPS
    180-4, whose constants are derived there from the roots of primes; ids have the version 4 form.
  \<^item> \<open>Chunk_Format\<close>: \<open>chunk/chunk_format.cpp\<close>. The on-disk format: its readers and writers are codecs;
    round trip, soundness and completeness of \<open>deserialize\<close>, rejection of torn files, layout.
  \<^item> \<open>Chunk_Store\<close>: \<open>chunk/chunk_store.cpp\<close>. The store of a storage node with the outcomes of the file
    system as arguments: it refines a map from ids to chunks; failed writes, restarts, statistics,
    ranges, and what goes wrong when buffered bytes do not reach the disk.
  \<^item> \<open>Metadata_Store\<close>: \<open>metadata/metadata_store.cpp\<close>. Namespace, registry, leader and snapshot refine a
    specification by maps; the plan of an object's chunks, node selection, listings, under-replicated
    chunks. The planning loop is a partial function, \<open>None\<close> for a call that does not return.
  \<^item> \<open>Metadata_Service\<close>: \<open>metadata/metadata_service_impl.cpp\<close>. The eleven handlers with the messages of
    \<open>proto/metadata.proto\<close>.
  \<^item> \<open>Cluster\<close>: what the clients of the two services see. A metadata call is delivered, or its request or
    its answer is lost. The storage service is a parameter, with its contract as the locales
    \<open>storage_contract\<close>, \<open>reliable_storage\<close>, \<open>replica_storage\<close>, \<open>available_storage\<close> and \<open>deleting_storage\<close>, all
    interpreted on a cluster of the chunk stores of \<open>Chunk_Store\<close>.
  \<^item> \<open>Client\<close>: \<open>client/storage_client.cpp\<close>. What is uploaded is what is downloaded; downloads after
    successful uploads succeed when the nodes are up; uploads that miss their quorum.
  \<^item> \<open>Client_Calls\<close>: the metadata calls of an upload: it returns with a bound on them, and an upload whose
    recordings are lost runs beside one that loses nothing, with the same result.
  \<^item> \<open>Replication\<close>: \<open>replication/replication_manager.cpp\<close>. Success means a quorum of distinct online nodes
    that hold the payload.
  \<^item> \<open>Recovery\<close>: \<open>recovery/recovery_manager.cpp\<close>. Whatever is lost, recovery keeps every recorded replica
    true and every file its bytes; what it records meets the policy; in a healthy cluster one pass
    restores the factor for every chunk with a live replica.
  \<^item> \<open>Coordinator\<close>: \<open>coordinator/coordinator_service.cpp\<close>. The handlers, and a step relation of a cluster of
    coordinators with its reachable states: consistency of each coordinator with its store, who can
    lead when answers arrive and when they are lost, the order of priorities.
  \<^item> \<open>Config\<close>: \<open>common/config.cpp\<close>. File and environment, with the exceptions of \<open>std::stoul\<close>.
  \<^item> \<open>Heartbeat\<close>: \<open>heartbeat/heartbeat_manager.cpp\<close>. What a heartbeat does to the registry.
  \<^item> \<open>Thread_Pool\<close>: \<open>common/thread_pool.cpp\<close>. Workers, submissions, notifications and shutdown as
    interleaved atomic steps: no task is lost, repeated or overtaken, no wake-up is lost, and a
    shutdown drains the queue.
  \<^item> \<open>RW_Lock\<close>: \<open>include/common/rw_lock.hpp\<close>. Mutual exclusion of readers and writers; the locale
    \<open>guarded_object\<close>: interleaved operations that hold a guard are serial when those under the shared guard
    change nothing, and a writer that does not return blocks everybody.
  \<^item> \<open>Concurrent_Store\<close>: the operations of \<open>metadata/metadata_store.cpp\<close> with the guards they take. Concurrent
    calls are serial, except selections by round robin, which race on the index.
  \<^item> \<open>Cli\<close>: \<open>client/cli_main.cpp\<close>. Arguments, commands, output and exit codes; a file put and got through
    the command line is the same file.
  \<^item> \<open>Concurrent_Chunks\<close>: the operations of \<open>chunk/chunk_store.cpp\<close> under its mutex. Concurrent calls answer as
    a map from ids to chunks does, one call after the other.
  \<^item> \<open>Grpc_Util\<close>: \<open>network/grpc_util.cpp\<close>. Channels and servers with their message limits, and what the
    limit means for uploads (the locale \<open>limited_channels\<close>).
  \<^item> \<open>Node_Main\<close>: \<open>metadata/metadata_node_main.cpp\<close>. Arguments, configuration and start-up of a metadata node,
    the serving process as a step relation, its shutdown and what a restart finds; and the reachable states of a
    cluster of nodes that serve, in which no node with a peer ever leads.
  \<^item> \<open>Engine\<close>: the client, the managers, the metadata service and the storage nodes together, one operation
    after the other, with calls and stored chunks lost at any time. Its traces are traces of a map from
    file names to contents; a download returns the last upload.
  \<^item> \<open>Client_Programs\<close>: the operations of \<open>client/storage_client.cpp\<close>, \<open>replication/replication_manager.cpp\<close> and
    \<open>recovery/recovery_manager.cpp\<close> as programs of remote calls, and that a program run alone is the operation.
  \<^item> \<open>Safe_Programs\<close>, \<open>Safe_Operations\<close>: a rely-guarantee judgement on programs, and that every operation
    meets it: whatever other operations do between its calls, its calls keep the invariant of the engine and
    have the effects of atomic events of a map of files.
  \<^item> \<open>Interleaving\<close>: any number of operations whose calls interleave. Every run linearises: the operations
    are atomic on one map from file names to contents.
  \<^item> \<open>Durability\<close>: how many failed nodes an upload and a repaired file survive.

  \<^bold>\<open>Modelling.\<close> A struct or class is a record; an operation is a function from the old state to its
  result and the new state; 32- and 64-bit integers are words, so sums, products and narrowings wrap as
  in the code; exceptions, early returns and statuses other than \<open>OK\<close> are values. What the code takes
  from outside is an argument: the time, random words, the iteration order of hash tables, the order
  \<open>std::sort\<close> and \<open>std::shuffle\<close> give, the outcome of file operations, the fate of each call. The
  operations of the metadata store run one at a time, which \<open>Concurrent_Store\<close> justifies. Where a thread loops until
  a flag is cleared, the model takes the list of the flag's values at the head of the loop. One
  configuration serves the client and the metadata service (\<open>n_cfg\<close>); the recovery manager has its own.

  \<^bold>\<open>Termination.\<close> No fuel is used: the loops end structurally or by a measure, and the one loop that may
  not end, the planning of chunks, is a partial function with the exact condition under which it does
  not return (the real loop then appends chunks until memory runs out; memory is unbounded here). An upload with
  another chunk size returns whatever is lost (\<open>Client_Calls\<close>). The programs of \<open>Client_Programs\<close> are
  finite by construction, their loops being recursions on lists.

  \<^bold>\<open>Not modelled.\<close> The service of the storage nodes, whose sources the repository does not contain (it is the
  parameter described above); gRPC itself (calls are delivered or lost, a server starts or not, and the
  limits of a channel are a hypothesis) and its generated messages beyond the fields the code uses;
  logging; a file that the chunk store finds when it starts but cannot open, and a removal of a temporary file that
  throws; futures and the results of tasks; time as such (intervals and deadlines appear as lost
  answers). \<open>Engine\<close> and \<open>Durability\<close> run one operation of a client after the other; \<open>Interleaving\<close> interleaves
  operations call by call, each call atomic, which \<open>Concurrent_Store\<close> and \<open>Concurrent_Chunks\<close> justify. A
  metadata call is one step there: its request, its effect and its answer are not separate. Each operation
  of a run may have its own configuration, which is also the one the metadata service uses when it answers
  that operation. That a concurrent operation succeeds is not claimed: another may take its name, delete its
  file or be ahead of it.
\<close>

end
